(* ===== verification/Chukei_Prelude.thy ===== *)
theory Chukei_Prelude
  imports "HOL-Library.Word" "HOL-Library.List_Lexorder" "HOL-Library.Char_ord"
begin

unbundle bit_operations_syntax

text \<open>
  The vocabulary the component theories share.

  A C++ \<^verbatim>\<open>char\<close> buffer is a list of 8-bit words, a \<^verbatim>\<open>std::string\<close> is an Isabelle \<^typ>\<open>string\<close>
  (a list of 8-bit characters), \<^verbatim>\<open>size_t\<close> is \<^typ>\<open>nat\<close>, and the fixed-width integers are words of
  that width. A pointer that may be null is an \<^typ>\<open>'a option\<close>. Exceptions are values of
  \<open>cpp_error\<close>; a throwing constructor returns a sum with the exception on the left.

  The second half holds the generic lemmas on lists, bits and buffers: the load and store of
  a 16-bit or 32-bit integer in a little-endian host, overwriting a region of a buffer, and
  the \<open>find\<close>/\<open>substr\<close> splitting loop that the sources repeat for every dotted name.
\<close>

section \<open>Types\<close>

type_synonym byte = "8 word"
type_synonym bytes = "8 word list"
type_synonym u8 = "8 word"
type_synonym u16 = "16 word"
type_synonym u32 = "32 word"
type_synonym u64 = "64 word"

datatype cpp_error =
    Invalid_argument string
  | Out_of_range string
  | Runtime_error string
  | Json_type_error

named_theorems wire_simps \<open>reading and writing wire-format buffers\<close>
named_theorems cpp_defs \<open>definitions that translate one-line accessors of the sources\<close>

section \<open>Characters and bytes\<close>

definition byte_of_char :: "char \<Rightarrow> byte" where
  "byte_of_char c = of_char c"

definition char_of_byte :: "byte \<Rightarrow> char" where
  "char_of_byte b = char_of (unat b)"

definition bytes_of_string :: "string \<Rightarrow> bytes" where
  "bytes_of_string s = map byte_of_char s"

definition string_of_bytes :: "bytes \<Rightarrow> string" where
  "string_of_bytes bs = map char_of_byte bs"

text \<open>\<^verbatim>\<open>std::isalnum\<close>, \<^verbatim>\<open>std::isdigit\<close> and \<^verbatim>\<open>std::tolower\<close> of the C locale.\<close>

definition isdigit :: "char \<Rightarrow> bool" where
  "isdigit c \<longleftrightarrow> 48 \<le> (of_char c :: nat) \<and> (of_char c :: nat) \<le> 57"

definition isupper :: "char \<Rightarrow> bool" where
  "isupper c \<longleftrightarrow> 65 \<le> (of_char c :: nat) \<and> (of_char c :: nat) \<le> 90"

definition islower :: "char \<Rightarrow> bool" where
  "islower c \<longleftrightarrow> 97 \<le> (of_char c :: nat) \<and> (of_char c :: nat) \<le> 122"

definition isalnum :: "char \<Rightarrow> bool" where
  "isalnum c \<longleftrightarrow> isdigit c \<or> isupper c \<or> islower c"

definition tolower :: "char \<Rightarrow> char" where
  "tolower c = (if isupper c then char_of (of_char c + 32 :: nat) else c)"

section \<open>Integers in memory\<close>

text \<open>
  The memory image of an integer on a little-endian host (least significant byte first), and
  reading one back. The sources copy these images with \<^verbatim>\<open>std::copy\<close> over
  \<^verbatim>\<open>reinterpret_cast<char *>(&value)\<close>.
\<close>

definition mem16 :: "u16 \<Rightarrow> bytes" where
  "mem16 w = [ucast w, ucast (drop_bit 8 w)]"

definition mem32 :: "u32 \<Rightarrow> bytes" where
  "mem32 w = [ucast w, ucast (drop_bit 8 w), ucast (drop_bit 16 w), ucast (drop_bit 24 w)]"

definition load16 :: "bytes \<Rightarrow> nat \<Rightarrow> u16" where
  "load16 bs i = ucast (bs ! i) OR push_bit 8 (ucast (bs ! (i + 1)))"

definition load32 :: "bytes \<Rightarrow> nat \<Rightarrow> u32" where
  "load32 bs i = ucast (bs ! i) OR push_bit 8 (ucast (bs ! (i + 1)))
     OR push_bit 16 (ucast (bs ! (i + 2))) OR push_bit 24 (ucast (bs ! (i + 3)))"

section \<open>Buffers\<close>

text \<open>\<open>subrange bs i n\<close> is the range \<^verbatim>\<open>[p + i, p + i + n)\<close>; \<open>overwrite bs i xs\<close> is \<^verbatim>\<open>std::copy\<close> of
  \<open>xs\<close> to \<^verbatim>\<open>p + i\<close>.\<close>

definition subrange :: "'a list \<Rightarrow> nat \<Rightarrow> nat \<Rightarrow> 'a list" where
  "subrange bs i n = take n (drop i bs)"

definition overwrite :: "'a list \<Rightarrow> nat \<Rightarrow> 'a list \<Rightarrow> 'a list" where
  "overwrite bs i xs = take i bs @ xs @ drop (i + length xs) bs"

section \<open>Splitting and joining dotted strings\<close>

text \<open>
  The loop \<^verbatim>\<open>while ((pos = s.find(c, start)) != npos) { ...substr(start, pos - start)...; start = pos + 1; }\<close>:
  the segments it yields, and the text from the final \<^verbatim>\<open>start\<close> on.
\<close>

function split_on :: "char \<Rightarrow> string \<Rightarrow> string list \<times> string" where
  "split_on c s =
     (if c \<in> set s
      then (let (segs, rest) = split_on c (tl (dropWhile (\<lambda>x. x \<noteq> c) s))
            in (takeWhile (\<lambda>x. x \<noteq> c) s # segs, rest))
      else ([], s))"
  by pat_completeness auto
termination
proof (relation "measure (\<lambda>(c, s). length s)")
  show "wf (measure (\<lambda>(c::char, s::string). length s))" by simp
next
  fix c :: char and s :: string
  assume "c \<in> set s"
  then have "s \<noteq> []" by auto
  moreover have "length (dropWhile (\<lambda>x. x \<noteq> c) s) \<le> length s" by (rule length_dropWhile_le)
  ultimately show "((c, tl (dropWhile (\<lambda>x. x \<noteq> c) s)), c, s) \<in> measure (\<lambda>(c, s). length s)"
    by (cases s) auto
qed

declare split_on.simps [simp del]

fun join_with :: "char \<Rightarrow> string list \<Rightarrow> string" where
  "join_with c [] = []"
| "join_with c [s] = s"
| "join_with c (s # t # ts) = s @ c # join_with c (t # ts)"

section \<open>Lemmas: characters and bytes\<close>

lemma char_of_byte_of_char [simp]: "char_of_byte (byte_of_char c) = c"
proof -
  have "of_char c = (of_nat (of_char c) :: 8 word)" by (simp only: of_nat_of_char)
  then have "unat (of_char c :: 8 word) = of_char c"
    by (simp add: unat_of_nat)
  then show ?thesis by (simp add: char_of_byte_def byte_of_char_def)
qed

lemma byte_of_char_of_byte [simp]: "byte_of_char (char_of_byte b) = b"
proof -
  have "of_char (char_of (unat b)) = (of_nat (of_char (char_of (unat b))) :: 8 word)"
    by (simp only: of_nat_of_char)
  also have "\<dots> = of_nat (unat b mod 256)" by simp
  also have "unat b mod 256 = unat b" using unsigned_less [of b, where ?'a = nat] by simp
  finally show ?thesis by (simp add: byte_of_char_def char_of_byte_def)
qed

lemma string_of_bytes_of_string [simp]: "string_of_bytes (bytes_of_string s) = s"
  by (induction s) (simp_all add: string_of_bytes_def bytes_of_string_def)

lemma bytes_of_string_of_bytes [simp]: "bytes_of_string (string_of_bytes bs) = bs"
  by (induction bs) (simp_all add: string_of_bytes_def bytes_of_string_def)

lemma length_bytes_of_string [simp]: "length (bytes_of_string s) = length s"
  by (simp add: bytes_of_string_def)

lemma length_string_of_bytes [simp]: "length (string_of_bytes bs) = length bs"
  by (simp add: string_of_bytes_def)

lemma string_of_bytes_eq_Nil [simp]: "string_of_bytes bs = [] \<longleftrightarrow> bs = []"
  by (simp add: string_of_bytes_def)

lemma bytes_of_string_Nil [simp]: "bytes_of_string [] = []"
  by (simp add: bytes_of_string_def)

lemma bytes_of_string_append [simp]: "bytes_of_string (s @ t) = bytes_of_string s @ bytes_of_string t"
  by (simp add: bytes_of_string_def)

lemma tolower_idem [simp]: "tolower (tolower c) = tolower c"
  by (auto simp: tolower_def isupper_def)

lemma map_tolower_idem [simp]: "map tolower (map tolower s) = map tolower s"
  by (simp add: comp_def)

section \<open>Lemmas: buffers\<close>

lemma length_subrange [simp]: "length (subrange bs i n) = min n (length bs - i)"
  by (simp add: subrange_def)

lemma subrange_append_mid [wire_simps]:
  "i = length xs \<Longrightarrow> n = length ys \<Longrightarrow> subrange (xs @ ys @ zs) i n = ys"
  by (simp add: subrange_def)

lemma subrange_skip [wire_simps]: "length xs \<le> i \<Longrightarrow> subrange (xs @ ys) i n = subrange ys (i - length xs) n"
  by (simp add: subrange_def)

lemma subrange_hit [wire_simps]: "n = length ys \<Longrightarrow> subrange (ys @ zs) 0 n = ys"
  by (simp add: subrange_def)

lemma subrange_take: "i + n \<le> k \<Longrightarrow> subrange (take k bs) i n = subrange bs i n"
  by (simp add: subrange_def drop_take)

lemma length_overwrite [simp]:
  "i + length xs \<le> length bs \<Longrightarrow> length (overwrite bs i xs) = length bs"
  by (simp add: overwrite_def)

lemma nth_overwrite:
  "i + length xs \<le> length bs \<Longrightarrow> j < length bs \<Longrightarrow>
   overwrite bs i xs ! j = (if i \<le> j \<and> j < i + length xs then xs ! (j - i) else bs ! j)"
  by (auto simp: overwrite_def nth_append)

lemma take_overwrite [simp]: "i \<le> length bs \<Longrightarrow> k \<le> i \<Longrightarrow> take k (overwrite bs i xs) = take k bs"
  by (simp add: overwrite_def min_def)

lemma overwrite_append:
  assumes "i + length xs + length ys \<le> length bs"
  shows "overwrite (overwrite bs i xs) (i + length xs) ys = overwrite bs i (xs @ ys)"
  using assms by (simp add: overwrite_def ac_simps)

lemma overwrite_next:
  "j = i + length xs \<Longrightarrow> i + length xs + length ys \<le> length bs \<Longrightarrow>
   overwrite (overwrite bs i xs) j ys = overwrite bs i (xs @ ys)"
  by (simp add: overwrite_append)

lemma overwrite_Nil [simp]: "overwrite bs i [] = bs"
  by (simp add: overwrite_def)

lemma overwrite_all: "length xs = length bs \<Longrightarrow> overwrite bs 0 xs = xs"
  by (simp add: overwrite_def)

section \<open>Lemmas: integers in memory\<close>

lemma length_mem16 [simp]: "length (mem16 w) = 2"
  by (simp add: mem16_def)

lemma length_mem32 [simp]: "length (mem32 w) = 4"
  by (simp add: mem32_def)

lemma ucast_bytes16: "ucast (ucast w :: 8 word) OR push_bit 8 (ucast (ucast (drop_bit 8 w) :: 8 word)) = (w :: 16 word)"
  by (rule bit_word_eqI) (auto simp: bit_simps)

lemma ucast_bytes32:
  "ucast (ucast w :: 8 word) OR push_bit 8 (ucast (ucast (drop_bit 8 w) :: 8 word))
   OR push_bit 16 (ucast (ucast (drop_bit 16 w) :: 8 word))
   OR push_bit 24 (ucast (ucast (drop_bit 24 w) :: 8 word)) = (w :: 32 word)"
proof (rule bit_word_eqI)
  fix n
  assume "n < LENGTH(32)"
  then consider "n < 8" | "8 \<le> n \<and> n < 16" | "16 \<le> n \<and> n < 24" | "24 \<le> n \<and> n < 32"
    by fastforce
  then show "bit (ucast (ucast w :: 8 word) OR push_bit 8 (ucast (ucast (drop_bit 8 w) :: 8 word))
   OR push_bit 16 (ucast (ucast (drop_bit 16 w) :: 8 word))
   OR push_bit 24 (ucast (ucast (drop_bit 24 w) :: 8 word)) :: 32 word) n = bit w n"
    by cases (auto simp: bit_simps)
qed

lemma load16_mem16 [wire_simps]: "i = length xs \<Longrightarrow> load16 (xs @ mem16 w @ ys) i = w"
  by (simp add: load16_def mem16_def nth_append ucast_bytes16)

lemma load32_mem32 [wire_simps]: "i = length xs \<Longrightarrow> load32 (xs @ mem32 w @ ys) i = w"
  by (simp add: load32_def mem32_def nth_append ucast_bytes32)

lemma load16_skip [wire_simps]: "length xs \<le> i \<Longrightarrow> load16 (xs @ ys) i = load16 ys (i - length xs)"
  by (simp add: load16_def nth_append Suc_diff_le)

lemma load16_hit [wire_simps]: "load16 (mem16 w @ ys) 0 = w"
  using load16_mem16 [of 0 "[]" w ys] by simp

lemma load32_skip [wire_simps]: "length xs \<le> i \<Longrightarrow> load32 (xs @ ys) i = load32 ys (i - length xs)"
  by (simp add: load32_def nth_append Suc_diff_le)

lemma load32_hit [wire_simps]: "load32 (mem32 w @ ys) 0 = w"
  using load32_mem32 [of 0 "[]" w ys] by simp

lemma load16_take: "i + 2 \<le> n \<Longrightarrow> load16 (take n bs) i = load16 bs i"
  by (simp add: load16_def)

lemma load32_take: "i + 4 \<le> n \<Longrightarrow> load32 (take n bs) i = load32 bs i"
  by (simp add: load32_def)

lemma mem16_load16: "i + 2 \<le> length bs \<Longrightarrow> mem16 (load16 bs i) = subrange bs i 2"
proof -
  assume a: "i + 2 \<le> length bs"
  have lo: "ucast (ucast b OR push_bit 8 (ucast c) :: 16 word) = (b :: 8 word)" for b c :: "8 word"
    by (rule bit_word_eqI) (auto simp: bit_simps)
  have hi: "ucast (drop_bit 8 (ucast b OR push_bit 8 (ucast c) :: 16 word)) = (c :: 8 word)" for b c :: "8 word"
    by (rule bit_word_eqI) (auto simp: bit_simps dest: bit_imp_le_length)
  from a have "subrange bs i 2 = [bs ! i, bs ! (i + 1)]"
    by (simp add: subrange_def numeral_2_eq_2 take_Suc_conv_app_nth)
  then show ?thesis by (simp add: mem16_def load16_def lo hi del: drop_bit_or)
qed

section \<open>Lemmas: splitting and joining\<close>

lemma split_on_none [simp]: "c \<notin> set s \<Longrightarrow> split_on c s = ([], s)"
  by (simp add: split_on.simps)

lemma split_on_seg [simp]:
  "c \<notin> set s \<Longrightarrow> split_on c (s @ c # t) = (s # fst (split_on c t), snd (split_on c t))"
proof -
  assume a: "c \<notin> set s"
  then have "takeWhile (\<lambda>x. x \<noteq> c) (s @ c # t) = s" and "dropWhile (\<lambda>x. x \<noteq> c) (s @ c # t) = c # t"
    by (auto simp: takeWhile_append dropWhile_append)
  then show ?thesis by (subst split_on.simps) (simp add: split_beta)
qed

lemma split_on_join:
  assumes "ls \<noteq> []" and "\<And>l. l \<in> set ls \<Longrightarrow> c \<notin> set l"
  shows "split_on c (join_with c ls) = (butlast ls, last ls)"
  using assms by (induction c ls rule: join_with.induct) auto

lemma join_split_on: "join_with c (fst (split_on c s) @ [snd (split_on c s)]) = s"
proof (induction c s rule: split_on.induct)
  case (1 c s)
  show ?case
  proof (cases "c \<in> set s")
    case False
    then show ?thesis by simp
  next
    case True
    then obtain a b where s: "s = a @ c # b" and a: "c \<notin> set a"
      by (meson split_list_first)
    then have "tl (dropWhile (\<lambda>x. x \<noteq> c) s) = b" by (auto simp: dropWhile_append)
    with "1.IH" [OF True] have IH: "join_with c (fst (split_on c b) @ [snd (split_on c b)]) = b" by simp
    then show ?thesis using s a by (cases "fst (split_on c b)") auto
  qed
qed

lemma split_on_no_sep: "c \<notin> set (snd (split_on c s)) \<and> (\<forall>l\<in>set (fst (split_on c s)). c \<notin> set l)"
proof (induction c s rule: split_on.induct)
  case (1 c s)
  then show ?case
    by (subst (1 2) split_on.simps) (auto simp: split_beta dest: set_takeWhileD)
qed

lemma join_with_Cons: "join_with c (l # ls) = (if ls = [] then l else l @ c # join_with c ls)"
  by (cases ls) simp_all

lemma length_join_with: "ls \<noteq> [] \<Longrightarrow> length (join_with c ls) = sum_list (map length ls) + (length ls - 1)"
  by (induction c ls rule: join_with.induct) auto

lemma join_with_eq_Nil: "join_with c ls = [] \<longleftrightarrow> ls = [] \<or> ls = [[]]"
  by (induction c ls rule: join_with.induct) auto

end
