(* ===== verification/Wire_Codec.thy ===== *)
theory Wire_Codec
  imports Chukei_Prelude
begin

text \<open>
  The interface between a packet and the records in its sections. A packet calls the static
  \<^verbatim>\<open>FromWire(data, size, offset, out)\<close> of a record class in a counted loop, and its \<^verbatim>\<open>ToWire(out, size)\<close>
  in a loop over a vector. \<open>parse_section\<close> and \<open>write_section\<close> are those two loops.
  The locale \<open>wire_codec\<close> states what the loops rely on; \<^verbatim>\<open>DnsQuestion\<close> and \<^verbatim>\<open>DnsAnswer\<close> provide it.
\<close>

section \<open>The section loops\<close>

type_synonym 'a decoder = "bytes option \<Rightarrow> nat \<Rightarrow> nat \<Rightarrow> 'a \<Rightarrow> bool \<times> nat \<times> 'a"
type_synonym 'a encoder = "'a \<Rightarrow> bytes option \<Rightarrow> nat \<Rightarrow> nat \<times> bytes option"

text \<open>
  \<open>parse_section dec x0 data size n off acc\<close>: \<open>n\<close> iterations that parse into a fresh object \<open>x0\<close>, return
  false at the first failure, and otherwise push the object to the vector \<open>acc\<close>.
\<close>

primrec parse_section ::
  "'a decoder \<Rightarrow> 'a \<Rightarrow> bytes option \<Rightarrow> nat \<Rightarrow> nat \<Rightarrow> nat \<Rightarrow> 'a list \<Rightarrow> bool \<times> nat \<times> 'a list" where
  "parse_section dec x0 p_Data p_Size 0 s_Offset acc = (True, s_Offset, acc)"
| "parse_section dec x0 p_Data p_Size (Suc n) s_Offset acc =
     (let (ok, s_Offset', x) = dec p_Data p_Size s_Offset x0
      in if ok then parse_section dec x0 p_Data p_Size n s_Offset' (acc @ [x])
         else (False, s_Offset', acc))"

text \<open>
  \<open>write_section enc xs size (off, buf)\<close>: write each element at \<^verbatim>\<open>s_Output + s_Offset\<close> with the room left;
  an element that writes nothing makes the whole packet return 0 (the boolean is false).
\<close>

primrec write_section :: "'a encoder \<Rightarrow> 'a list \<Rightarrow> nat \<Rightarrow> nat \<times> bytes \<Rightarrow> bool \<times> nat \<times> bytes" where
  "write_section enc [] p_Size st = (True, st)"
| "write_section enc (x # xs) p_Size st =
     (let (s_Offset, buf) = st;
          (n, out) = enc x (Some (drop s_Offset buf)) (p_Size - s_Offset);
          buf' = take s_Offset buf @ (case out of Some b \<Rightarrow> b | None \<Rightarrow> drop s_Offset buf)
      in if n = 0 then (False, s_Offset, buf')
         else write_section enc xs p_Size (s_Offset + n, buf'))"

section \<open>The contract\<close>

locale wire_codec =
  fixes dec :: "'a decoder"
    and enc :: "'a encoder"
    and img :: "'a \<Rightarrow> bytes"
    and wf :: "'a \<Rightarrow> bool"
    and min_size :: nat
  assumes dec_img: "\<lbrakk>wf x; length pre + length (img x) \<le> n\<rbrakk> \<Longrightarrow>
      dec (Some (pre @ img x @ post)) n (length pre) y = (True, length pre + length (img x), x)"
    and dec_local: "dec (Some (take n data)) n off y = dec (Some data) n off y"
    and dec_bounds: "dec (Some data) n off y = (True, off', x) \<Longrightarrow> off + min_size \<le> off' \<and> off' \<le> n"
    and enc_img: "\<lbrakk>length (img x) \<le> n; n \<le> length buf\<rbrakk> \<Longrightarrow>
      enc x (Some buf) n = (length (img x), Some (img x @ drop (length (img x)) buf))"
    and img_nonempty: "img x \<noteq> []"
begin

lemma parse_section_img:
  "\<lbrakk>\<forall>x\<in>set xs. wf x; length pre + length (concat (map img xs)) \<le> n\<rbrakk> \<Longrightarrow>
   parse_section dec y (Some (pre @ concat (map img xs) @ post)) n (length xs) (length pre) acc =
     (True, length pre + length (concat (map img xs)), acc @ xs)"
proof (induction xs arbitrary: pre acc)
  case (Cons x xs)
  have step: "dec (Some (pre @ img x @ (concat (map img xs) @ post))) n (length pre) y
      = (True, length pre + length (img x), x)"
    using Cons.prems by (intro dec_img) simp_all
  show ?case
    using Cons.prems Cons.IH [of "pre @ img x" "acc @ [x]"] step by simp
qed simp

lemma parse_section_local:
  "parse_section dec y (Some (take n data)) n k off acc = parse_section dec y (Some data) n k off acc"
  by (induction k arbitrary: off acc) (simp_all add: dec_local split_beta)

lemma parse_section_bounds:
  "parse_section dec y (Some data) n k off acc = (True, off', xs) \<Longrightarrow> off \<le> n \<Longrightarrow>
   off + k * min_size \<le> off' \<and> off' \<le> n \<and> length xs = length acc + k \<and> take (length acc) xs = acc"
proof (induction k arbitrary: off acc)
  case (Suc k)
  obtain ok off1 x where d: "dec (Some data) n off y = (ok, off1, x)" by (metis prod_cases3)
  with Suc.prems have ok: "ok" and p: "parse_section dec y (Some data) n k off1 (acc @ [x]) = (True, off', xs)"
    by (auto split: if_splits)
  have b: "off + min_size \<le> off1 \<and> off1 \<le> n" using dec_bounds [of data n off y] d ok by simp
  from Suc.IH [OF p] b
  have "off1 + k * min_size \<le> off'" "off' \<le> n" "length xs = length acc + Suc k"
    and t: "take (length acc + 1) xs = acc @ [x]" by simp_all
  moreover from t have "take (length acc) xs = acc"
    by (metis append_eq_conv_conj le_add1 min.absorb1 take_take)
  ultimately show ?case using b by simp
qed simp

lemma write_section_img:
  "\<lbrakk>off + length (concat (map img xs)) \<le> n; n \<le> length buf\<rbrakk> \<Longrightarrow>
   write_section enc xs n (off, buf) =
     (True, off + length (concat (map img xs)),
      overwrite buf off (concat (map img xs)))"
proof (induction xs arbitrary: off buf)
  case Nil
  then show ?case by (simp add: overwrite_def)
next
  case (Cons x xs)
  let ?buf = "take off buf @ img x @ drop (length (img x)) (drop off buf)"
  have e: "enc x (Some (drop off buf)) (n - off) =
      (length (img x), Some (img x @ drop (length (img x)) (drop off buf)))"
    using Cons.prems by (intro enc_img) simp_all
  have o: "?buf = overwrite buf off (img x)" by (simp add: overwrite_def add.commute)
  have "write_section enc (x # xs) n (off, buf)
      = write_section enc xs n (off + length (img x), overwrite buf off (img x))"
    using e o img_nonempty [of x] by simp
  also have "\<dots> = (True, off + length (img x) + length (concat (map img xs)),
      overwrite (overwrite buf off (img x)) (off + length (img x)) (concat (map img xs)))"
    using Cons.prems by (intro Cons.IH) simp_all
  finally show ?case using Cons.prems by (simp add: overwrite_append add.assoc)
qed

end

end
