(* ===== verification/Chukei_Utils.thy ===== *)
theory Chukei_Utils
  imports Chukei_Prelude
begin

unbundle bit_operations_syntax

text \<open>
  The helpers of \<^verbatim>\<open>include/utils.h\<close> and \<^verbatim>\<open>src/utils.cc\<close>: byte-order conversion, bit reversal and
  the textual-to-binary address conversions. \<^verbatim>\<open>inet_pton\<close> belongs to the C library of the target
  and is an argument of the definitions that call it.

  The templates are generic in the width of the word. The host is little-endian, the branch of
  \<^verbatim>\<open>HostToNetwork\<close> that the x86-64 desktop and console targets compile.
\<close>

section \<open>Byte order\<close>

fun SwapEndian_loop :: "nat \<Rightarrow> 'a::len word \<Rightarrow> 'a word \<Rightarrow> 'a word" where
  "SwapEndian_loop 0 s_Val s_Result = s_Result"
| "SwapEndian_loop (Suc n) s_Val s_Result =
     SwapEndian_loop n (drop_bit 8 s_Val) (push_bit 8 s_Result OR (s_Val AND 0xFF))"

definition SwapEndian :: "'a::len word \<Rightarrow> 'a word" where
  "SwapEndian p_Input = SwapEndian_loop (LENGTH('a) div 8) p_Input 0"

fun ReverseBits_loop :: "nat \<Rightarrow> 'a::len word \<Rightarrow> 'a word \<Rightarrow> 'a word" where
  "ReverseBits_loop 0 p_Input s_Output = s_Output"
| "ReverseBits_loop (Suc n) p_Input s_Output =
     ReverseBits_loop n (drop_bit 1 p_Input) (push_bit 1 s_Output OR (p_Input AND 1))"

definition ReverseBits :: "'a::len word \<Rightarrow> 'a word" where
  "ReverseBits p_Input = ReverseBits_loop LENGTH('a) p_Input 0"

definition HostToNetwork :: "'a::len word \<Rightarrow> 'a word" where
  "HostToNetwork p_Value = SwapEndian p_Value"

definition NetworkToHost :: "'a::len word \<Rightarrow> 'a word" where
  "NetworkToHost p_Value = HostToNetwork p_Value"

section \<open>Addresses\<close>

definition IPV4_BINARY_SIZE :: nat where "IPV4_BINARY_SIZE = 4"
definition IPV6_BINARY_SIZE :: nat where "IPV6_BINARY_SIZE = 16"

text \<open>\<^verbatim>\<open>c_str()\<close> hands the text up to the first NUL to the C library.\<close>

definition c_str :: "string \<Rightarrow> string" where
  "c_str s = takeWhile (\<lambda>c. c \<noteq> CHR 0x00) s"

text \<open>
  \<open>inet_pton4\<close> and \<open>inet_pton6\<close> stand for \<^verbatim>\<open>inet_pton(AF_INET, ...)\<close> and
  \<^verbatim>\<open>inet_pton(AF_INET6, ...)\<close>: the bytes stored when the call returns 1, nothing otherwise.
\<close>

definition Ipv4ToHex :: "(string \<Rightarrow> bytes option) \<Rightarrow> string \<Rightarrow> bytes \<Rightarrow> int \<times> bytes" where
  "Ipv4ToHex inet_pton4 p_Input p_Output =
     (if length p_Output < IPV4_BINARY_SIZE then (-1, p_Output)
      else (case inet_pton4 (c_str p_Input) of
              None \<Rightarrow> (-1, p_Output)
            | Some a \<Rightarrow> (0, overwrite p_Output 0 a)))"

definition Ipv6ToHex :: "(string \<Rightarrow> bytes option) \<Rightarrow> string \<Rightarrow> bytes \<Rightarrow> int \<times> bytes" where
  "Ipv6ToHex inet_pton6 p_Input p_Output =
     (if length p_Output < IPV6_BINARY_SIZE then (-1, p_Output)
      else (case inet_pton6 (c_str p_Input) of
              None \<Rightarrow> (-1, p_Output)
            | Some a \<Rightarrow> (0, overwrite p_Output 0 a)))"

section \<open>Firmware version digits\<close>

definition BcdToDecimal :: "u8 \<Rightarrow> u8" where
  "BcdToDecimal p_Bcd = drop_bit 4 p_Bcd * 10 + (p_Bcd AND 0x0F)"

section \<open>Lemmas: byte order\<close>

lemma bit_byte_ge: "8 \<le> n \<Longrightarrow> \<not> bit (b :: byte) n"
  using bit_imp_le_length [of b n] by auto

lemma SwapEndian16_eq: "SwapEndian (x :: u16) = push_bit 8 (x AND 0xFF) OR (drop_bit 8 x AND 0xFF)"
  by (simp add: SwapEndian_def numeral_2_eq_2)

lemma SwapEndian32_eq:
  "SwapEndian (x :: u32) =
   push_bit 24 (x AND 0xFF) OR push_bit 16 (drop_bit 8 x AND 0xFF)
   OR push_bit 8 (drop_bit 16 x AND 0xFF) OR (drop_bit 24 x AND 0xFF)"
proof -
  have len: "LENGTH(32) div 8 = Suc (Suc (Suc (Suc 0)))" by simp
  show ?thesis
    unfolding SwapEndian_def len SwapEndian_loop.simps push_bit_or push_bit_push_bit drop_bit_drop_bit
    by (simp add: or.assoc)
qed

lemma mask255: "x AND 0xFF = take_bit 8 x" for x :: "'a::len word"
  by (simp add: take_bit_eq_mask mask_eq_exp_minus_1)

lemma bit_SwapEndian16:
  "bit (SwapEndian (x :: u16)) n \<longleftrightarrow> (if n < 8 then bit x (n + 8) else n < 16 \<and> bit x (n - 8))"
  by (auto simp: SwapEndian16_eq mask255 bit_simps add.commute dest: bit_imp_le_length)

lemma SwapEndian16_twice [simp]: "SwapEndian (SwapEndian (x :: u16)) = x"
  by (rule bit_word_eqI) (auto simp: bit_SwapEndian16)

lemma bit_SwapEndian32:
  "bit (SwapEndian (x :: u32)) n \<longleftrightarrow>
   (if n < 8 then bit x (n + 24) else if n < 16 then bit x (n + 8)
    else if n < 24 then bit x (n - 8) else n < 32 \<and> bit x (n - 24))"
proof -
  have eq: "bit (SwapEndian x) n \<longleftrightarrow>
    (24 \<le> n \<and> n < 32 \<and> bit x (n - 24)) \<or> (16 \<le> n \<and> n < 24 \<and> bit x (n - 8))
    \<or> (8 \<le> n \<and> n < 16 \<and> bit x (n + 8)) \<or> (n < 8 \<and> bit x (n + 24))"
    unfolding SwapEndian32_eq mask255
    by (cases "n < 32") (auto simp: bit_or_iff bit_push_bit_iff bit_take_bit_iff bit_drop_bit_eq add.commute)
  consider "n < 8" | "8 \<le> n" "n < 16" | "16 \<le> n" "n < 24" | "24 \<le> n" by linarith
  then show ?thesis by cases (simp_all add: eq)
qed

lemma bit_quarters32:
  assumes "n < 32" and "\<And>k. k < 8 \<Longrightarrow> P k" and "\<And>k. k < 8 \<Longrightarrow> P (k + 8)"
    and "\<And>k. k < 8 \<Longrightarrow> P (k + 16)" and "\<And>k. k < 8 \<Longrightarrow> P (k + 24)"
  shows "P (n :: nat)"
proof -
  consider "n < 8" | "8 \<le> n" "n < 16" | "16 \<le> n" "n < 24" | "24 \<le> n" by linarith
  then show ?thesis
    using assms(1) assms(2) [of n] assms(3) [of "n - 8"] assms(4) [of "n - 16"] assms(5) [of "n - 24"]
    by cases simp_all
qed

lemma SwapEndian32_twice [simp]: "SwapEndian (SwapEndian (x :: u32)) = x"
proof (rule bit_word_eqI)
  fix n
  assume "n < LENGTH(32)"
  then have "n < 32" by simp
  then show "bit (SwapEndian (SwapEndian x)) n = bit x n"
    by (rule bit_quarters32) (simp_all add: bit_SwapEndian32 add.commute)
qed

lemma NetworkToHost_HostToNetwork16 [simp]: "NetworkToHost (HostToNetwork (x :: u16)) = x"
  by (simp add: NetworkToHost_def HostToNetwork_def)

lemma HostToNetwork_NetworkToHost16 [simp]: "HostToNetwork (NetworkToHost (x :: u16)) = x"
  by (simp add: NetworkToHost_def HostToNetwork_def)

lemma NetworkToHost_HostToNetwork32 [simp]: "NetworkToHost (HostToNetwork (x :: u32)) = x"
  by (simp add: NetworkToHost_def HostToNetwork_def)

lemma HostToNetwork_NetworkToHost32 [simp]: "HostToNetwork (NetworkToHost (x :: u32)) = x"
  by (simp add: NetworkToHost_def HostToNetwork_def)

lemma NetworkToHost_inject16 [simp]: "NetworkToHost (x :: u16) = NetworkToHost y \<longleftrightarrow> x = y"
  by (metis HostToNetwork_NetworkToHost16)

lemma NetworkToHost_inject32 [simp]: "NetworkToHost (x :: u32) = NetworkToHost y \<longleftrightarrow> x = y"
  by (metis HostToNetwork_NetworkToHost32)

text \<open>The memory image of a network-order value is big-endian: most significant byte first.\<close>

lemma mem16_HostToNetwork: "mem16 (HostToNetwork w) = [ucast (drop_bit 8 w), ucast w]"
proof -
  have "ucast (SwapEndian w) = (ucast (drop_bit 8 w) :: byte)"
    by (rule bit_word_eqI) (auto simp: bit_SwapEndian16 bit_simps add.commute)
  moreover have "ucast (drop_bit 8 (SwapEndian w)) = (ucast w :: byte)"
    by (rule bit_word_eqI) (auto simp: bit_SwapEndian16 bit_simps)
  ultimately show ?thesis by (simp add: mem16_def HostToNetwork_def)
qed

lemma mem32_HostToNetwork:
  "mem32 (HostToNetwork w) = [ucast (drop_bit 24 w), ucast (drop_bit 16 w), ucast (drop_bit 8 w), ucast w]"
proof -
  have "ucast (SwapEndian w) = (ucast (drop_bit 24 w) :: byte)"
    by (rule bit_word_eqI) (auto simp: bit_SwapEndian32 bit_unsigned_iff bit_drop_bit_eq add.commute)
  moreover have "ucast (drop_bit 8 (SwapEndian w)) = (ucast (drop_bit 16 w) :: byte)"
    by (rule bit_word_eqI) (auto simp: bit_SwapEndian32 bit_unsigned_iff bit_drop_bit_eq add.commute)
  moreover have "ucast (drop_bit 16 (SwapEndian w)) = (ucast (drop_bit 8 w) :: byte)"
    by (rule bit_word_eqI) (auto simp: bit_SwapEndian32 bit_unsigned_iff bit_drop_bit_eq add.commute)
  moreover have "ucast (drop_bit 24 (SwapEndian w)) = (ucast w :: byte)"
    by (rule bit_word_eqI) (auto simp: bit_SwapEndian32 bit_unsigned_iff bit_drop_bit_eq add.commute)
  ultimately show ?thesis by (simp add: mem32_def HostToNetwork_def)
qed

lemma NetworkToHost_load16:
  "NetworkToHost (load16 bs i) = push_bit 8 (ucast (bs ! i)) OR ucast (bs ! (i + 1))"
  by (rule bit_word_eqI)
    (auto simp: NetworkToHost_def HostToNetwork_def bit_SwapEndian16 load16_def bit_simps
      add.commute dest: bit_imp_le_length)

lemma NetworkToHost_load32:
  "NetworkToHost (load32 bs i) =
   push_bit 24 (ucast (bs ! i)) OR push_bit 16 (ucast (bs ! (i + 1)))
   OR push_bit 8 (ucast (bs ! (i + 2))) OR ucast (bs ! (i + 3))"
proof (rule bit_word_eqI)
  fix n
  assume "n < LENGTH(32)"
  then have "n < 32" by simp
  then show "bit (NetworkToHost (load32 bs i)) n = bit (push_bit 24 (ucast (bs ! i)) OR push_bit 16 (ucast (bs ! (i + 1)))
    OR push_bit 8 (ucast (bs ! (i + 2))) OR ucast (bs ! (i + 3)) :: u32) n"
    by (rule bit_quarters32)
      (simp_all add: NetworkToHost_def HostToNetwork_def bit_SwapEndian32 load32_def bit_or_iff
        bit_push_bit_iff bit_unsigned_iff bit_byte_ge add.commute)
qed

section \<open>Lemmas: bit reversal\<close>

lemma bit_ReverseBits_loop:
  fixes x r :: "'a::len word"
  shows "bit (ReverseBits_loop n x r) k \<longleftrightarrow>
    k < LENGTH('a) \<and> (if k < n then bit x (n - 1 - k) else bit r (k - n))"
proof (induction n x r arbitrary: k rule: ReverseBits_loop.induct)
  case (1 x r)
  then show ?case by (auto dest: bit_imp_le_length)
next
  case (2 n x r)
  consider "k < n" | "k = n" | "n < k" by linarith
  then show ?case
  proof cases
    case 1
    then have "1 + (n - 1 - k) = Suc n - 1 - k" by simp
    with 1 show ?thesis unfolding ReverseBits_loop.simps "2.IH" bit_drop_bit_eq by simp
  next
    case 2
    then show ?thesis unfolding ReverseBits_loop.simps "2.IH" bit_or_iff bit_and_iff bit_push_bit_iff
      by (simp add: bit_1_iff)
  next
    case 3
    then have "k - n - 1 = k - Suc n" by simp
    with 3 show ?thesis unfolding ReverseBits_loop.simps "2.IH" bit_or_iff bit_and_iff bit_push_bit_iff
      by (auto simp: bit_1_iff)
  qed
qed

lemma ReverseBits_bit: "bit (ReverseBits (x :: 'a::len word)) k \<longleftrightarrow> k < LENGTH('a) \<and> bit x (LENGTH('a) - 1 - k)"
  by (auto simp: ReverseBits_def bit_ReverseBits_loop)

lemma ReverseBits_twice [simp]: "ReverseBits (ReverseBits (x :: 'a::len word)) = x"
  by (rule bit_word_eqI) (auto simp: ReverseBits_bit)

section \<open>Lemmas: addresses\<close>

lemma Ipv4ToHex_ok:
  assumes "Ipv4ToHex inet_pton4 s out = (0, out')" and "\<And>t a. inet_pton4 t = Some a \<Longrightarrow> length a = IPV4_BINARY_SIZE"
  shows "length out' = length out \<and> inet_pton4 (c_str s) = Some (take IPV4_BINARY_SIZE out')"
  using assms by (auto simp: Ipv4ToHex_def overwrite_def split: if_splits option.splits)

lemma Ipv6ToHex_ok:
  assumes "Ipv6ToHex inet_pton6 s out = (0, out')" and "\<And>t a. inet_pton6 t = Some a \<Longrightarrow> length a = IPV6_BINARY_SIZE"
  shows "length out' = length out \<and> inet_pton6 (c_str s) = Some (take IPV6_BINARY_SIZE out')"
  using assms by (auto simp: Ipv6ToHex_def overwrite_def split: if_splits option.splits)

end
