(* ===== verification/Dns_Header.thy ===== *)
theory Dns_Header
  imports Chukei_Utils "HOL-Library.Product_Lexorder"
begin

unbundle bit_operations_syntax

text \<open>
  \<^verbatim>\<open>class DnsHeader\<close> (\<^verbatim>\<open>include/dns_packet_header.h\<close>, \<^verbatim>\<open>src/dns_packet_header.cc\<close>): the twelve-byte
  message header. The record holds the six 16-bit members in network order, as the object does,
  so that the raw accessors, the comparison operators and the copies to and from the wire are the
  source's. \<open>header_view\<close> is the abstract header of RFC 1035: one component per protocol field, in
  host order. The setters refine updates of single components of it.
\<close>

section \<open>State\<close>

record DnsHeader =
  m_Id :: u16
  m_Flags :: u16
  m_Qdcount :: u16
  m_Ancount :: u16
  m_Nscount :: u16
  m_Arcount :: u16

definition DnsHeader_HeaderSize :: nat where
  "DnsHeader_HeaderSize = 12"

definition DnsHeader_default :: DnsHeader where
  "DnsHeader_default =
     \<lparr>m_Id = 0, m_Flags = 0, m_Qdcount = 0, m_Ancount = 0, m_Nscount = 0, m_Arcount = 0\<rparr>"

section \<open>Field getters\<close>

definition DnsHeader_Id :: "DnsHeader \<Rightarrow> bool \<Rightarrow> u16" where
  "DnsHeader_Id h p_Raw = (if p_Raw then m_Id h else NetworkToHost (m_Id h))"

definition DnsHeader_Flags :: "DnsHeader \<Rightarrow> bool \<Rightarrow> u16" where
  "DnsHeader_Flags h p_Raw = (if p_Raw then m_Flags h else NetworkToHost (m_Flags h))"

definition DnsHeader_Qdcount :: "DnsHeader \<Rightarrow> bool \<Rightarrow> u16" where
  "DnsHeader_Qdcount h p_Raw = (if p_Raw then m_Qdcount h else NetworkToHost (m_Qdcount h))"

definition DnsHeader_Ancount :: "DnsHeader \<Rightarrow> bool \<Rightarrow> u16" where
  "DnsHeader_Ancount h p_Raw = (if p_Raw then m_Ancount h else NetworkToHost (m_Ancount h))"

definition DnsHeader_Nscount :: "DnsHeader \<Rightarrow> bool \<Rightarrow> u16" where
  "DnsHeader_Nscount h p_Raw = (if p_Raw then m_Nscount h else NetworkToHost (m_Nscount h))"

definition DnsHeader_Arcount :: "DnsHeader \<Rightarrow> bool \<Rightarrow> u16" where
  "DnsHeader_Arcount h p_Raw = (if p_Raw then m_Arcount h else NetworkToHost (m_Arcount h))"

definition DnsHeader_Qr :: "DnsHeader \<Rightarrow> bool \<Rightarrow> bool" where
  "DnsHeader_Qr h p_Raw \<longleftrightarrow> drop_bit 15 (DnsHeader_Flags h p_Raw) AND 0x1 \<noteq> 0"

definition DnsHeader_Opcode :: "DnsHeader \<Rightarrow> bool \<Rightarrow> u8" where
  "DnsHeader_Opcode h p_Raw = ucast (drop_bit 11 (DnsHeader_Flags h p_Raw) AND 0xF)"

definition DnsHeader_Aa :: "DnsHeader \<Rightarrow> bool \<Rightarrow> bool" where
  "DnsHeader_Aa h p_Raw \<longleftrightarrow> drop_bit 10 (DnsHeader_Flags h p_Raw) AND 0x1 \<noteq> 0"

definition DnsHeader_Tc :: "DnsHeader \<Rightarrow> bool \<Rightarrow> bool" where
  "DnsHeader_Tc h p_Raw \<longleftrightarrow> drop_bit 9 (DnsHeader_Flags h p_Raw) AND 0x1 \<noteq> 0"

definition DnsHeader_Rd :: "DnsHeader \<Rightarrow> bool \<Rightarrow> bool" where
  "DnsHeader_Rd h p_Raw \<longleftrightarrow> drop_bit 8 (DnsHeader_Flags h p_Raw) AND 0x1 \<noteq> 0"

definition DnsHeader_Ra :: "DnsHeader \<Rightarrow> bool \<Rightarrow> bool" where
  "DnsHeader_Ra h p_Raw \<longleftrightarrow> drop_bit 7 (DnsHeader_Flags h p_Raw) AND 0x1 \<noteq> 0"

definition DnsHeader_Z :: "DnsHeader \<Rightarrow> bool \<Rightarrow> bool" where
  "DnsHeader_Z h p_Raw \<longleftrightarrow> drop_bit 6 (DnsHeader_Flags h p_Raw) AND 0x1 \<noteq> 0"

definition DnsHeader_Ad :: "DnsHeader \<Rightarrow> bool \<Rightarrow> bool" where
  "DnsHeader_Ad h p_Raw \<longleftrightarrow> drop_bit 5 (DnsHeader_Flags h p_Raw) AND 0x1 \<noteq> 0"

definition DnsHeader_Cd :: "DnsHeader \<Rightarrow> bool \<Rightarrow> bool" where
  "DnsHeader_Cd h p_Raw \<longleftrightarrow> drop_bit 4 (DnsHeader_Flags h p_Raw) AND 0x1 \<noteq> 0"

definition DnsHeader_Rcode :: "DnsHeader \<Rightarrow> bool \<Rightarrow> u8" where
  "DnsHeader_Rcode h p_Raw = ucast (DnsHeader_Flags h p_Raw AND 0xF)"

section \<open>Field setters\<close>

definition DnsHeader_SetId :: "u16 \<Rightarrow> bool \<Rightarrow> DnsHeader \<Rightarrow> DnsHeader" where
  "DnsHeader_SetId p_Value p_Raw h = h\<lparr>m_Id := if p_Raw then p_Value else HostToNetwork p_Value\<rparr>"

definition DnsHeader_SetFlags :: "u16 \<Rightarrow> bool \<Rightarrow> DnsHeader \<Rightarrow> DnsHeader" where
  "DnsHeader_SetFlags p_Value p_Raw h = h\<lparr>m_Flags := if p_Raw then p_Value else HostToNetwork p_Value\<rparr>"

definition DnsHeader_SetQdcount :: "u16 \<Rightarrow> bool \<Rightarrow> DnsHeader \<Rightarrow> DnsHeader" where
  "DnsHeader_SetQdcount p_Value p_Raw h = h\<lparr>m_Qdcount := if p_Raw then p_Value else HostToNetwork p_Value\<rparr>"

definition DnsHeader_SetAncount :: "u16 \<Rightarrow> bool \<Rightarrow> DnsHeader \<Rightarrow> DnsHeader" where
  "DnsHeader_SetAncount p_Value p_Raw h = h\<lparr>m_Ancount := if p_Raw then p_Value else HostToNetwork p_Value\<rparr>"

definition DnsHeader_SetNscount :: "u16 \<Rightarrow> bool \<Rightarrow> DnsHeader \<Rightarrow> DnsHeader" where
  "DnsHeader_SetNscount p_Value p_Raw h = h\<lparr>m_Nscount := if p_Raw then p_Value else HostToNetwork p_Value\<rparr>"

definition DnsHeader_SetArcount :: "u16 \<Rightarrow> bool \<Rightarrow> DnsHeader \<Rightarrow> DnsHeader" where
  "DnsHeader_SetArcount p_Value p_Raw h = h\<lparr>m_Arcount := if p_Raw then p_Value else HostToNetwork p_Value\<rparr>"

definition DnsHeader_SetFlagBit :: "u8 \<Rightarrow> bool \<Rightarrow> bool \<Rightarrow> DnsHeader \<Rightarrow> DnsHeader" where
  "DnsHeader_SetFlagBit p_Bit p_Value p_Raw h =
     (if p_Bit \<ge> 16 then h
      else if p_Raw then
        (if p_Value then h\<lparr>m_Flags := m_Flags h OR push_bit (unat p_Bit) 1\<rparr>
         else h\<lparr>m_Flags := m_Flags h AND NOT (push_bit (unat p_Bit) 1)\<rparr>)
      else
        (let s_Flags = DnsHeader_Flags h False;
             s_Flags' = (if p_Value then s_Flags OR push_bit (unat p_Bit) 1
                         else s_Flags AND NOT (push_bit (unat p_Bit) 1))
         in DnsHeader_SetFlags s_Flags' False h))"

definition DnsHeader_SetFlagValue :: "u8 \<Rightarrow> u16 \<Rightarrow> u8 \<Rightarrow> bool \<Rightarrow> DnsHeader \<Rightarrow> DnsHeader" where
  "DnsHeader_SetFlagValue p_BitPos p_Mask p_Value p_Raw h =
     (if p_BitPos \<ge> 16 then h
      else
        (let s_MaskedValue = p_Value AND ucast p_Mask;
             s_Shifted = push_bit (unat p_BitPos) (ucast s_MaskedValue);
             s_Cleared = NOT (push_bit (unat p_BitPos) p_Mask)
         in if p_Raw then h\<lparr>m_Flags := (m_Flags h AND s_Cleared) OR s_Shifted\<rparr>
            else DnsHeader_SetFlags ((DnsHeader_Flags h False AND s_Cleared) OR s_Shifted) False h))"

definition DnsHeader_SetQr :: "bool \<Rightarrow> bool \<Rightarrow> DnsHeader \<Rightarrow> DnsHeader" where
  "DnsHeader_SetQr p_Value p_Raw = DnsHeader_SetFlagBit 15 p_Value p_Raw"

definition DnsHeader_SetOpcode :: "u8 \<Rightarrow> bool \<Rightarrow> DnsHeader \<Rightarrow> DnsHeader" where
  "DnsHeader_SetOpcode p_Value p_Raw = DnsHeader_SetFlagValue 11 0xF p_Value p_Raw"

definition DnsHeader_SetAa :: "bool \<Rightarrow> bool \<Rightarrow> DnsHeader \<Rightarrow> DnsHeader" where
  "DnsHeader_SetAa p_Value p_Raw = DnsHeader_SetFlagBit 10 p_Value p_Raw"

definition DnsHeader_SetTc :: "bool \<Rightarrow> bool \<Rightarrow> DnsHeader \<Rightarrow> DnsHeader" where
  "DnsHeader_SetTc p_Value p_Raw = DnsHeader_SetFlagBit 9 p_Value p_Raw"

definition DnsHeader_SetRd :: "bool \<Rightarrow> bool \<Rightarrow> DnsHeader \<Rightarrow> DnsHeader" where
  "DnsHeader_SetRd p_Value p_Raw = DnsHeader_SetFlagBit 8 p_Value p_Raw"

definition DnsHeader_SetRa :: "bool \<Rightarrow> bool \<Rightarrow> DnsHeader \<Rightarrow> DnsHeader" where
  "DnsHeader_SetRa p_Value p_Raw = DnsHeader_SetFlagBit 7 p_Value p_Raw"

definition DnsHeader_SetZ :: "bool \<Rightarrow> bool \<Rightarrow> DnsHeader \<Rightarrow> DnsHeader" where
  "DnsHeader_SetZ p_Value p_Raw = DnsHeader_SetFlagBit 6 p_Value p_Raw"

definition DnsHeader_SetAd :: "bool \<Rightarrow> bool \<Rightarrow> DnsHeader \<Rightarrow> DnsHeader" where
  "DnsHeader_SetAd p_Value p_Raw = DnsHeader_SetFlagBit 5 p_Value p_Raw"

definition DnsHeader_SetCd :: "bool \<Rightarrow> bool \<Rightarrow> DnsHeader \<Rightarrow> DnsHeader" where
  "DnsHeader_SetCd p_Value p_Raw = DnsHeader_SetFlagBit 4 p_Value p_Raw"

definition DnsHeader_SetRcode :: "u8 \<Rightarrow> bool \<Rightarrow> DnsHeader \<Rightarrow> DnsHeader" where
  "DnsHeader_SetRcode p_Value p_Raw = DnsHeader_SetFlagValue 0 0xF p_Value p_Raw"

section \<open>Whole-header operations\<close>

definition DnsHeader_swap :: "DnsHeader \<Rightarrow> DnsHeader \<Rightarrow> DnsHeader \<times> DnsHeader" where
  "DnsHeader_swap h p_Other =
     (h\<lparr>m_Id := m_Id p_Other, m_Flags := m_Flags p_Other, m_Qdcount := m_Qdcount p_Other,
        m_Ancount := m_Ancount p_Other, m_Nscount := m_Nscount p_Other, m_Arcount := m_Arcount p_Other\<rparr>,
      p_Other\<lparr>m_Id := m_Id h, m_Flags := m_Flags h, m_Qdcount := m_Qdcount h,
        m_Ancount := m_Ancount h, m_Nscount := m_Nscount h, m_Arcount := m_Arcount h\<rparr>)"

definition DnsHeader_empty :: "DnsHeader \<Rightarrow> bool" where
  "DnsHeader_empty h \<longleftrightarrow>
     m_Flags h = 0 \<and> m_Qdcount h = 0 \<and> m_Ancount h = 0 \<and> m_Nscount h = 0 \<and> m_Arcount h = 0"

definition DnsHeader_size :: nat where
  "DnsHeader_size = DnsHeader_HeaderSize"

definition DnsHeader_UpdateCounts :: "u16 \<Rightarrow> u16 \<Rightarrow> u16 \<Rightarrow> u16 \<Rightarrow> DnsHeader \<Rightarrow> DnsHeader" where
  "DnsHeader_UpdateCounts p_QuestionCount p_AnswerCount p_AuthorityCount p_AdditionalCount h =
     DnsHeader_SetArcount p_AdditionalCount False
       (DnsHeader_SetNscount p_AuthorityCount False
         (DnsHeader_SetAncount p_AnswerCount False
           (DnsHeader_SetQdcount p_QuestionCount False h)))"

definition DnsHeader_CountsMatch :: "DnsHeader \<Rightarrow> u16 \<Rightarrow> u16 \<Rightarrow> u16 \<Rightarrow> u16 \<Rightarrow> bool" where
  "DnsHeader_CountsMatch h p_ActualQuestions p_ActualAnswers p_ActualAuthority p_ActualAdditional \<longleftrightarrow>
     DnsHeader_Qdcount h False = p_ActualQuestions \<and> DnsHeader_Ancount h False = p_ActualAnswers \<and>
     DnsHeader_Nscount h False = p_ActualAuthority \<and> DnsHeader_Arcount h False = p_ActualAdditional"

definition DnsHeader_TotalRecords :: "DnsHeader \<Rightarrow> u32" where
  "DnsHeader_TotalRecords h =
     ucast (DnsHeader_Qdcount h False) + ucast (DnsHeader_Ancount h False)
     + ucast (DnsHeader_Nscount h False) + ucast (DnsHeader_Arcount h False)"

definition DnsHeader_IncrementCount :: "char \<Rightarrow> DnsHeader \<Rightarrow> u16 \<times> DnsHeader" where
  "DnsHeader_IncrementCount p_Section h =
     (if p_Section = CHR ''q'' \<or> p_Section = CHR ''Q'' then
        (if DnsHeader_Qdcount h False = 0xFFFF then (0, h)
         else let s_NewCount = DnsHeader_Qdcount h False + 1
              in (s_NewCount, DnsHeader_SetQdcount s_NewCount False h))
      else if p_Section = CHR ''a'' \<or> p_Section = CHR ''A'' then
        (if DnsHeader_Ancount h False = 0xFFFF then (0, h)
         else let s_NewCount = DnsHeader_Ancount h False + 1
              in (s_NewCount, DnsHeader_SetAncount s_NewCount False h))
      else if p_Section = CHR ''n'' \<or> p_Section = CHR ''N'' then
        (if DnsHeader_Nscount h False = 0xFFFF then (0, h)
         else let s_NewCount = DnsHeader_Nscount h False + 1
              in (s_NewCount, DnsHeader_SetNscount s_NewCount False h))
      else if p_Section = CHR ''r'' \<or> p_Section = CHR ''R'' then
        (if DnsHeader_Arcount h False = 0xFFFF then (0, h)
         else let s_NewCount = DnsHeader_Arcount h False + 1
              in (s_NewCount, DnsHeader_SetArcount s_NewCount False h))
      else (0, h))"

definition DnsHeader_MakeResponse :: "DnsHeader \<Rightarrow> DnsHeader \<Rightarrow> DnsHeader" where
  "DnsHeader_MakeResponse p_Query h =
     DnsHeader_SetRa True False
       (DnsHeader_SetRd (DnsHeader_Rd p_Query False) False
         (DnsHeader_SetOpcode (DnsHeader_Opcode p_Query False) False
           (DnsHeader_SetQr True False
             (DnsHeader_SetId (DnsHeader_Id p_Query False) False h))))"

definition DnsHeader_MakeErrorResponse :: "DnsHeader \<Rightarrow> u8 \<Rightarrow> DnsHeader \<Rightarrow> DnsHeader" where
  "DnsHeader_MakeErrorResponse p_QueryHeader p_ErrorCode h =
     DnsHeader_UpdateCounts 0 0 0 0
       (DnsHeader_SetRcode p_ErrorCode False (DnsHeader_MakeResponse p_QueryHeader h))"

definition DnsHeader_clear :: "DnsHeader \<Rightarrow> DnsHeader" where
  "DnsHeader_clear h =
     h\<lparr>m_Id := 0, m_Flags := 0, m_Qdcount := 0, m_Ancount := 0, m_Nscount := 0, m_Arcount := 0\<rparr>"

definition DnsHeader_MakeQueryHeader :: "u16 \<Rightarrow> u8 \<Rightarrow> bool \<Rightarrow> u16 \<Rightarrow> DnsHeader" where
  "DnsHeader_MakeQueryHeader p_Id p_Opcode p_RecursionDesired p_QuestionCount =
     DnsHeader_SetQdcount p_QuestionCount False
       (DnsHeader_SetRcode 0 False
         (DnsHeader_SetZ False False
           (DnsHeader_SetRd p_RecursionDesired False
             (DnsHeader_SetOpcode p_Opcode False
               (DnsHeader_SetQr False False
                 (DnsHeader_SetId p_Id False DnsHeader_default))))))"

definition DnsHeader_MakeResponseHeader :: "DnsHeader \<Rightarrow> u8 \<Rightarrow> bool \<Rightarrow> bool \<Rightarrow> DnsHeader" where
  "DnsHeader_MakeResponseHeader p_QueryHeader p_Rcode p_Authoritative p_RecursionAvailable =
     DnsHeader_SetRcode p_Rcode False
       (DnsHeader_SetZ False False
         (DnsHeader_SetRa p_RecursionAvailable False
           (DnsHeader_SetRd (DnsHeader_Rd p_QueryHeader False) False
             (DnsHeader_SetAa p_Authoritative False
               (DnsHeader_SetOpcode (DnsHeader_Opcode p_QueryHeader False) False
                 (DnsHeader_SetQr True False
                   (DnsHeader_SetId (DnsHeader_Id p_QueryHeader False) False DnsHeader_default)))))))"

definition DnsHeader_of_fields :: "u16 \<Rightarrow> u16 \<Rightarrow> u16 \<Rightarrow> u16 \<Rightarrow> u16 \<Rightarrow> u16 \<Rightarrow> DnsHeader" where
  "DnsHeader_of_fields p_Id p_Flags p_Qdcount p_Ancount p_Nscount p_Arcount =
     DnsHeader_SetArcount p_Arcount False
       (DnsHeader_SetNscount p_Nscount False
         (DnsHeader_SetAncount p_Ancount False
           (DnsHeader_SetQdcount p_Qdcount False
             (DnsHeader_SetFlags p_Flags False
               (DnsHeader_SetId p_Id False DnsHeader_default)))))"

section \<open>Predicates\<close>

definition DnsHeader_Valid :: "DnsHeader \<Rightarrow> bool" where
  "DnsHeader_Valid h \<longleftrightarrow> DnsHeader_Z h False = False"

definition DnsHeader_IsQuery :: "DnsHeader \<Rightarrow> bool" where
  "DnsHeader_IsQuery h \<longleftrightarrow> \<not> DnsHeader_Qr h False"

definition DnsHeader_IsSimpleQuery :: "DnsHeader \<Rightarrow> bool" where
  "DnsHeader_IsSimpleQuery h \<longleftrightarrow>
     DnsHeader_IsQuery h \<and> DnsHeader_Qdcount h False = 1 \<and> DnsHeader_Ancount h False = 0 \<and>
     DnsHeader_Nscount h False = 0 \<and> DnsHeader_Arcount h False = 0"

definition DnsHeader_IsResponse :: "DnsHeader \<Rightarrow> bool" where
  "DnsHeader_IsResponse h \<longleftrightarrow> DnsHeader_Qr h False"

definition DnsHeader_HasError :: "DnsHeader \<Rightarrow> bool" where
  "DnsHeader_HasError h \<longleftrightarrow> DnsHeader_Rcode h False \<noteq> 0"

definition DnsHeader_IsStandardQuery :: "DnsHeader \<Rightarrow> bool" where
  "DnsHeader_IsStandardQuery h \<longleftrightarrow> DnsHeader_Opcode h False = 0"

text \<open>\<open>hash64\<close> and \<open>hash32\<close> stand for the implementation-defined \<^verbatim>\<open>std::hash\<close>.\<close>

definition DnsHeader_Hash :: "(u64 \<Rightarrow> u64) \<Rightarrow> (u32 \<Rightarrow> u64) \<Rightarrow> DnsHeader \<Rightarrow> u64" where
  "DnsHeader_Hash hash64 hash32 h =
     hash64 (push_bit 48 (ucast (m_Id h)) OR push_bit 32 (ucast (m_Flags h))
             OR push_bit 16 (ucast (m_Qdcount h)) OR ucast (m_Ancount h))
     XOR hash32 (push_bit 16 (ucast (m_Nscount h)) OR ucast (m_Arcount h))"

section \<open>Wire format\<close>

text \<open>
  \<open>FromWire\<close> copies twelve bytes over the six members, so the object is changed even when the
  following validation fails. The boolean is the return value, the header the object afterwards.
\<close>

definition DnsHeader_copy_in :: "bytes \<Rightarrow> DnsHeader" where
  "DnsHeader_copy_in s_Source =
     \<lparr>m_Id = load16 s_Source 0, m_Flags = load16 s_Source 2, m_Qdcount = load16 s_Source 4,
      m_Ancount = load16 s_Source 6, m_Nscount = load16 s_Source 8, m_Arcount = load16 s_Source 10\<rparr>"

definition DnsHeader_FromWire :: "bytes option \<Rightarrow> nat \<Rightarrow> DnsHeader \<Rightarrow> bool \<times> DnsHeader" where
  "DnsHeader_FromWire p_Data p_Size p_OutHeader =
     (case p_Data of
        None \<Rightarrow> (False, p_OutHeader)
      | Some s_Source \<Rightarrow>
          if p_Size < DnsHeader_HeaderSize then (False, p_OutHeader)
          else (let p_OutHeader' = DnsHeader_copy_in s_Source
                in if \<not> DnsHeader_Valid p_OutHeader' then (False, p_OutHeader') else (True, p_OutHeader')))"

definition DnsHeader_image :: "DnsHeader \<Rightarrow> bytes" where
  "DnsHeader_image h =
     mem16 (m_Id h) @ mem16 (m_Flags h) @ mem16 (m_Qdcount h)
     @ mem16 (m_Ancount h) @ mem16 (m_Nscount h) @ mem16 (m_Arcount h)"

definition DnsHeader_ToWire :: "DnsHeader \<Rightarrow> bytes option \<Rightarrow> nat \<Rightarrow> nat \<times> bytes option" where
  "DnsHeader_ToWire h p_Data p_Size =
     (case p_Data of
        None \<Rightarrow> (0, p_Data)
      | Some s_Destination \<Rightarrow>
          if p_Size < DnsHeader_HeaderSize then (0, p_Data)
          else (DnsHeader_HeaderSize, Some (overwrite s_Destination 0 (DnsHeader_image h))))"

section \<open>Throwing constructors\<close>

definition DnsHeader_of_ptr :: "bytes option \<Rightarrow> cpp_error + DnsHeader" where
  "DnsHeader_of_ptr p_Data =
     (if p_Data = None then Inl (Invalid_argument ''DnsHeader: null data pointer'')
      else (case DnsHeader_FromWire p_Data DnsHeader_HeaderSize DnsHeader_default of
              (False, _) \<Rightarrow> Inl (Invalid_argument ''DnsHeader: invalid data format'')
            | (True, h) \<Rightarrow> Inr h))"

definition DnsHeader_of_sized_ptr :: "bytes option \<Rightarrow> nat \<Rightarrow> cpp_error + DnsHeader" where
  "DnsHeader_of_sized_ptr p_Data p_Size =
     (if p_Data = None then Inl (Invalid_argument ''DnsHeader: null data pointer'')
      else if p_Size < DnsHeader_HeaderSize
           then Inl (Invalid_argument ''DnsHeader: insufficient data size (need 12 bytes)'')
      else (case DnsHeader_FromWire p_Data p_Size DnsHeader_default of
              (False, _) \<Rightarrow> Inl (Invalid_argument ''DnsHeader: invalid data format'')
            | (True, h) \<Rightarrow> Inr h))"

definition DnsHeader_of_string :: "string \<Rightarrow> cpp_error + DnsHeader" where
  "DnsHeader_of_string p_Data =
     (if length p_Data < DnsHeader_HeaderSize
      then Inl (Invalid_argument ''DnsHeader: string too short (need 12 bytes)'')
      else (case DnsHeader_FromWire (Some (bytes_of_string p_Data)) (length p_Data) DnsHeader_default of
              (False, _) \<Rightarrow> Inl (Invalid_argument ''DnsHeader: invalid data format'')
            | (True, h) \<Rightarrow> Inr h))"

definition DnsHeader_of_vector :: "bytes \<Rightarrow> cpp_error + DnsHeader" where
  "DnsHeader_of_vector p_Data =
     (if length p_Data < DnsHeader_HeaderSize
      then Inl (Invalid_argument ''DnsHeader: vector too short (need 12 bytes)'')
      else (case DnsHeader_FromWire (Some p_Data) (length p_Data) DnsHeader_default of
              (False, _) \<Rightarrow> Inl (Invalid_argument ''DnsHeader: invalid data format'')
            | (True, h) \<Rightarrow> Inr h))"

section \<open>Comparison\<close>

definition DnsHeader_eq :: "DnsHeader \<Rightarrow> DnsHeader \<Rightarrow> bool" where
  "DnsHeader_eq h p_Other \<longleftrightarrow>
     m_Id h = m_Id p_Other \<and> m_Flags h = m_Flags p_Other \<and> m_Qdcount h = m_Qdcount p_Other \<and>
     m_Ancount h = m_Ancount p_Other \<and> m_Nscount h = m_Nscount p_Other \<and> m_Arcount h = m_Arcount p_Other"

definition DnsHeader_less :: "DnsHeader \<Rightarrow> DnsHeader \<Rightarrow> bool" where
  "DnsHeader_less h p_Other =
     (if m_Id h \<noteq> m_Id p_Other then m_Id h < m_Id p_Other
      else if m_Flags h \<noteq> m_Flags p_Other then m_Flags h < m_Flags p_Other
      else if m_Qdcount h \<noteq> m_Qdcount p_Other then m_Qdcount h < m_Qdcount p_Other
      else if m_Ancount h \<noteq> m_Ancount p_Other then m_Ancount h < m_Ancount p_Other
      else if m_Nscount h \<noteq> m_Nscount p_Other then m_Nscount h < m_Nscount p_Other
      else m_Arcount h < m_Arcount p_Other)"

section \<open>The abstract header\<close>

record header_view =
  v_id :: u16
  v_qr :: bool
  v_opcode :: u8
  v_aa :: bool
  v_tc :: bool
  v_rd :: bool
  v_ra :: bool
  v_z :: bool
  v_ad :: bool
  v_cd :: bool
  v_rcode :: u8
  v_qdcount :: u16
  v_ancount :: u16
  v_nscount :: u16
  v_arcount :: u16

definition header_view :: "DnsHeader \<Rightarrow> header_view" where
  "header_view h =
     \<lparr>v_id = DnsHeader_Id h False, v_qr = DnsHeader_Qr h False, v_opcode = DnsHeader_Opcode h False,
      v_aa = DnsHeader_Aa h False, v_tc = DnsHeader_Tc h False, v_rd = DnsHeader_Rd h False,
      v_ra = DnsHeader_Ra h False, v_z = DnsHeader_Z h False, v_ad = DnsHeader_Ad h False,
      v_cd = DnsHeader_Cd h False, v_rcode = DnsHeader_Rcode h False,
      v_qdcount = DnsHeader_Qdcount h False, v_ancount = DnsHeader_Ancount h False,
      v_nscount = DnsHeader_Nscount h False, v_arcount = DnsHeader_Arcount h False\<rparr>"

lemmas DnsHeader_flag_getters =
  DnsHeader_Qr_def DnsHeader_Opcode_def DnsHeader_Aa_def DnsHeader_Tc_def DnsHeader_Rd_def
  DnsHeader_Ra_def DnsHeader_Z_def DnsHeader_Ad_def DnsHeader_Cd_def DnsHeader_Rcode_def

lemmas DnsHeader_field_getters =
  DnsHeader_Id_def DnsHeader_Flags_def DnsHeader_Qdcount_def DnsHeader_Ancount_def
  DnsHeader_Nscount_def DnsHeader_Arcount_def

lemmas DnsHeader_field_setters =
  DnsHeader_SetId_def DnsHeader_SetFlags_def DnsHeader_SetQdcount_def DnsHeader_SetAncount_def
  DnsHeader_SetNscount_def DnsHeader_SetArcount_def

section \<open>Lemmas: flags as bits\<close>

lemma flag_bit: "drop_bit n w AND 1 \<noteq> 0 \<longleftrightarrow> bit w n" for w :: "'a::len word"
  by (simp add: bit_iff_odd_drop_bit and_one_eq odd_iff_mod_2_eq_one)

lemma flag_mask15: "w AND 0xF = take_bit 4 w" for w :: "'a::len word"
  by (simp add: take_bit_eq_mask mask_eq_exp_minus_1)

lemma bit_flag_value:
  "bit (ucast (take_bit 4 (drop_bit n (w :: u16))) :: u8) k \<longleftrightarrow> k < 4 \<and> bit w (n + k)"
  by (auto simp: bit_unsigned_iff bit_take_bit_iff bit_drop_bit_eq)

lemma flags_SetFlagBit:
  "p_Bit < 16 \<Longrightarrow>
   bit (DnsHeader_Flags (DnsHeader_SetFlagBit p_Bit v False h) False) n \<longleftrightarrow>
   (if n = unat p_Bit then v else bit (DnsHeader_Flags h False) n)"
  by (auto simp: DnsHeader_SetFlagBit_def DnsHeader_SetFlags_def DnsHeader_Flags_def Let_def
      bit_or_iff bit_and_iff bit_not_iff bit_push_bit_iff bit_1_iff bit_exp_iff not_le
      word_less_nat_alt word_le_nat_alt dest: bit_imp_le_length)

lemma flags_SetFlagValue:
  assumes "unat p_Pos + 4 \<le> 16" and "p_Pos < 16"
  shows "bit (DnsHeader_Flags (DnsHeader_SetFlagValue p_Pos 0xF v False h) False) n \<longleftrightarrow>
    (if unat p_Pos \<le> n \<and> n < unat p_Pos + 4 then bit v (n - unat p_Pos)
     else bit (DnsHeader_Flags h False) n)"
proof -
  have m: "push_bit k 0xF = push_bit k (mask 4 :: u16)" for k
    by (simp add: mask_eq_exp_minus_1)
  show ?thesis
    using assms
    by (auto simp: DnsHeader_SetFlagValue_def DnsHeader_SetFlags_def DnsHeader_Flags_def Let_def
        flag_mask15 m bit_or_iff bit_and_iff bit_not_iff bit_push_bit_iff bit_mask_iff bit_unsigned_iff
        bit_take_bit_iff not_le dest: bit_imp_le_length)
qed

lemma SetFlagBit_frame [simp]:
  "m_Id (DnsHeader_SetFlagBit b v r h) = m_Id h" "m_Qdcount (DnsHeader_SetFlagBit b v r h) = m_Qdcount h"
  "m_Ancount (DnsHeader_SetFlagBit b v r h) = m_Ancount h" "m_Nscount (DnsHeader_SetFlagBit b v r h) = m_Nscount h"
  "m_Arcount (DnsHeader_SetFlagBit b v r h) = m_Arcount h"
  by (simp_all add: DnsHeader_SetFlagBit_def DnsHeader_SetFlags_def Let_def)

lemma SetFlagValue_frame [simp]:
  "m_Id (DnsHeader_SetFlagValue b m v r h) = m_Id h" "m_Qdcount (DnsHeader_SetFlagValue b m v r h) = m_Qdcount h"
  "m_Ancount (DnsHeader_SetFlagValue b m v r h) = m_Ancount h" "m_Nscount (DnsHeader_SetFlagValue b m v r h) = m_Nscount h"
  "m_Arcount (DnsHeader_SetFlagValue b m v r h) = m_Arcount h"
  by (simp_all add: DnsHeader_SetFlagValue_def DnsHeader_SetFlags_def Let_def)

section \<open>Lemmas: the setters refine updates of the abstract header\<close>

lemma flags_view:
  "DnsHeader_Qr h False = bit (DnsHeader_Flags h False) 15"
  "DnsHeader_Opcode h False = ucast (take_bit 4 (drop_bit 11 (DnsHeader_Flags h False)))"
  "DnsHeader_Aa h False = bit (DnsHeader_Flags h False) 10"
  "DnsHeader_Tc h False = bit (DnsHeader_Flags h False) 9"
  "DnsHeader_Rd h False = bit (DnsHeader_Flags h False) 8"
  "DnsHeader_Ra h False = bit (DnsHeader_Flags h False) 7"
  "DnsHeader_Z h False = bit (DnsHeader_Flags h False) 6"
  "DnsHeader_Ad h False = bit (DnsHeader_Flags h False) 5"
  "DnsHeader_Cd h False = bit (DnsHeader_Flags h False) 4"
  "DnsHeader_Rcode h False = ucast (take_bit 4 (drop_bit 0 (DnsHeader_Flags h False)))"
  by (simp_all only: DnsHeader_flag_getters flag_bit flag_mask15 drop_bit_0 id_apply)

lemma counts_view [simp]:
  "DnsHeader_Id (DnsHeader_SetFlagBit b v r h) raw = DnsHeader_Id h raw"
  "DnsHeader_Qdcount (DnsHeader_SetFlagBit b v r h) raw = DnsHeader_Qdcount h raw"
  "DnsHeader_Ancount (DnsHeader_SetFlagBit b v r h) raw = DnsHeader_Ancount h raw"
  "DnsHeader_Nscount (DnsHeader_SetFlagBit b v r h) raw = DnsHeader_Nscount h raw"
  "DnsHeader_Arcount (DnsHeader_SetFlagBit b v r h) raw = DnsHeader_Arcount h raw"
  "DnsHeader_Id (DnsHeader_SetFlagValue b m x r h) raw = DnsHeader_Id h raw"
  "DnsHeader_Qdcount (DnsHeader_SetFlagValue b m x r h) raw = DnsHeader_Qdcount h raw"
  "DnsHeader_Ancount (DnsHeader_SetFlagValue b m x r h) raw = DnsHeader_Ancount h raw"
  "DnsHeader_Nscount (DnsHeader_SetFlagValue b m x r h) raw = DnsHeader_Nscount h raw"
  "DnsHeader_Arcount (DnsHeader_SetFlagValue b m x r h) raw = DnsHeader_Arcount h raw"
  by (simp_all add: DnsHeader_field_getters)

lemma flag_value_eqI:
  "(\<And>k. k < 4 \<Longrightarrow> bit w (n + k) = bit w' (n + k)) \<Longrightarrow>
   ucast (take_bit 4 (drop_bit n (w :: u16))) = (ucast (take_bit 4 (drop_bit n (w' :: u16))) :: u8)"
  by (rule bit_word_eqI) (auto simp: bit_flag_value)

lemma flag_value_setI:
  "(\<And>k. k < 4 \<Longrightarrow> bit w (n + k) = bit v k) \<Longrightarrow>
   ucast (take_bit 4 (drop_bit n (w :: u16))) = (v AND 0xF :: u8)"
  by (rule bit_word_eqI) (auto simp: bit_flag_value flag_mask15 bit_take_bit_iff)

lemma opcode_SetFlagBit:
  "b < 16 \<Longrightarrow> unat b < 11 \<or> 15 \<le> unat b \<Longrightarrow>
   DnsHeader_Opcode (DnsHeader_SetFlagBit b v False h) False = DnsHeader_Opcode h False"
  unfolding flags_view by (rule flag_value_eqI) (auto simp: flags_SetFlagBit)

lemma rcode_SetFlagBit:
  "b < 16 \<Longrightarrow> 4 \<le> unat b \<Longrightarrow>
   DnsHeader_Rcode (DnsHeader_SetFlagBit b v False h) False = DnsHeader_Rcode h False"
  unfolding flags_view by (rule flag_value_eqI) (auto simp: flags_SetFlagBit)

lemmas bool_flags_view = flags_view(1) flags_view(3-9)

lemma view_flag_setters [simp]:
  "header_view (DnsHeader_SetQr v False h) = (header_view h)\<lparr>v_qr := v\<rparr>"
  "header_view (DnsHeader_SetAa v False h) = (header_view h)\<lparr>v_aa := v\<rparr>"
  "header_view (DnsHeader_SetTc v False h) = (header_view h)\<lparr>v_tc := v\<rparr>"
  "header_view (DnsHeader_SetRd v False h) = (header_view h)\<lparr>v_rd := v\<rparr>"
  "header_view (DnsHeader_SetRa v False h) = (header_view h)\<lparr>v_ra := v\<rparr>"
  "header_view (DnsHeader_SetZ v False h) = (header_view h)\<lparr>v_z := v\<rparr>"
  "header_view (DnsHeader_SetAd v False h) = (header_view h)\<lparr>v_ad := v\<rparr>"
  "header_view (DnsHeader_SetCd v False h) = (header_view h)\<lparr>v_cd := v\<rparr>"
  by (simp_all add: header_view_def DnsHeader_SetQr_def DnsHeader_SetAa_def DnsHeader_SetTc_def
      DnsHeader_SetRd_def DnsHeader_SetRa_def DnsHeader_SetZ_def DnsHeader_SetAd_def DnsHeader_SetCd_def
      opcode_SetFlagBit rcode_SetFlagBit bool_flags_view flags_SetFlagBit)

lemma view_value_setters [simp]:
  "header_view (DnsHeader_SetOpcode v False h) = (header_view h)\<lparr>v_opcode := v AND 0xF\<rparr>"
  "header_view (DnsHeader_SetRcode v False h) = (header_view h)\<lparr>v_rcode := v AND 0xF\<rparr>"
proof -
  have "DnsHeader_Opcode (DnsHeader_SetFlagValue 11 0xF v False h) False = v AND 0xF"
    unfolding flags_view by (rule flag_value_setI) (simp add: flags_SetFlagValue)
  moreover have "DnsHeader_Rcode (DnsHeader_SetFlagValue 11 0xF v False h) False = DnsHeader_Rcode h False"
    unfolding flags_view by (rule flag_value_eqI) (simp add: flags_SetFlagValue)
  ultimately show "header_view (DnsHeader_SetOpcode v False h) = (header_view h)\<lparr>v_opcode := v AND 0xF\<rparr>"
    by (simp add: header_view_def DnsHeader_SetOpcode_def bool_flags_view flags_SetFlagValue)
  have "DnsHeader_Rcode (DnsHeader_SetFlagValue 0 0xF v False h) False = v AND 0xF"
    unfolding flags_view by (rule flag_value_setI) (simp add: flags_SetFlagValue)
  moreover have "DnsHeader_Opcode (DnsHeader_SetFlagValue 0 0xF v False h) False = DnsHeader_Opcode h False"
    unfolding flags_view by (rule flag_value_eqI) (simp add: flags_SetFlagValue)
  ultimately show "header_view (DnsHeader_SetRcode v False h) = (header_view h)\<lparr>v_rcode := v AND 0xF\<rparr>"
    by (simp add: header_view_def DnsHeader_SetRcode_def bool_flags_view flags_SetFlagValue)
qed

lemma view_field_setters [simp]:
  "header_view (DnsHeader_SetId w False h) = (header_view h)\<lparr>v_id := w\<rparr>"
  "header_view (DnsHeader_SetQdcount w False h) = (header_view h)\<lparr>v_qdcount := w\<rparr>"
  "header_view (DnsHeader_SetAncount w False h) = (header_view h)\<lparr>v_ancount := w\<rparr>"
  "header_view (DnsHeader_SetNscount w False h) = (header_view h)\<lparr>v_nscount := w\<rparr>"
  "header_view (DnsHeader_SetArcount w False h) = (header_view h)\<lparr>v_arcount := w\<rparr>"
  by (simp_all add: header_view_def DnsHeader_flag_getters DnsHeader_field_getters DnsHeader_field_setters)

lemma view_UpdateCounts [simp]:
  "header_view (DnsHeader_UpdateCounts q a n r h) =
   (header_view h)\<lparr>v_qdcount := q, v_ancount := a, v_nscount := n, v_arcount := r\<rparr>"
  by (simp add: DnsHeader_UpdateCounts_def)

lemma flags_determined:
  fixes w w' :: u16
  assumes "bit w 15 = bit w' 15" "bit w 10 = bit w' 10" "bit w 9 = bit w' 9" "bit w 8 = bit w' 8"
    "bit w 7 = bit w' 7" "bit w 6 = bit w' 6" "bit w 5 = bit w' 5" "bit w 4 = bit w' 4"
    "(ucast (take_bit 4 (drop_bit 11 w)) :: u8) = ucast (take_bit 4 (drop_bit 11 w'))"
    "(ucast (take_bit 4 (drop_bit 0 w)) :: u8) = ucast (take_bit 4 (drop_bit 0 w'))"
  shows "w = w'"
proof (rule bit_word_eqI)
  fix n
  assume "n < LENGTH(16)"
  then consider "n < 4" | "n \<in> {4,5,6,7,8,9,10,15}" | "11 \<le> n" "n < 15" by force
  then show "bit w n = bit w' n"
  proof cases
    case 1
    with assms(10) show ?thesis using bit_flag_value [of 0 w n] bit_flag_value [of 0 w' n] by simp
  next
    case 2
    with assms show ?thesis by auto
  next
    case 3
    then have "n - 11 < 4" by simp
    with 3 assms(9) show ?thesis
      using bit_flag_value [of 11 w "n - 11"] bit_flag_value [of 11 w' "n - 11"] by simp
  qed
qed

lemma header_view_inject: "header_view h = header_view h' \<longleftrightarrow> h = h'"
proof
  assume eq: "header_view h = header_view h'"
  then have "DnsHeader_Flags h False = DnsHeader_Flags h' False"
    by (intro flags_determined) (simp_all add: header_view_def flags_view)
  with eq show "h = h'"
    by (cases h; cases h') (simp add: header_view_def DnsHeader_field_getters)
qed simp

lemma view_default:
  "header_view DnsHeader_default =
   \<lparr>v_id = 0, v_qr = False, v_opcode = 0, v_aa = False, v_tc = False, v_rd = False, v_ra = False,
    v_z = False, v_ad = False, v_cd = False, v_rcode = 0, v_qdcount = 0, v_ancount = 0, v_nscount = 0,
    v_arcount = 0\<rparr>"
  by (simp add: header_view_def DnsHeader_default_def DnsHeader_flag_getters DnsHeader_field_getters
      NetworkToHost_def HostToNetwork_def SwapEndian16_eq)

section \<open>Lemmas: wire format\<close>

lemma length_header_image [simp]: "length (DnsHeader_image h) = 12"
  by (simp add: DnsHeader_image_def)

lemma copy_in_image: "DnsHeader_copy_in (DnsHeader_image h @ rest) = h"
  by (simp add: DnsHeader_copy_in_def DnsHeader_image_def load16_skip load16_hit)

lemma image_copy_in: "12 \<le> length bs \<Longrightarrow> DnsHeader_image (DnsHeader_copy_in bs) = take 12 bs"
proof -
  assume a: "12 \<le> length bs"
  have sub: "take (i + 2) bs = take i bs @ subrange bs i 2" for i
    by (simp only: subrange_def take_add)
  have "take 12 bs = subrange bs 0 2 @ subrange bs 2 2 @ subrange bs 4 2 @ subrange bs 6 2 @ subrange bs 8 2 @ subrange bs 10 2"
    using a sub [of 10] sub [of 8] sub [of 6] sub [of 4] sub [of 2]
    by (simp add: subrange_def [of bs 0 2])
  with a show ?thesis by (simp add: DnsHeader_image_def DnsHeader_copy_in_def mem16_load16)
qed

lemma copy_in_take: "12 \<le> n \<Longrightarrow> DnsHeader_copy_in (take n bs) = DnsHeader_copy_in bs"
  by (simp add: DnsHeader_copy_in_def load16_take)

lemma FromWire_image [wire_simps]:
  "12 \<le> n \<Longrightarrow> DnsHeader_FromWire (Some (DnsHeader_image h @ rest)) n h0 = (DnsHeader_Valid h, h)"
  by (simp add: DnsHeader_FromWire_def copy_in_image DnsHeader_HeaderSize_def Let_def)

section \<open>Lemmas: order\<close>

definition header_key :: "DnsHeader \<Rightarrow> u16 \<times> u16 \<times> u16 \<times> u16 \<times> u16 \<times> u16" where
  "header_key h = (m_Id h, m_Flags h, m_Qdcount h, m_Ancount h, m_Nscount h, m_Arcount h)"

lemma header_key_inject: "header_key h = header_key h' \<longleftrightarrow> h = h'"
  by (cases h; cases h') (simp add: header_key_def)

lemma DnsHeader_less_key: "DnsHeader_less h h' \<longleftrightarrow> header_key h < header_key h'"
  by (auto simp: DnsHeader_less_def header_key_def less_prod_simp)

lemma DnsHeader_eq_key: "DnsHeader_eq h h' \<longleftrightarrow> header_key h = header_key h'"
  by (auto simp: DnsHeader_eq_def header_key_def)

interpretation header_order: linorder "\<lambda>h h'. DnsHeader_less h h' \<or> DnsHeader_eq h h'" DnsHeader_less
proof unfold_locales
  fix x y
  show "(DnsHeader_less x y \<or> DnsHeader_eq x y) \<or> (DnsHeader_less y x \<or> DnsHeader_eq y x)"
    using less_linear [of "header_key x" "header_key y"] by (auto simp: DnsHeader_less_key DnsHeader_eq_key)
qed (auto simp: DnsHeader_less_key DnsHeader_eq_key header_key_inject)

section \<open>Properties\<close>

text \<open>C40: every host-order setter of \<^verbatim>\<open>DnsHeader\<close> refines the update of exactly one field of the
  RFC 1035 header: it sets its own field (four-bit fields are truncated to four bits) and leaves the
  other fourteen unchanged.\<close>

theorem header_setters_refine:
  "header_view (DnsHeader_SetId w False h) = (header_view h)\<lparr>v_id := w\<rparr> \<and>
   header_view (DnsHeader_SetQr b False h) = (header_view h)\<lparr>v_qr := b\<rparr> \<and>
   header_view (DnsHeader_SetOpcode x False h) = (header_view h)\<lparr>v_opcode := x AND 0xF\<rparr> \<and>
   header_view (DnsHeader_SetAa b False h) = (header_view h)\<lparr>v_aa := b\<rparr> \<and>
   header_view (DnsHeader_SetTc b False h) = (header_view h)\<lparr>v_tc := b\<rparr> \<and>
   header_view (DnsHeader_SetRd b False h) = (header_view h)\<lparr>v_rd := b\<rparr> \<and>
   header_view (DnsHeader_SetRa b False h) = (header_view h)\<lparr>v_ra := b\<rparr> \<and>
   header_view (DnsHeader_SetZ b False h) = (header_view h)\<lparr>v_z := b\<rparr> \<and>
   header_view (DnsHeader_SetAd b False h) = (header_view h)\<lparr>v_ad := b\<rparr> \<and>
   header_view (DnsHeader_SetCd b False h) = (header_view h)\<lparr>v_cd := b\<rparr> \<and>
   header_view (DnsHeader_SetRcode x False h) = (header_view h)\<lparr>v_rcode := x AND 0xF\<rparr> \<and>
   header_view (DnsHeader_SetQdcount w False h) = (header_view h)\<lparr>v_qdcount := w\<rparr> \<and>
   header_view (DnsHeader_SetAncount w False h) = (header_view h)\<lparr>v_ancount := w\<rparr> \<and>
   header_view (DnsHeader_SetNscount w False h) = (header_view h)\<lparr>v_nscount := w\<rparr> \<and>
   header_view (DnsHeader_SetArcount w False h) = (header_view h)\<lparr>v_arcount := w\<rparr>"
  by simp

text \<open>Writing a header to a buffer of at least twelve bytes changes only the first twelve, and
  reading them back gives the same header, accepted exactly when its reserved Z bit is clear; a header
  is determined by its fifteen protocol fields.\<close>

theorem header_wire_roundtrip:
  assumes "12 \<le> length buf"
  shows "\<exists>buf'. DnsHeader_ToWire h (Some buf) (length buf) = (12, Some buf') \<and>
     length buf' = length buf \<and> drop 12 buf' = drop 12 buf \<and>
     DnsHeader_FromWire (Some buf') (length buf') h0 = (\<not> v_z (header_view h), h) \<and>
     (\<forall>h'. header_view h' = header_view h \<longrightarrow> DnsHeader_ToWire h' (Some buf) (length buf) = (12, Some buf'))"
proof -
  let ?buf' = "DnsHeader_image h @ drop 12 buf"
  have "DnsHeader_ToWire h (Some buf) (length buf) = (12, Some ?buf')"
    using assms by (simp add: DnsHeader_ToWire_def DnsHeader_HeaderSize_def overwrite_def)
  moreover have "DnsHeader_FromWire (Some ?buf') (length ?buf') h0 = (\<not> v_z (header_view h), h)"
    by (subst FromWire_image) (simp_all add: DnsHeader_Valid_def header_view_def)
  ultimately show ?thesis
    using assms by (intro exI [of _ ?buf']) (auto simp: header_view_inject)
qed

theorem header_wire_roundtrip_witness:
  "\<exists>buf'. DnsHeader_ToWire (DnsHeader_MakeQueryHeader 7 0 True 1) (Some (replicate 12 0)) (length (replicate 12 (0 :: byte))) = (12, Some buf') \<and>
     length buf' = 12 \<and>
     fst (DnsHeader_FromWire (Some buf') (length buf') DnsHeader_default) = (\<not> v_z (header_view (DnsHeader_MakeQueryHeader 7 0 True 1)))"
  using header_wire_roundtrip [of "replicate 12 (0 :: byte)" "DnsHeader_MakeQueryHeader 7 0 True 1" DnsHeader_default]
  by auto

text \<open>The header built for an answer carries the query's identifier, opcode and RD flag, has QR set,
  the given RCODE, AA and RA, and every other field zero.\<close>

theorem MakeResponseHeader_view:
  "header_view (DnsHeader_MakeResponseHeader q rc aa ra) =
   \<lparr>v_id = v_id (header_view q), v_qr = True, v_opcode = v_opcode (header_view q), v_aa = aa, v_tc = False,
    v_rd = v_rd (header_view q), v_ra = ra, v_z = False, v_ad = False, v_cd = False, v_rcode = rc AND 0xF,
    v_qdcount = 0, v_ancount = 0, v_nscount = 0, v_arcount = 0\<rparr>"
proof -
  have "DnsHeader_Opcode q False AND 0xF = DnsHeader_Opcode q False"
    unfolding DnsHeader_Opcode_def flag_mask15
    by (rule bit_word_eqI) (auto simp: bit_take_bit_iff bit_unsigned_iff)
  then show ?thesis
    by (simp add: DnsHeader_MakeResponseHeader_def view_default) (simp add: header_view_def)
qed

text \<open>\<^verbatim>\<open>IncrementCount\<close> never wraps a counter: either it returns 0 and leaves the header alone, or the
  total number of records grows by exactly one, without overflow of the 32-bit total.\<close>

theorem IncrementCount_no_wrap:
  "let (n, h') = DnsHeader_IncrementCount c h in
   if n = 0 then h' = h
   else unat (DnsHeader_TotalRecords h') = unat (DnsHeader_TotalRecords h) + 1 \<and>
        header_view h' = (header_view h)\<lparr>v_qdcount := v_qdcount (header_view h'),
          v_ancount := v_ancount (header_view h'), v_nscount := v_nscount (header_view h'),
          v_arcount := v_arcount (header_view h')\<rparr>"
proof -
  have total: "unat (DnsHeader_TotalRecords h) =
    unat (DnsHeader_Qdcount h False) + unat (DnsHeader_Ancount h False)
    + unat (DnsHeader_Nscount h False) + unat (DnsHeader_Arcount h False)" for h
  proof -
    have "unat (DnsHeader_Qdcount h False) < 65536" "unat (DnsHeader_Ancount h False) < 65536"
      "unat (DnsHeader_Nscount h False) < 65536" "unat (DnsHeader_Arcount h False) < 65536"
      using unsigned_less [where ?'a = nat and ?'b = 16] by auto
    then show ?thesis
      by (simp add: DnsHeader_TotalRecords_def unat_word_ariths unsigned_ucast_eq take_bit_nat_eq_self)
  qed
  have inc: "unat (w + 1) = unat w + 1" if "w \<noteq> 0xFFFF" for w :: u16
  proof -
    have "unat w \<noteq> 65535" using that by (metis of_nat_numeral of_nat_unat ucast_id)
    moreover have "unat w < 65536" using unsigned_less [of w, where ?'a = nat] by simp
    ultimately show ?thesis by (simp add: unat_word_ariths)
  qed
  have total_view: "unat (DnsHeader_TotalRecords h) =
    unat (v_qdcount (header_view h)) + unat (v_ancount (header_view h))
    + unat (v_nscount (header_view h)) + unat (v_arcount (header_view h))" for h
    by (simp add: total header_view_def)
  have getters: "DnsHeader_Qdcount h False = v_qdcount (header_view h)"
    "DnsHeader_Ancount h False = v_ancount (header_view h)"
    "DnsHeader_Nscount h False = v_nscount (header_view h)"
    "DnsHeader_Arcount h False = v_arcount (header_view h)"
    by (simp_all add: header_view_def)
  have nonzero: "w + 1 \<noteq> 0" if "w \<noteq> 0xFFFF" for w :: u16
    using inc [OF that] by (metis add_is_0 one_neq_zero unsigned_0)
  show ?thesis
    by (auto simp: DnsHeader_IncrementCount_def Let_def getters total_view inc nonzero split: if_splits)
qed

end
