(* ===== verification/Dns_Question.thy ===== *)
theory Dns_Question
  imports Wire_Codec Dns_Header
begin

unbundle bit_operations_syntax

text \<open>
  \<^verbatim>\<open>class DnsQuestion\<close> (\<^verbatim>\<open>include/dns_packet_question.h\<close>, \<^verbatim>\<open>src/dns_packet_question.cc\<close>): a question is
  a vector of labels with a type and a class, the latter two kept in network order.

  The name parser is the part that faces the network. \<open>name_at\<close> is its specification, the name
  syntax of RFC 1035 section 4.1.4 as an inductive relation: a name at an offset is a root byte, a
  label followed by a name, or a compression pointer to a name. The loop of the source, which
  bounds the pointer hops and tracks the resume offset, decides that relation.
\<close>

section \<open>State and constants\<close>

record DnsQuestion =
  m_Qname :: "string list"
  m_Qtype :: u16
  m_Qclass :: u16

definition DnsQuestion_default :: DnsQuestion where
  "DnsQuestion_default = \<lparr>m_Qname = [], m_Qtype = 0, m_Qclass = 0\<rparr>"

definition DNS_MAX_POINTER_HOPS :: nat where
  "DNS_MAX_POINTER_HOPS = 16"

section \<open>Accessors\<close>

definition DnsQuestion_Qname :: "DnsQuestion \<Rightarrow> string list" where
  "DnsQuestion_Qname q = m_Qname q"

definition DnsQuestion_Qtype :: "DnsQuestion \<Rightarrow> bool \<Rightarrow> u16" where
  "DnsQuestion_Qtype q p_Raw = (if p_Raw then m_Qtype q else NetworkToHost (m_Qtype q))"

definition DnsQuestion_Qclass :: "DnsQuestion \<Rightarrow> bool \<Rightarrow> u16" where
  "DnsQuestion_Qclass q p_Raw = (if p_Raw then m_Qclass q else NetworkToHost (m_Qclass q))"

text \<open>The loop appends a dot before every label but the first.\<close>

fun QnameAsString_loop :: "nat \<Rightarrow> string list \<Rightarrow> string \<Rightarrow> string" where
  "QnameAsString_loop i [] s_Result = s_Result"
| "QnameAsString_loop i (l # ls) s_Result =
     QnameAsString_loop (Suc i) ls ((if i > 0 then s_Result @ ''.'' else s_Result) @ l)"

definition DnsQuestion_QnameAsString :: "DnsQuestion \<Rightarrow> string" where
  "DnsQuestion_QnameAsString q =
     (if m_Qname q = [] then '''' else QnameAsString_loop 0 (m_Qname q) '''')"

definition DnsQuestion_Fqdn :: "DnsQuestion \<Rightarrow> string" where
  "DnsQuestion_Fqdn q =
     (let s_Result = DnsQuestion_QnameAsString q in if s_Result \<noteq> [] then s_Result @ ''.'' else s_Result)"

section \<open>Labels\<close>

definition IsValidLabel :: "string \<Rightarrow> bool" where
  "IsValidLabel p_Label \<longleftrightarrow>
     (if p_Label = [] \<or> length p_Label > 63 then False
      else if hd p_Label = CHR ''-'' \<or> last p_Label = CHR ''-'' then False
      else list_all (\<lambda>c. isalnum c \<or> c = CHR ''-'' \<or> c = CHR ''_'') p_Label)"

definition DnsQuestion_SetQname :: "string list \<Rightarrow> DnsQuestion \<Rightarrow> DnsQuestion" where
  "DnsQuestion_SetQname p_Labels q = q\<lparr>m_Qname := filter IsValidLabel p_Labels\<rparr>"

text \<open>The labels that the \<^verbatim>\<open>find\<close>/\<^verbatim>\<open>substr\<close> loop of \<^verbatim>\<open>SetQnameFromString\<close> (and of \<^verbatim>\<open>DnsAnswer::SetNameFromString\<close>)
  collects.\<close>

definition labels_of_string :: "string \<Rightarrow> string list" where
  "labels_of_string p_DomainName =
     (if p_DomainName = [] then []
      else let s_Domain = (if last p_DomainName = CHR ''.'' then butlast p_DomainName else p_DomainName);
               (segs, rest) = split_on CHR ''.'' s_Domain;
               kept = filter IsValidLabel segs
           in if rest \<noteq> [] then (if IsValidLabel rest then kept @ [rest] else kept) else kept)"

definition DnsQuestion_SetQnameFromString :: "string \<Rightarrow> DnsQuestion \<Rightarrow> DnsQuestion" where
  "DnsQuestion_SetQnameFromString p_DomainName q = q\<lparr>m_Qname := labels_of_string p_DomainName\<rparr>"

definition DnsQuestion_SetQtype :: "u16 \<Rightarrow> bool \<Rightarrow> DnsQuestion \<Rightarrow> DnsQuestion" where
  "DnsQuestion_SetQtype p_Type p_Raw q = q\<lparr>m_Qtype := if p_Raw then p_Type else HostToNetwork p_Type\<rparr>"

definition DnsQuestion_SetQclass :: "u16 \<Rightarrow> bool \<Rightarrow> DnsQuestion \<Rightarrow> DnsQuestion" where
  "DnsQuestion_SetQclass p_Class p_Raw q = q\<lparr>m_Qclass := if p_Raw then p_Class else HostToNetwork p_Class\<rparr>"

definition DnsQuestion_AddLabel :: "string \<Rightarrow> DnsQuestion \<Rightarrow> bool \<times> DnsQuestion" where
  "DnsQuestion_AddLabel p_Label q =
     (if IsValidLabel p_Label then (True, q\<lparr>m_Qname := m_Qname q @ [p_Label]\<rparr>) else (False, q))"

definition DnsQuestion_PrependLabel :: "string \<Rightarrow> DnsQuestion \<Rightarrow> bool \<times> DnsQuestion" where
  "DnsQuestion_PrependLabel p_Label q =
     (if IsValidLabel p_Label then (True, q\<lparr>m_Qname := p_Label # m_Qname q\<rparr>) else (False, q))"

definition DnsQuestion_PopLabel :: "DnsQuestion \<Rightarrow> bool \<times> DnsQuestion" where
  "DnsQuestion_PopLabel q =
     (if m_Qname q \<noteq> [] then (True, q\<lparr>m_Qname := butlast (m_Qname q)\<rparr>) else (False, q))"

definition DnsQuestion_RemoveFirstLabel :: "DnsQuestion \<Rightarrow> bool \<times> DnsQuestion" where
  "DnsQuestion_RemoveFirstLabel q =
     (if m_Qname q \<noteq> [] then (True, q\<lparr>m_Qname := tl (m_Qname q)\<rparr>) else (False, q))"

section \<open>Container operations\<close>

definition DnsQuestion_swap :: "DnsQuestion \<Rightarrow> DnsQuestion \<Rightarrow> DnsQuestion \<times> DnsQuestion" where
  "DnsQuestion_swap q p_Other =
     (q\<lparr>m_Qname := m_Qname p_Other, m_Qtype := m_Qtype p_Other, m_Qclass := m_Qclass p_Other\<rparr>,
      p_Other\<lparr>m_Qname := m_Qname q, m_Qtype := m_Qtype q, m_Qclass := m_Qclass q\<rparr>)"

definition DnsQuestion_empty :: "DnsQuestion \<Rightarrow> bool" where
  "DnsQuestion_empty q \<longleftrightarrow> m_Qname q = []"

definition DnsQuestion_size :: "DnsQuestion \<Rightarrow> nat" where
  "DnsQuestion_size q = length (m_Qname q)"

definition DnsQuestion_clear :: "DnsQuestion \<Rightarrow> DnsQuestion" where
  "DnsQuestion_clear q = q\<lparr>m_Qname := [], m_Qtype := 0, m_Qclass := 0\<rparr>"

definition DnsQuestion_resize :: "nat \<Rightarrow> string \<Rightarrow> DnsQuestion \<Rightarrow> DnsQuestion" where
  "DnsQuestion_resize p_Size p_Value q =
     q\<lparr>m_Qname := take p_Size (m_Qname q) @ replicate (p_Size - length (m_Qname q)) p_Value\<rparr>"

definition DnsQuestion_at :: "DnsQuestion \<Rightarrow> nat \<Rightarrow> cpp_error + string" where
  "DnsQuestion_at q p_Index =
     (if p_Index < length (m_Qname q) then Inr (m_Qname q ! p_Index) else Inl (Out_of_range ''vector::at''))"

section \<open>Validity, hash and sizes\<close>

definition DnsQuestion_Valid :: "DnsQuestion \<Rightarrow> bool" where
  "DnsQuestion_Valid q \<longleftrightarrow>
     (if m_Qname q = [] then True
      else if list_all IsValidLabel (m_Qname q)
      then foldl (\<lambda>s_TotalLength l_Label. s_TotalLength + (length l_Label + 1)) 0 (m_Qname q) + 1 \<le> 255
      else False)"

text \<open>One step of the hash combination; \<open>hash_string\<close> and \<open>hash16\<close> stand for \<^verbatim>\<open>std::hash\<close>.\<close>

definition hash_combine :: "u64 \<Rightarrow> u64 \<Rightarrow> u64" where
  "hash_combine s_Result x = s_Result XOR (x + 0x9e3779b9 + push_bit 6 s_Result + drop_bit 2 s_Result)"

definition DnsQuestion_Hash :: "(string \<Rightarrow> u64) \<Rightarrow> (u16 \<Rightarrow> u64) \<Rightarrow> DnsQuestion \<Rightarrow> u64" where
  "DnsQuestion_Hash hash_string hash16 q =
     (let s_Result = foldl (\<lambda>s l. hash_combine s (hash_string l)) 0 (m_Qname q);
          s_Result = hash_combine s_Result (hash16 (m_Qtype q))
      in hash_combine s_Result (hash16 (m_Qclass q)))"

definition DnsQuestion_CalculateStringSize :: "DnsQuestion \<Rightarrow> nat" where
  "DnsQuestion_CalculateStringSize q =
     (let s_Size = foldl (\<lambda>s_Sum l_Label. s_Sum + length l_Label + 1) 0 (m_Qname q)
      in if s_Size > 0 then s_Size - 1 else 0)"

text \<open>The size of a name on the wire: labels over 63 bytes are not written.\<close>

definition labels_WireSize :: "string list \<Rightarrow> nat" where
  "labels_WireSize ls =
     foldl (\<lambda>s_Sum l_Label. if length l_Label \<le> 63 then s_Sum + 1 + length l_Label else s_Sum) 0 ls"

definition DnsQuestion_WireSize :: "DnsQuestion \<Rightarrow> nat" where
  "DnsQuestion_WireSize q = labels_WireSize (m_Qname q) + 1 + 4"

section \<open>Parsing\<close>

text \<open>
  The loop of \<^verbatim>\<open>ParseDomainName\<close>. Its state is \<^verbatim>\<open>s_PointerHops\<close>, \<^verbatim>\<open>s_ReadOffset\<close>, \<^verbatim>\<open>s_FollowedPointer\<close> and the
  two reference parameters \<^verbatim>\<open>p_Offset\<close> and \<^verbatim>\<open>p_Labels\<close>, which keep their last values on failure.
\<close>

function (sequential) ParseDomainName_loop ::
  "bytes \<Rightarrow> nat \<Rightarrow> nat \<Rightarrow> nat \<Rightarrow> bool \<Rightarrow> nat \<Rightarrow> string list \<Rightarrow> bool \<times> nat \<times> string list" where
  "ParseDomainName_loop p_Data p_Size s_PointerHops s_ReadOffset s_FollowedPointer p_Offset p_Labels =
     (if s_ReadOffset < p_Size then
        (let s_Length = p_Data ! s_ReadOffset in
         if s_Length = 0 then
           (True, if \<not> s_FollowedPointer then s_ReadOffset + 1 else p_Offset, p_Labels)
         else if s_Length AND 0xC0 = 0xC0 then
           (if s_ReadOffset + 1 \<ge> p_Size then (False, p_Offset, p_Labels)
            else if s_PointerHops + 1 > DNS_MAX_POINTER_HOPS then (False, p_Offset, p_Labels)
            else ParseDomainName_loop p_Data p_Size (s_PointerHops + 1)
                   (unat (push_bit 8 (ucast (s_Length AND 0x3F)) OR ucast (p_Data ! (s_ReadOffset + 1)) :: u32))
                   True (if \<not> s_FollowedPointer then s_ReadOffset + 2 else p_Offset) p_Labels)
         else if s_Length > 63 then (False, p_Offset, p_Labels)
         else if s_ReadOffset + 1 + unat s_Length > p_Size then (False, p_Offset, p_Labels)
         else ParseDomainName_loop p_Data p_Size s_PointerHops (s_ReadOffset + 1 + unat s_Length)
                s_FollowedPointer p_Offset
                (p_Labels @ [string_of_bytes (subrange p_Data (s_ReadOffset + 1) (unat s_Length))]))
      else (False, p_Offset, p_Labels))"
  by pat_completeness auto
termination
  by (relation "measures [\<lambda>(data, n, hops, off, _). Suc DNS_MAX_POINTER_HOPS - hops,
                          \<lambda>(data, n, hops, off, _). n - off]") auto

declare ParseDomainName_loop.simps [simp del]

definition ParseDomainName :: "bytes \<Rightarrow> nat \<Rightarrow> nat \<Rightarrow> string list \<Rightarrow> bool \<times> nat \<times> string list" where
  "ParseDomainName p_Data p_Size p_Offset p_Labels =
     ParseDomainName_loop p_Data p_Size 0 p_Offset False p_Offset p_Labels"

definition DnsQuestion_FromWire :: "DnsQuestion decoder" where
  "DnsQuestion_FromWire p_Data p_Size p_Offset p_OutQuestion =
     (case p_Data of
        None \<Rightarrow> (False, p_Offset, p_OutQuestion)
      | Some s_DataBytes \<Rightarrow>
          (let (ok, p_Offset', s_Labels) = ParseDomainName s_DataBytes p_Size p_Offset [] in
           if \<not> ok then (False, p_Offset', p_OutQuestion)
           else if p_Offset' + 4 > p_Size then (False, p_Offset', p_OutQuestion)
           else (True, p_Offset' + 4,
                 p_OutQuestion\<lparr>m_Qname := s_Labels, m_Qtype := load16 s_DataBytes p_Offset',
                               m_Qclass := load16 s_DataBytes (p_Offset' + 2)\<rparr>)))"

text \<open>The throwing constructors: with and without an offset to track.\<close>

definition DnsQuestion_ctor_data_offset ::
  "string \<Rightarrow> bytes option \<Rightarrow> nat \<Rightarrow> nat \<Rightarrow> nat \<times> (cpp_error + DnsQuestion)" where
  "DnsQuestion_ctor_data_offset what p_Data p_Size p_Offset =
     (let (ok, p_Offset', q) = DnsQuestion_FromWire p_Data p_Size p_Offset DnsQuestion_default
      in (p_Offset', if ok then Inr q else Inl (Invalid_argument what)))"

definition DnsQuestion_ctor_data :: "string \<Rightarrow> bytes option \<Rightarrow> nat \<Rightarrow> cpp_error + DnsQuestion" where
  "DnsQuestion_ctor_data what p_Data p_Size = snd (DnsQuestion_ctor_data_offset what p_Data p_Size 0)"

section \<open>Serialising\<close>

text \<open>The loop over the labels in \<^verbatim>\<open>ToWire\<close>; the state is \<^verbatim>\<open>s_Offset\<close> and the output buffer.\<close>

primrec ToWire_labels :: "string list \<Rightarrow> nat \<times> bytes \<Rightarrow> nat \<times> bytes" where
  "ToWire_labels [] st = st"
| "ToWire_labels (l_Label # ls) st =
     (let (s_Offset, s_Output) = st in
      if length l_Label > 63 then ToWire_labels ls (s_Offset, s_Output)
      else ToWire_labels ls
        (s_Offset + 1 + length l_Label,
         overwrite (overwrite s_Output s_Offset [of_nat (length l_Label)]) (s_Offset + 1)
           (bytes_of_string l_Label)))"

definition DnsQuestion_ToWire :: "DnsQuestion encoder" where
  "DnsQuestion_ToWire q p_Data p_Size =
     (case p_Data of
        None \<Rightarrow> (0, None)
      | Some s_Output \<Rightarrow>
          (if p_Size < DnsQuestion_WireSize q then (0, Some s_Output)
           else let (s_Offset, s_Output) = ToWire_labels (m_Qname q) (0, s_Output);
                    s_Output = overwrite s_Output s_Offset [0];
                    s_Offset = s_Offset + 1;
                    s_Output = overwrite s_Output s_Offset (mem16 (m_Qtype q));
                    s_Offset = s_Offset + 2;
                    s_Output = overwrite s_Output s_Offset (mem16 (m_Qclass q));
                    s_Offset = s_Offset + 2
                in (s_Offset, Some s_Output)))"

section \<open>Comparison\<close>

definition DnsQuestion_eq :: "DnsQuestion \<Rightarrow> DnsQuestion \<Rightarrow> bool" where
  "DnsQuestion_eq q p_Other \<longleftrightarrow>
     m_Qname q = m_Qname p_Other \<and> m_Qtype q = m_Qtype p_Other \<and> m_Qclass q = m_Qclass p_Other"

definition DnsQuestion_less :: "DnsQuestion \<Rightarrow> DnsQuestion \<Rightarrow> bool" where
  "DnsQuestion_less q p_Other \<longleftrightarrow>
     (if m_Qname q \<noteq> m_Qname p_Other then m_Qname q < m_Qname p_Other
      else if m_Qtype q \<noteq> m_Qtype p_Other
      then NetworkToHost (m_Qtype q) < NetworkToHost (m_Qtype p_Other)
      else NetworkToHost (m_Qclass q) < NetworkToHost (m_Qclass p_Other))"

section \<open>Reverse lookup names\<close>

definition SplitByColon :: "string \<Rightarrow> string list" where
  "SplitByColon l_Str =
     (if l_Str = [] then []
      else let (l_Parts, rest) = split_on CHR '':'' l_Str in l_Parts @ [rest])"

text \<open>\<^verbatim>\<open>find("::")\<close> with the two substrings around the first match.\<close>

primrec split_double_colon :: "string \<Rightarrow> (string \<times> string) option" where
  "split_double_colon [] = None"
| "split_double_colon (c # s) =
     (if c = CHR '':'' \<and> s \<noteq> [] \<and> hd s = CHR '':'' then Some ([], tl s)
      else map_option (\<lambda>(l, r). (c # l, r)) (split_double_colon s))"

definition ipv6_groups :: "string \<Rightarrow> string list option" where
  "ipv6_groups p_IpAddress =
     (let (s_Left, s_Right, s_HasDoubleColon) =
            (case split_double_colon p_IpAddress of
               Some (l, r) \<Rightarrow> (l, r, True) | None \<Rightarrow> (p_IpAddress, [], False));
          s_LeftParts = SplitByColon s_Left;
          s_RightParts = SplitByColon s_Right;
          s_ExistingGroups = length s_LeftParts + length s_RightParts
      in if s_HasDoubleColon \<and> s_ExistingGroups > 8 then None
         else let s_Groups = s_LeftParts @ (if s_HasDoubleColon then replicate (8 - s_ExistingGroups) ''0'' else [])
                               @ s_RightParts
              in if length s_Groups \<noteq> 8 then None else Some s_Groups)"

primrec ipv6_expand :: "string list \<Rightarrow> string \<Rightarrow> string option" where
  "ipv6_expand [] s_Expanded = Some s_Expanded"
| "ipv6_expand (l_Group # gs) s_Expanded =
     (if length l_Group > 4 then None
      else ipv6_expand gs (s_Expanded @ replicate (4 - length l_Group) CHR ''0'' @ map tolower l_Group))"

definition ptr_octets :: "string \<Rightarrow> string list" where
  "ptr_octets p_IpAddress =
     (let (s_Octets, rest) = split_on CHR ''.'' p_IpAddress
      in if rest \<noteq> [] then s_Octets @ [rest] else s_Octets)"

text \<open>The labels left in the vector, which is empty after the early returns.\<close>

definition ptr_labels :: "string \<Rightarrow> string list" where
  "ptr_labels p_IpAddress =
     (if p_IpAddress = [] then []
      else if CHR '':'' \<in> set p_IpAddress then
        (case ipv6_groups p_IpAddress of
           None \<Rightarrow> []
         | Some s_Groups \<Rightarrow>
             (case ipv6_expand s_Groups [] of
                None \<Rightarrow> []
              | Some s_Expanded \<Rightarrow> map (\<lambda>c. [c]) (rev s_Expanded) @ [''ip6'', ''arpa'']))
      else rev (ptr_octets p_IpAddress) @ [''in-addr'', ''arpa''])"

definition DnsQuestion_SetPTRFromIp :: "string \<Rightarrow> DnsQuestion \<Rightarrow> DnsQuestion" where
  "DnsQuestion_SetPTRFromIp p_IpAddress q = q\<lparr>m_Qname := ptr_labels p_IpAddress\<rparr>"

section \<open>Construction from a name\<close>

definition DnsQuestion_ctor_name :: "string \<Rightarrow> u16 \<Rightarrow> u16 \<Rightarrow> DnsQuestion" where
  "DnsQuestion_ctor_name p_DomainName p_Type p_Class =
     DnsQuestion_SetQclass p_Class False (DnsQuestion_SetQtype p_Type False
       (DnsQuestion_SetQnameFromString p_DomainName DnsQuestion_default))"

definition DnsQuestion_ctor_labels :: "string list \<Rightarrow> u16 \<Rightarrow> u16 \<Rightarrow> DnsQuestion" where
  "DnsQuestion_ctor_labels p_Labels p_Type p_Class =
     DnsQuestion_SetQclass p_Class False (DnsQuestion_SetQtype p_Type False
       (DnsQuestion_default\<lparr>m_Qname := p_Labels\<rparr>))"

definition DnsQuestion_MakeAQuery :: "string \<Rightarrow> DnsQuestion" where
  "DnsQuestion_MakeAQuery n = DnsQuestion_SetQclass 1 False (DnsQuestion_SetQtype 1 False
     (DnsQuestion_SetQnameFromString n DnsQuestion_default))"

definition DnsQuestion_MakeNsQuery :: "string \<Rightarrow> DnsQuestion" where
  "DnsQuestion_MakeNsQuery n = DnsQuestion_SetQclass 1 False (DnsQuestion_SetQtype 2 False
     (DnsQuestion_SetQnameFromString n DnsQuestion_default))"

definition DnsQuestion_MakeCnameQuery :: "string \<Rightarrow> DnsQuestion" where
  "DnsQuestion_MakeCnameQuery n = DnsQuestion_SetQclass 1 False (DnsQuestion_SetQtype 5 False
     (DnsQuestion_SetQnameFromString n DnsQuestion_default))"

definition DnsQuestion_MakeSoaQuery :: "string \<Rightarrow> DnsQuestion" where
  "DnsQuestion_MakeSoaQuery n = DnsQuestion_SetQclass 1 False (DnsQuestion_SetQtype 6 False
     (DnsQuestion_SetQnameFromString n DnsQuestion_default))"

definition DnsQuestion_MakePtrQuery :: "string \<Rightarrow> DnsQuestion" where
  "DnsQuestion_MakePtrQuery p_IpAddress = DnsQuestion_SetQclass 1 False (DnsQuestion_SetQtype 12 False
     (DnsQuestion_SetPTRFromIp p_IpAddress DnsQuestion_default))"

definition DnsQuestion_MakeMxQuery :: "string \<Rightarrow> DnsQuestion" where
  "DnsQuestion_MakeMxQuery n = DnsQuestion_SetQclass 1 False (DnsQuestion_SetQtype 15 False
     (DnsQuestion_SetQnameFromString n DnsQuestion_default))"

definition DnsQuestion_MakeTxtQuery :: "string \<Rightarrow> DnsQuestion" where
  "DnsQuestion_MakeTxtQuery n = DnsQuestion_SetQclass 1 False (DnsQuestion_SetQtype 16 False
     (DnsQuestion_SetQnameFromString n DnsQuestion_default))"

definition DnsQuestion_MakeAaaaQuery :: "string \<Rightarrow> DnsQuestion" where
  "DnsQuestion_MakeAaaaQuery n = DnsQuestion_SetQclass 1 False (DnsQuestion_SetQtype 28 False
     (DnsQuestion_SetQnameFromString n DnsQuestion_default))"

definition DnsQuestion_MakeSrvQuery :: "string \<Rightarrow> DnsQuestion" where
  "DnsQuestion_MakeSrvQuery n = DnsQuestion_SetQclass 1 False (DnsQuestion_SetQtype 33 False
     (DnsQuestion_SetQnameFromString n DnsQuestion_default))"

section \<open>Specification of names on the wire\<close>

text \<open>
  \<open>name_at data n i ls j k\<close>: in the first \<open>n\<close> bytes of \<open>data\<close> a name with labels \<open>ls\<close> starts at offset \<open>i\<close>,
  the text after it starts at \<open>j\<close>, and reading it follows \<open>k\<close> compression pointers.
\<close>

definition pointer_target :: "byte \<Rightarrow> byte \<Rightarrow> nat" where
  "pointer_target hi lo = unat (push_bit 8 (ucast (hi AND 0x3F)) OR ucast lo :: u32)"

inductive name_at :: "bytes \<Rightarrow> nat \<Rightarrow> nat \<Rightarrow> string list \<Rightarrow> nat \<Rightarrow> nat \<Rightarrow> bool" for data n where
  root: "\<lbrakk>i < n; data ! i = 0\<rbrakk> \<Longrightarrow> name_at data n i [] (i + 1) 0"
| label: "\<lbrakk>i < n; unat (data ! i) = len; 0 < len; len \<le> 63; i + 1 + len \<le> n;
           name_at data n (i + 1 + len) ls j k\<rbrakk>
          \<Longrightarrow> name_at data n i (string_of_bytes (subrange data (i + 1) len) # ls) j k"
| pointer: "\<lbrakk>i + 1 < n; data ! i AND 0xC0 = 0xC0;
             name_at data n (pointer_target (data ! i) (data ! (i + 1))) ls j k\<rbrakk>
          \<Longrightarrow> name_at data n i ls (i + 2) (Suc k)"

section \<open>Lemmas: the name parser decides the specification\<close>

lemma short_not_pointer: "unat b \<le> 63 \<Longrightarrow> b AND 0xC0 \<noteq> (0xC0 :: byte)"
proof
  assume "unat b \<le> 63" and "b AND 0xC0 = 0xC0"
  then have "unat (0xC0 :: byte) \<le> unat b"
    by (metis word_and_le2 word_le_nat_alt)
  with \<open>unat b \<le> 63\<close> show False by simp
qed

lemma label_length_cases:
  "\<not> (63 :: byte) < b \<longleftrightarrow> unat b \<le> 63"
  by (simp add: word_less_nat_alt linorder_not_less)

text \<open>One iteration of the loop, by the kind of the byte it reads.\<close>

lemma loop_end: "\<not> i < n \<Longrightarrow> ParseDomainName_loop data n h i f off acc = (False, off, acc)"
  by (subst ParseDomainName_loop.simps) simp

lemma loop_root:
  "i < n \<Longrightarrow> data ! i = 0 \<Longrightarrow>
   ParseDomainName_loop data n h i f off acc = (True, if f then off else i + 1, acc)"
  by (subst ParseDomainName_loop.simps) simp

lemma loop_pointer:
  "i < n \<Longrightarrow> data ! i AND 0xC0 = 0xC0 \<Longrightarrow>
   ParseDomainName_loop data n h i f off acc =
     (if i + 1 < n \<and> h + 1 \<le> DNS_MAX_POINTER_HOPS
      then ParseDomainName_loop data n (h + 1) (pointer_target (data ! i) (data ! (i + 1))) True
             (if f then off else i + 2) acc
      else (False, off, acc))"
  by (subst ParseDomainName_loop.simps) (auto simp: pointer_target_def Let_def)

lemma loop_label:
  "i < n \<Longrightarrow> data ! i \<noteq> 0 \<Longrightarrow> data ! i AND 0xC0 \<noteq> 0xC0 \<Longrightarrow>
   ParseDomainName_loop data n h i f off acc =
     (if unat (data ! i) \<le> 63 \<and> i + 1 + unat (data ! i) \<le> n
      then ParseDomainName_loop data n h (i + 1 + unat (data ! i)) f off
             (acc @ [string_of_bytes (subrange data (i + 1) (unat (data ! i)))])
      else (False, off, acc))"
  by (subst ParseDomainName_loop.simps) (simp add: label_length_cases [symmetric] Let_def)

lemma parse_sound:
  "ParseDomainName_loop data n h i f off acc = (True, off', ls) \<Longrightarrow> h \<le> DNS_MAX_POINTER_HOPS \<Longrightarrow>
   \<exists>ls' j k. name_at data n i ls' j k \<and> h + k \<le> DNS_MAX_POINTER_HOPS \<and> ls = acc @ ls'
     \<and> off' = (if f then off else j)"
proof (induction data n h i f off acc rule: ParseDomainName_loop.induct)
  case (1 data n h i f off acc)
  let ?b = "data ! i"
  from "1.prems"(1) have i: "i < n" by (cases "i < n") (simp_all add: loop_end)
  consider (zero) "?b = 0" | (ptr) "?b \<noteq> 0" "?b AND 0xC0 = 0xC0" | (lab) "?b \<noteq> 0" "?b AND 0xC0 \<noteq> 0xC0"
    by blast
  then show ?case
  proof cases
    case zero
    with "1.prems"(1) i have "off' = (if f then off else i + 1)" "ls = acc @ []"
      by (simp_all add: loop_root)
    moreover have "name_at data n i [] (i + 1) 0" using i zero by (rule name_at.root)
    ultimately show ?thesis using "1.prems"(2) by fastforce
  next
    case ptr
    from ptr(2) "1.prems"(1) i have b: "i + 1 < n" "h + 1 \<le> DNS_MAX_POINTER_HOPS"
      and rec: "ParseDomainName_loop data n (h + 1) (pointer_target ?b (data ! (i + 1))) True
            (if f then off else i + 2) acc = (True, off', ls)"
      by (simp_all add: loop_pointer split: if_splits)
    have "\<exists>ls' j k. name_at data n (pointer_target ?b (data ! (i + 1))) ls' j k \<and>
        h + 1 + k \<le> DNS_MAX_POINTER_HOPS \<and> ls = acc @ ls' \<and> off' = (if f then off else i + 2)"
      using "1.IH"(1) [OF i refl ptr] b rec by (cases f) (simp_all add: pointer_target_def)
    then obtain ls' j k where r: "name_at data n (pointer_target ?b (data ! (i + 1))) ls' j k"
      "h + 1 + k \<le> DNS_MAX_POINTER_HOPS" "ls = acc @ ls'" "off' = (if f then off else i + 2)" by blast
    have "name_at data n i ls' (i + 2) (Suc k)" using b(1) ptr(2) r(1) by (rule name_at.pointer)
    with r show ?thesis
      by (intro exI [of _ ls'] exI [of _ "i + 2"] exI [of _ "Suc k"]) simp
  next
    case lab
    let ?len = "unat ?b"
    from lab "1.prems"(1) i have b: "?len \<le> 63" "i + 1 + ?len \<le> n"
      and rec: "ParseDomainName_loop data n h (i + 1 + ?len) f off
            (acc @ [string_of_bytes (subrange data (i + 1) ?len)]) = (True, off', ls)"
      by (simp_all add: loop_label split: if_splits)
    from b(1) have "\<not> 63 < ?b" by (simp add: label_length_cases)
    then obtain ls' j k where r: "name_at data n (i + 1 + ?len) ls' j k" "h + k \<le> DNS_MAX_POINTER_HOPS"
      "ls = (acc @ [string_of_bytes (subrange data (i + 1) ?len)]) @ ls'" "off' = (if f then off else j)"
      using "1.IH"(2) [OF i refl lab(1) lab(2)] b rec "1.prems"(2) by auto
    have "0 < ?len" using lab(1) by (simp add: unat_gt_0)
    with i b r(1) have "name_at data n i (string_of_bytes (subrange data (i + 1) ?len) # ls') j k"
      by (intro name_at.label) simp_all
    with r show ?thesis by fastforce
  qed
qed

lemma parse_complete:
  "name_at data n i ls' j k \<Longrightarrow> h + k \<le> DNS_MAX_POINTER_HOPS \<Longrightarrow>
   ParseDomainName_loop data n h i f off acc = (True, if f then off else j, acc @ ls')"
proof (induction arbitrary: h f off acc rule: name_at.induct)
  case (root i)
  then show ?case by (simp add: loop_root)
next
  case (label i len ls j k)
  have "data ! i \<noteq> 0" using label.hyps by auto
  moreover have "data ! i AND 0xC0 \<noteq> 0xC0" using label.hyps by (intro short_not_pointer) simp
  ultimately show ?case
    using label.hyps label.IH [OF label.prems] by (simp add: loop_label)
next
  case (pointer i ls j k)
  then show ?case
    using pointer.IH [of "h + 1" True] by (simp add: loop_pointer)
qed

lemma ParseDomainName_iff:
  "ParseDomainName data n off acc = (True, off', ls) \<longleftrightarrow>
   (\<exists>ls' k. name_at data n off ls' off' k \<and> k \<le> DNS_MAX_POINTER_HOPS \<and> ls = acc @ ls')"
proof
  assume "ParseDomainName data n off acc = (True, off', ls)"
  from parse_sound [OF this [unfolded ParseDomainName_def]]
  show "\<exists>ls' k. name_at data n off ls' off' k \<and> k \<le> DNS_MAX_POINTER_HOPS \<and> ls = acc @ ls'" by auto
next
  assume "\<exists>ls' k. name_at data n off ls' off' k \<and> k \<le> DNS_MAX_POINTER_HOPS \<and> ls = acc @ ls'"
  then show "ParseDomainName data n off acc = (True, off', ls)"
    using parse_complete [of data n off _ off' _ 0 False off acc] by (auto simp: ParseDomainName_def)
qed

lemma name_at_bounds: "name_at data n i ls j k \<Longrightarrow> i + 1 \<le> j \<and> j \<le> n"
  by (induction rule: name_at.induct) auto

lemma ParseDomainName_bounds:
  "ParseDomainName data n off acc = (True, off', ls) \<Longrightarrow> off + 1 \<le> off' \<and> off' \<le> n"
  using name_at_bounds by (auto simp: ParseDomainName_iff)

lemma ParseDomainName_loop_local:
  "ParseDomainName_loop (take n data) n h i f off acc = ParseDomainName_loop data n h i f off acc"
proof (induction data n h i f off acc rule: ParseDomainName_loop.induct)
  case (1 data n h i f off acc)
  show ?case
  proof (cases "i < n")
    case True
    then show ?thesis
      using 1
      by (subst (1 2) ParseDomainName_loop.simps) (auto simp: Let_def subrange_take)
  next
    case False
    then show ?thesis by (subst (1 2) ParseDomainName_loop.simps) simp
  qed
qed

lemma ParseDomainName_local:
  "ParseDomainName (take n data) n off acc = ParseDomainName data n off acc"
  by (simp add: ParseDomainName_def ParseDomainName_loop_local)

section \<open>Lemmas: the wire image of a question\<close>

definition label_image :: "string \<Rightarrow> bytes" where
  "label_image l = of_nat (length l) # bytes_of_string l"

definition labels_image :: "string list \<Rightarrow> bytes" where
  "labels_image ls = concat (map label_image (filter (\<lambda>l. length l \<le> 63) ls)) @ [0]"

definition labels_wf :: "string list \<Rightarrow> bool" where
  "labels_wf ls \<longleftrightarrow> list_all (\<lambda>l. l \<noteq> [] \<and> length l \<le> 63) ls"

definition question_image :: "DnsQuestion \<Rightarrow> bytes" where
  "question_image q = labels_image (m_Qname q) @ mem16 (m_Qtype q) @ mem16 (m_Qclass q)"

lemma length_label_image [simp]: "length (label_image l) = length l + 1"
  by (simp add: label_image_def)

lemma labels_WireSize_foldl:
  "foldl (\<lambda>s_Sum l_Label. if length l_Label \<le> 63 then s_Sum + 1 + length l_Label else s_Sum) a ls
   = a + length (concat (map label_image (filter (\<lambda>l. length l \<le> 63) ls)))"
  by (induction ls arbitrary: a) simp_all

lemma length_labels_image: "length (labels_image ls) = labels_WireSize ls + 1"
  by (simp add: labels_image_def labels_WireSize_def labels_WireSize_foldl)

lemma length_question_image: "length (question_image q) = DnsQuestion_WireSize q"
  by (simp add: question_image_def length_labels_image DnsQuestion_WireSize_def)

lemma ToWire_labels_image:
  "off + length (concat (map label_image (filter (\<lambda>l. length l \<le> 63) ls))) \<le> length buf \<Longrightarrow>
   ToWire_labels ls (off, buf) =
     (off + length (concat (map label_image (filter (\<lambda>l. length l \<le> 63) ls))),
      overwrite buf off (concat (map label_image (filter (\<lambda>l. length l \<le> 63) ls))))"
proof (induction ls arbitrary: off buf)
  case (Cons l ls)
  show ?case
  proof (cases "length l \<le> 63")
    case True
    with Cons.prems have *: "overwrite (overwrite buf off [of_nat (length l)]) (off + 1) (bytes_of_string l)
        = overwrite buf off (label_image l)"
      by (subst overwrite_next) (simp_all add: label_image_def)
    with True Cons.prems Cons.IH [of "off + 1 + length l" "overwrite buf off (label_image l)"]
    show ?thesis
      using overwrite_append [of off "label_image l"] by simp
  qed (use Cons in simp)
qed simp

lemma question_ToWire_image:
  assumes "DnsQuestion_WireSize q \<le> n" and "n \<le> length buf"
  shows "DnsQuestion_ToWire q (Some buf) n =
    (DnsQuestion_WireSize q, Some (question_image q @ drop (DnsQuestion_WireSize q) buf))"
proof -
  define c where "c = concat (map label_image (filter (\<lambda>l. length l \<le> 63) (m_Qname q)))"
  have len: "length c + 5 = DnsQuestion_WireSize q"
    by (simp add: c_def DnsQuestion_WireSize_def labels_WireSize_def labels_WireSize_foldl)
  with assms have room: "length c + 5 \<le> length buf" by simp
  have "ToWire_labels (m_Qname q) (0, buf) = (length c, overwrite buf 0 c)"
    using ToWire_labels_image [of 0 "m_Qname q" buf] room by (simp add: c_def [symmetric])
  moreover have "overwrite (overwrite (overwrite (overwrite buf 0 c) (length c) [0])
      (length c + 1) (mem16 (m_Qtype q))) (length c + 1 + 2) (mem16 (m_Qclass q))
    = overwrite buf 0 (c @ [0] @ mem16 (m_Qtype q) @ mem16 (m_Qclass q))"
    using room by (simp add: overwrite_next)
  moreover have "overwrite buf 0 (c @ [0] @ mem16 (m_Qtype q) @ mem16 (m_Qclass q)) =
      question_image q @ drop (DnsQuestion_WireSize q) buf"
    by (simp add: overwrite_def question_image_def labels_image_def len [symmetric] c_def [symmetric])
  ultimately show ?thesis
    using assms len by (simp add: DnsQuestion_ToWire_def)
qed

text \<open>A name that is written can be read back at any position of a message.\<close>

lemma name_at_image:
  "labels_wf ls \<Longrightarrow> length pre + length (labels_image ls) \<le> n \<Longrightarrow>
   name_at (pre @ labels_image ls @ post) n (length pre) ls (length pre + length (labels_image ls)) 0"
proof (induction ls arbitrary: pre)
  case Nil
  then show ?case by (simp add: labels_image_def name_at.root [of "length pre", simplified])
next
  case (Cons l ls)
  let ?d = "pre @ labels_image (l # ls) @ post"
  from Cons.prems have l: "0 < length l" "length l \<le> 63" and wf: "labels_wf ls"
    by (simp_all add: labels_wf_def)
  have img: "labels_image (l # ls) = label_image l @ labels_image ls"
    using l by (simp add: labels_image_def)
  have "name_at ((pre @ label_image l) @ labels_image ls @ post) n (length (pre @ label_image l)) ls
      (length (pre @ label_image l) + length (labels_image ls)) 0"
    using Cons.prems wf img by (intro Cons.IH) simp_all
  then have rec: "name_at ?d n (length pre + 1 + length l) ls (length pre + length (labels_image (l # ls))) 0"
    by (simp add: img add.assoc)
  have "unat (?d ! length pre) = length l"
    using l by (simp add: img label_image_def nth_append unat_of_nat)
  moreover have "length pre + 1 + length l \<le> n" using Cons.prems img by simp
  ultimately have "name_at ?d n (length pre) (string_of_bytes (subrange ?d (length pre + 1) (length l)) # ls)
      (length pre + length (labels_image (l # ls))) 0"
    using l rec by (intro name_at.label) simp_all
  moreover have "subrange ?d (length pre + 1) (length l) = bytes_of_string l"
    using subrange_append_mid [of _ "pre @ [of_nat (length l)]" _ "bytes_of_string l" "labels_image ls @ post"]
    by (simp add: img label_image_def)
  ultimately show ?case by simp
qed

lemma ParseDomainName_image [wire_simps]:
  "labels_wf ls \<Longrightarrow> length pre + length (labels_image ls) \<le> n \<Longrightarrow>
   ParseDomainName (pre @ labels_image ls @ post) n (length pre) acc =
     (True, length pre + length (labels_image ls), acc @ ls)"
  using name_at_image [of ls pre n post] by (auto simp: ParseDomainName_iff)

lemma question_FromWire_image:
  assumes "labels_wf (m_Qname q)" and "length pre + length (question_image q) \<le> n"
  shows "DnsQuestion_FromWire (Some (pre @ question_image q @ post)) n (length pre) q0 =
    (True, length pre + length (question_image q), q)"
proof -
  let ?rest = "mem16 (m_Qtype q) @ mem16 (m_Qclass q) @ post"
  let ?d = "pre @ labels_image (m_Qname q) @ ?rest"
  have d: "pre @ question_image q @ post = ?d" by (simp add: question_image_def)
  have "ParseDomainName ?d n (length pre) [] = (True, length pre + length (labels_image (m_Qname q)), m_Qname q)"
    using assms by (subst ParseDomainName_image) (simp_all add: question_image_def)
  moreover have "load16 ?d (length pre + length (labels_image (m_Qname q))) = m_Qtype q"
    "load16 ?d (length pre + length (labels_image (m_Qname q)) + 2) = m_Qclass q"
    by (simp_all add: load16_skip load16_hit)
  ultimately show ?thesis
    using assms by (simp add: d DnsQuestion_FromWire_def question_image_def)
qed

lemma question_FromWire_local:
  "DnsQuestion_FromWire (Some (take n data)) n off q = DnsQuestion_FromWire (Some data) n off q"
  by (auto simp: DnsQuestion_FromWire_def ParseDomainName_local load16_take split: prod.splits)

lemma question_FromWire_bounds:
  "DnsQuestion_FromWire (Some data) n off q = (True, off', q') \<Longrightarrow> off + 5 \<le> off' \<and> off' \<le> n"
  using ParseDomainName_bounds by (fastforce simp: DnsQuestion_FromWire_def split: prod.splits if_splits)

interpretation question_codec:
  wire_codec DnsQuestion_FromWire DnsQuestion_ToWire question_image "\<lambda>q. labels_wf (m_Qname q)" 5
proof unfold_locales
  fix x :: DnsQuestion
  show "question_image x \<noteq> []" by (simp add: question_image_def labels_image_def)
qed (simp_all add: question_FromWire_image question_FromWire_local question_FromWire_bounds
      length_question_image question_ToWire_image)

section \<open>Lemmas: names as strings\<close>

lemma QnameAsString_loop_join:
  "0 < i \<Longrightarrow> QnameAsString_loop i ls acc = (if ls = [] then acc else acc @ CHR ''.'' # join_with CHR ''.'' ls)"
  by (induction ls arbitrary: i acc) (simp_all add: join_with_Cons)

lemma QnameAsString_join: "DnsQuestion_QnameAsString q = join_with CHR ''.'' (m_Qname q)"
  by (cases "m_Qname q") (simp_all add: DnsQuestion_QnameAsString_def QnameAsString_loop_join join_with_Cons)

lemma IsValidLabel_nonempty: "IsValidLabel l \<Longrightarrow> l \<noteq> []"
  by (auto simp: IsValidLabel_def)

lemma IsValidLabel_length: "IsValidLabel l \<Longrightarrow> length l \<le> 63"
  by (auto simp: IsValidLabel_def split: if_splits)

lemma IsValidLabel_no_dot: "IsValidLabel l \<Longrightarrow> CHR ''.'' \<notin> set l"
proof
  assume "IsValidLabel l" and "CHR ''.'' \<in> set l"
  then have "isalnum CHR ''.''" by (auto simp: IsValidLabel_def list_all_iff split: if_splits)
  then show False by (simp add: isalnum_def isdigit_def isupper_def islower_def)
qed

lemmas IsValidLabel_facts = IsValidLabel_nonempty IsValidLabel_length IsValidLabel_no_dot

lemma valid_labels_wf: "list_all IsValidLabel ls \<Longrightarrow> labels_wf ls"
  by (auto simp: labels_wf_def list_all_iff IsValidLabel_facts)

lemma Valid_labels: "DnsQuestion_Valid q \<Longrightarrow> list_all IsValidLabel (m_Qname q)"
  by (auto simp: DnsQuestion_Valid_def split: if_splits)

lemma labels_of_string_valid: "list_all IsValidLabel (labels_of_string s)"
  by (auto simp: labels_of_string_def list_all_iff Let_def split: prod.splits if_splits)

lemma labels_of_join_aux:
  assumes "ls \<noteq> []" and "list_all IsValidLabel ls"
  shows "(let (segs, rest) = split_on CHR ''.'' (join_with CHR ''.'' ls); kept = filter IsValidLabel segs
          in if rest \<noteq> [] then (if IsValidLabel rest then kept @ [rest] else kept) else kept) = ls"
proof -
  have "split_on CHR ''.'' (join_with CHR ''.'' ls) = (butlast ls, last ls)"
    using assms by (intro split_on_join) (auto simp: list_all_iff IsValidLabel_facts)
  moreover have "filter IsValidLabel (butlast ls) = butlast ls"
    using assms by (auto simp: list_all_iff filter_id_conv dest: in_set_butlastD)
  moreover have "IsValidLabel (last ls)" "last ls \<noteq> []"
    using assms by (auto simp: list_all_iff IsValidLabel_facts)
  ultimately show ?thesis using assms(1) by simp
qed

lemma last_join_no_dot:
  assumes "ls \<noteq> []" and "list_all IsValidLabel ls"
  shows "join_with CHR ''.'' ls \<noteq> [] \<and> last (join_with CHR ''.'' ls) \<noteq> CHR ''.''"
proof -
  have "last (join_with c ls) = last (last ls)" if "last ls \<noteq> []" for c
    using assms(1) that by (induction c ls rule: join_with.induct) (auto simp: join_with_eq_Nil)
  moreover have "last ls \<noteq> []" and "CHR ''.'' \<notin> set (last ls)"
    using assms by (auto simp: list_all_iff IsValidLabel_facts)
  moreover have "join_with CHR ''.'' ls \<noteq> []"
    using assms by (auto simp: join_with_eq_Nil IsValidLabel_def)
  ultimately show ?thesis by (metis last_in_set)
qed

lemma labels_of_join:
  assumes "list_all IsValidLabel ls"
  shows "labels_of_string (join_with CHR ''.'' ls) = ls"
    and "ls \<noteq> [] \<Longrightarrow> labels_of_string (join_with CHR ''.'' ls @ ''.'') = ls"
proof -
  show "labels_of_string (join_with CHR ''.'' ls) = ls"
    using assms last_join_no_dot [of ls] labels_of_join_aux [of ls]
    by (cases "ls = []") (simp_all add: labels_of_string_def Let_def)
  show "labels_of_string (join_with CHR ''.'' ls @ ''.'') = ls" if "ls \<noteq> []"
    using assms that labels_of_join_aux [of ls] by (simp add: labels_of_string_def Let_def)
qed

section \<open>Lemmas: order\<close>

definition question_key :: "DnsQuestion \<Rightarrow> string list \<times> u16 \<times> u16" where
  "question_key q = (m_Qname q, NetworkToHost (m_Qtype q), NetworkToHost (m_Qclass q))"

lemma question_key_inject: "question_key q = question_key q' \<longleftrightarrow> q = q'"
  by (cases q; cases q') (simp add: question_key_def)

lemma DnsQuestion_less_key: "DnsQuestion_less q q' \<longleftrightarrow> question_key q < question_key q'"
  by (auto simp: DnsQuestion_less_def question_key_def less_prod_simp 
      order.order_iff_strict)

lemma DnsQuestion_eq_iff: "DnsQuestion_eq q q' \<longleftrightarrow> q = q'"
  by (cases q; cases q') (simp add: DnsQuestion_eq_def)

interpretation question_order:
  linorder "\<lambda>q q'. DnsQuestion_less q q' \<or> DnsQuestion_eq q q'" DnsQuestion_less
proof unfold_locales
  fix x y
  show "(DnsQuestion_less x y \<or> DnsQuestion_eq x y) \<or> (DnsQuestion_less y x \<or> DnsQuestion_eq y x)"
    using less_linear [of "question_key x" "question_key y"]
    by (auto simp: DnsQuestion_less_key DnsQuestion_eq_iff question_key_inject)
qed (auto simp: DnsQuestion_less_key DnsQuestion_eq_iff)

section \<open>Lemmas: reverse lookup names\<close>

definition pad4 :: "string \<Rightarrow> string" where
  "pad4 g = replicate (4 - length g) CHR ''0'' @ map tolower g"

lemma ipv6_expand_eq:
  "ipv6_expand gs acc = (if list_all (\<lambda>g. length g \<le> 4) gs then Some (acc @ concat (map pad4 gs)) else None)"
  by (induction gs arbitrary: acc) (auto simp: pad4_def)

lemma length_concat_pad4: "list_all (\<lambda>g. length g \<le> 4) gs \<Longrightarrow> length (concat (map pad4 gs)) = 4 * length gs"
  by (induction gs) (auto simp: pad4_def)

lemma ipv6_groups_length: "ipv6_groups s = Some gs \<Longrightarrow> length gs = 8"
  by (auto simp: ipv6_groups_def Let_def split: option.splits prod.splits if_splits)

lemma split_double_colon_no_colon:
  "CHR '':'' \<notin> set s \<Longrightarrow> s \<noteq> [] \<Longrightarrow> split_double_colon (s @ t) =
     map_option (\<lambda>(l, r). (s @ l, r)) (split_double_colon t)"
proof (induction s)
  case (Cons c s)
  then have "split_double_colon ((c # s) @ t) = map_option (\<lambda>(l, r). (c # l, r)) (split_double_colon (s @ t))"
    by auto
  with Cons show ?case by (cases s; cases "split_double_colon t") auto
qed simp

lemma split_double_colon_join:
  "\<forall>g\<in>set gs. g \<noteq> [] \<and> CHR '':'' \<notin> set g \<Longrightarrow> split_double_colon (join_with CHR '':'' gs) = None"
proof (induction "CHR '':''" gs rule: join_with.induct)
  case (2 s)
  then show ?case using split_double_colon_no_colon [of s "[]"] by simp
next
  case (3 s t ts)
  let ?j = "join_with CHR '':'' (t # ts)"
  obtain d ds where t: "t = d # ds" "d \<noteq> CHR '':''" using "3.prems" by (cases t) auto
  then obtain rest where j: "?j = d # rest" by (cases ts) auto
  have "split_double_colon (CHR '':'' # ?j) = map_option (\<lambda>(l, r). (CHR '':'' # l, r)) (split_double_colon ?j)"
    using t(2) by (simp add: j)
  moreover have "split_double_colon ?j = None" using 3 by simp
  ultimately show ?case
    using "3.prems" split_double_colon_no_colon [of s "CHR '':'' # ?j"] by simp
qed simp

section \<open>Properties\<close>

text \<open>C13: the name parser accepts exactly the names of RFC 1035 that need at most sixteen pointer hops,
  and returns their labels and the offset of the text after the name. In particular it terminates on
  every input, pointer cycles included.\<close>

theorem ParseDomainName_decides_name_at:
  "ParseDomainName data n off [] = (True, off', ls) \<longleftrightarrow>
   (\<exists>k \<le> DNS_MAX_POINTER_HOPS. name_at data n off ls off' k)"
  by (auto simp: ParseDomainName_iff)

text \<open>Parsing a question reads no byte at or beyond \<^verbatim>\<open>p_Size\<close>: whatever follows the first
  \<^verbatim>\<open>p_Size\<close> bytes in memory changes neither the result nor the offset nor the object. A successful parse
  advances the offset by at least five bytes and not past the end; a failed one leaves the object alone.\<close>

theorem question_FromWire_memory_safe:
  "DnsQuestion_FromWire (Some (data @ junk)) (length data) off q =
   DnsQuestion_FromWire (Some data) (length data) off q \<and>
   (case DnsQuestion_FromWire (Some data) n off q of (ok, off', q') \<Rightarrow>
      (if ok then off + 5 \<le> off' \<and> off' \<le> n else q' = q))"
proof
  show "DnsQuestion_FromWire (Some (data @ junk)) (length data) off q =
      DnsQuestion_FromWire (Some data) (length data) off q"
    using question_FromWire_local [of "length data" "data @ junk" off q] by simp
  have "q' = q" if "DnsQuestion_FromWire (Some data) n off q = (False, off', q')" for off' q'
    using that by (auto simp: DnsQuestion_FromWire_def split: prod.splits if_splits)
  then show "case DnsQuestion_FromWire (Some data) n off q of (ok, off', q') \<Rightarrow>
      (if ok then off + 5 \<le> off' \<and> off' \<le> n else q' = q)"
    using question_FromWire_bounds [of data n off q] by (auto split: prod.split)
qed

text \<open>A question whose labels have between 1 and 63 bytes, written into a message, reads back at
  that position as the same question, and the reader stops exactly behind it.\<close>

theorem question_wire_roundtrip:
  assumes "DnsQuestion_Valid q" and "DnsQuestion_WireSize q \<le> length buf"
  shows "\<exists>out. DnsQuestion_ToWire q (Some buf) (length buf) = (DnsQuestion_WireSize q, Some out) \<and>
    length out = length buf \<and>
    DnsQuestion_FromWire (Some (pre @ out)) (length pre + length out) (length pre) q0 =
      (True, length pre + DnsQuestion_WireSize q, q)"
proof -
  let ?out = "question_image q @ drop (DnsQuestion_WireSize q) buf"
  have wf: "labels_wf (m_Qname q)" using assms(1) by (intro valid_labels_wf Valid_labels)
  then have "DnsQuestion_FromWire (Some (pre @ ?out)) (length pre + length ?out) (length pre) q0 =
      (True, length pre + length (question_image q), q)"
    by (intro question_FromWire_image) simp_all
  then show ?thesis
    using assms(2) question_ToWire_image [of q "length buf" buf]
    by (simp add: length_question_image)
qed

theorem question_wire_roundtrip_witness:
  "\<exists>out. DnsQuestion_ToWire (DnsQuestion_MakeAQuery ''a.example'') (Some (replicate 40 7)) 40 = (15, Some out) \<and>
    DnsQuestion_FromWire (Some (replicate 12 0 @ out)) 52 12 DnsQuestion_default =
      (True, 27, DnsQuestion_MakeAQuery ''a.example'')"
proof -
  let ?q = "DnsQuestion_MakeAQuery ''a.example''"
  have "?q = \<lparr>m_Qname = [''a'', ''example''], m_Qtype = HostToNetwork 1, m_Qclass = HostToNetwork 1\<rparr>"
    using labels_of_join(1) [of "[''a'', ''example'']"]
    by (simp add: DnsQuestion_MakeAQuery_def DnsQuestion_SetQclass_def DnsQuestion_SetQtype_def
        DnsQuestion_SetQnameFromString_def DnsQuestion_default_def IsValidLabel_def isalnum_def
        isdigit_def isupper_def islower_def)
  then have "DnsQuestion_Valid ?q" "DnsQuestion_WireSize ?q = 15"
    by (simp_all add: DnsQuestion_Valid_def DnsQuestion_WireSize_def labels_WireSize_def IsValidLabel_def
        isalnum_def isdigit_def isupper_def islower_def)
  then show ?thesis
    using question_wire_roundtrip [of ?q "replicate 40 7" "replicate 12 0" DnsQuestion_default]
    by auto
qed

text \<open>A name survives printing and re-reading: for valid labels, \<^verbatim>\<open>SetQnameFromString\<close> of the dotted
  form, with or without the trailing dot, gives the labels back; and whatever the string, every label it
  stores is valid.\<close>

theorem question_name_roundtrip:
  "list_all IsValidLabel (m_Qname (DnsQuestion_SetQnameFromString s q)) \<and>
   (if list_all IsValidLabel (m_Qname q)
    then DnsQuestion_SetQnameFromString (DnsQuestion_QnameAsString q) q = q \<and>
         DnsQuestion_SetQnameFromString (DnsQuestion_Fqdn q) q = q
    else True)"
  using labels_of_join [of "m_Qname q"] last_join_no_dot [of "m_Qname q"]
  by (cases "m_Qname q = []")
    (auto simp: DnsQuestion_SetQnameFromString_def labels_of_string_valid DnsQuestion_Fqdn_def
      QnameAsString_join Let_def)

text \<open>\<^verbatim>\<open>SetPTRFromIp\<close> reverses the parts of an address: four (or any number of) dotted octets become
  the labels of \<^verbatim>\<open>in-addr.arpa\<close> in reverse order; eight colon-separated groups of at most four characters
  become the 32 lower-case nibbles of \<^verbatim>\<open>ip6.arpa\<close> in reverse order; and every string with a colon either
  clears the name or gives exactly 34 labels.\<close>

theorem SetPTRFromIp_reverses:
  assumes "octets \<noteq> []" and "\<forall>l\<in>set octets. l \<noteq> [] \<and> CHR ''.'' \<notin> set l \<and> CHR '':'' \<notin> set l"
    and "length groups = 8"
    and "\<forall>g\<in>set groups. g \<noteq> [] \<and> length g \<le> 4 \<and> CHR '':'' \<notin> set g"
    and "CHR '':'' \<in> set s"
  shows "m_Qname (DnsQuestion_SetPTRFromIp (join_with CHR ''.'' octets) q) = rev octets @ [''in-addr'', ''arpa''] \<and>
    m_Qname (DnsQuestion_SetPTRFromIp (join_with CHR '':'' groups) q) =
      map (\<lambda>c. [c]) (rev (concat (map pad4 groups))) @ [''ip6'', ''arpa''] \<and>
    length (m_Qname (DnsQuestion_SetPTRFromIp s q)) \<in> {0, 34}"
proof (intro conjI)
  have "join_with CHR ''.'' octets \<noteq> []" "CHR '':'' \<notin> set (join_with CHR ''.'' octets)"
    using assms(1,2) by (induction "CHR ''.''" octets rule: join_with.induct) auto
  moreover have "ptr_octets (join_with CHR ''.'' octets) = octets"
    using assms(1,2) split_on_join [of octets "CHR ''.''"] by (simp add: ptr_octets_def)
  ultimately show "m_Qname (DnsQuestion_SetPTRFromIp (join_with CHR ''.'' octets) q) = rev octets @ [''in-addr'', ''arpa'']"
    by (simp add: DnsQuestion_SetPTRFromIp_def ptr_labels_def)
next
  let ?s = "join_with CHR '':'' groups"
  obtain g1 g2 gs where g: "groups = g1 # g2 # gs" using assms(3) by (cases groups; cases "tl groups") auto
  then have "?s \<noteq> []" "CHR '':'' \<in> set ?s" by auto
  moreover have "split_on CHR '':'' ?s = (butlast groups, last groups)"
    using assms(4) g by (intro split_on_join) auto
  then have "SplitByColon ?s = groups" using \<open>?s \<noteq> []\<close> g by (simp add: SplitByColon_def del: join_with.simps)
  then have "ipv6_groups ?s = Some groups"
    using assms(3,4) split_double_colon_join [of groups] by (simp add: ipv6_groups_def SplitByColon_def [of "[]"])
  ultimately show "m_Qname (DnsQuestion_SetPTRFromIp ?s q) =
      map (\<lambda>c. [c]) (rev (concat (map pad4 groups))) @ [''ip6'', ''arpa'']"
    using assms(4) by (simp add: DnsQuestion_SetPTRFromIp_def ptr_labels_def ipv6_expand_eq list_all_iff)
next
  show "length (m_Qname (DnsQuestion_SetPTRFromIp s q)) \<in> {0, 34}"
    using assms(5) by (auto simp: DnsQuestion_SetPTRFromIp_def ptr_labels_def ipv6_expand_eq
        length_concat_pad4 dest: ipv6_groups_length split: option.split)
qed

theorem SetPTRFromIp_reverses_witness:
  "m_Qname (DnsQuestion_SetPTRFromIp (join_with CHR ''.'' [''192'', ''0'', ''2'', ''1'']) DnsQuestion_default) =
     [''1'', ''2'', ''0'', ''192'', ''in-addr'', ''arpa''] \<and>
   m_Qname (DnsQuestion_SetPTRFromIp (join_with CHR '':'' (replicate 8 ''ab'')) DnsQuestion_default) =
     map (\<lambda>c. [c]) (rev (concat (map pad4 (replicate 8 ''ab'')))) @ [''ip6'', ''arpa''] \<and>
   length (m_Qname (DnsQuestion_SetPTRFromIp ''::1'' DnsQuestion_default)) \<in> {0, 34}"
  using SetPTRFromIp_reverses [of "[''192'', ''0'', ''2'', ''1'']" "replicate 8 ''ab''" "''::1''" DnsQuestion_default]
  by simp

end
