(* ===== verification/Cpp_Strings.thy ===== *)
theory Cpp_Strings
  imports Chukei_Prelude
begin

text \<open>
  The conversions of the C++ standard library between integers and text that the sources use:
  \<^verbatim>\<open>std::stoi\<close> with base 10 or 16 (leading white space, sign, \<^verbatim>\<open>0x\<close> prefix, the longest run of digits,
  \<^verbatim>\<open>std::invalid_argument\<close> without a digit, \<^verbatim>\<open>std::out_of_range\<close> outside of \<^verbatim>\<open>int\<close>) and the
  insertion of an unsigned integer into a stream, decimal or under \<^verbatim>\<open>std::hex\<close>.
\<close>

definition isspace :: "char \<Rightarrow> bool" where
  "isspace c \<longleftrightarrow> of_char c = (32 :: nat) \<or> (9 \<le> (of_char c :: nat) \<and> (of_char c :: nat) \<le> 13)"

definition digit_value :: "char \<Rightarrow> nat" where
  "digit_value c =
     (if isdigit c then of_char c - 48
      else if islower c then of_char c - 87
      else if isupper c then of_char c - 55 else 36)"

definition digit_char :: "nat \<Rightarrow> char" where
  "digit_char d = char_of (if d < 10 then 48 + d else 87 + d)"

definition digits_value :: "nat \<Rightarrow> string \<Rightarrow> nat" where
  "digits_value base s = foldl (\<lambda>a c. a * base + digit_value c) 0 s"

definition strip_hex_prefix :: "string \<Rightarrow> string" where
  "strip_hex_prefix s =
     (case s of
        z # x # d # _ \<Rightarrow>
          if z = CHR ''0'' \<and> (x = CHR ''x'' \<or> x = CHR ''X'') \<and> digit_value d < 16 then drop 2 s else s
      | _ \<Rightarrow> s)"

definition strip_sign :: "string \<Rightarrow> bool \<times> string" where
  "strip_sign s =
     (case s of
        [] \<Rightarrow> (False, [])
      | c # cs \<Rightarrow> if c = CHR ''-'' then (True, cs) else if c = CHR ''+'' then (False, cs) else (False, s))"

definition stoi :: "nat \<Rightarrow> string \<Rightarrow> cpp_error + int" where
  "stoi base str =
     (let (negative, s) = strip_sign (dropWhile isspace str);
          s = (if base = 16 then strip_hex_prefix s else s);
          digits = takeWhile (\<lambda>c. digit_value c < base) s;
          value = (if negative then - int (digits_value base digits) else int (digits_value base digits))
      in if digits = [] then Inl (Invalid_argument ''stoi'')
         else if value < - (2 ^ 31) \<or> value > 2 ^ 31 - 1 then Inl (Out_of_range ''stoi'')
         else Inr value)"

text \<open>The digits that an output stream writes for an unsigned integer.\<close>

function (sequential) to_digits :: "nat \<Rightarrow> nat \<Rightarrow> string" where
  "to_digits base n =
     (if base < 2 \<or> n < base then [digit_char n]
      else to_digits base (n div base) @ [digit_char (n mod base)])"
  by pat_completeness auto
termination
  by (relation "measure snd") auto

declare to_digits.simps [simp del]

section \<open>Lemmas\<close>

lemma digit_value_char: "d < 16 \<Longrightarrow> digit_value (digit_char d) = d"
  by (auto simp: digit_value_def digit_char_def isdigit_def islower_def isupper_def)

lemma digits_value_snoc: "digits_value base (s @ [c]) = digits_value base s * base + digit_value c"
  by (simp add: digits_value_def)

lemma digits_value_to_digits: "2 \<le> base \<Longrightarrow> base \<le> 16 \<Longrightarrow> digits_value base (to_digits base n) = n"
proof (induction base n rule: to_digits.induct)
  case (1 base n)
  show ?case
  proof (cases "n < base")
    case True
    with 1 show ?thesis
      by (subst to_digits.simps) (simp add: digits_value_def digit_value_char)
  next
    case False
    with 1 have "digits_value base (to_digits base (n div base)) = n div base" by simp
    with 1 False show ?thesis
      by (subst to_digits.simps)
        (simp add: digits_value_snoc digit_value_char order_less_le_trans [OF mod_less_divisor])
  qed
qed

lemma to_digits_digits:
  "2 \<le> base \<Longrightarrow> base \<le> 16 \<Longrightarrow> c \<in> set (to_digits base n) \<Longrightarrow> \<exists>d < base. c = digit_char d"
proof (induction base n rule: to_digits.induct)
  case (1 base n)
  show ?case
  proof (cases "n < base")
    case True
    with 1 show ?thesis by (subst (asm) (2) to_digits.simps) auto
  next
    case False
    with "1.prems" have "c \<in> set (to_digits base (n div base)) \<or> c = digit_char (n mod base)"
      by (subst (asm) to_digits.simps) auto
    moreover have "n mod base < base" using "1.prems" by simp
    moreover have "\<exists>d < base. c = digit_char d" if "c \<in> set (to_digits base (n div base))"
      using that 1 False by simp
    ultimately show ?thesis by blast
  qed
qed

lemma to_digits_nonempty [simp]: "to_digits base n \<noteq> []"
  by (subst to_digits.simps) simp

lemma digit_char_plain:
  assumes "d < 16"
  shows "\<not> isspace (digit_char d)" "digit_char d \<noteq> CHR ''-''" "digit_char d \<noteq> CHR ''+''"
    "digit_char d \<noteq> CHR ''x''" "digit_char d \<noteq> CHR ''X''" "digit_char d \<noteq> CHR ''.''" "digit_char d \<noteq> CHR '':''"
proof -
  have "list_all (\<lambda>d. let c = digit_char d in \<not> isspace c \<and> c \<notin> set ''-+xX.:'') [0..<16]" by code_simp
  then have "\<not> isspace (digit_char d) \<and> digit_char d \<notin> set ''-+xX.:''"
    using assms by (auto simp only: list_all_iff Let_def set_upt atLeastLessThan_iff)
  then show "\<not> isspace (digit_char d)" "digit_char d \<noteq> CHR ''-''" "digit_char d \<noteq> CHR ''+''"
    "digit_char d \<noteq> CHR ''x''" "digit_char d \<noteq> CHR ''X''" "digit_char d \<noteq> CHR ''.''" "digit_char d \<noteq> CHR '':''"
    by (auto simp only: list.set insert_iff)
qed

lemma to_digits_no_sep:
  "2 \<le> base \<Longrightarrow> base \<le> 16 \<Longrightarrow> CHR ''.'' \<notin> set (to_digits base n) \<and> CHR '':'' \<notin> set (to_digits base n)"
  using to_digits_digits [of base _ n] digit_char_plain by (metis order_less_le_trans)

text \<open>Reading back what was printed.\<close>

lemma stoi_to_digits:
  assumes base: "2 \<le> base" "base \<le> 16" and n: "n < 2 ^ 31"
  shows "stoi base (to_digits base n) = Inr (int n)"
proof -
  obtain c cs where s: "to_digits base n = c # cs" by (cases "to_digits base n") simp_all
  have plain: "\<exists>d<16. x = digit_char d" if "x \<in> set (to_digits base n)" for x
    using to_digits_digits [OF base that] base(2) order_less_le_trans by blast
  then have c: "\<not> isspace c" "c \<noteq> CHR ''-''" "c \<noteq> CHR ''+''" using s digit_char_plain by force+
  have x: "x \<noteq> CHR ''x'' \<and> x \<noteq> CHR ''X''" if "x \<in> set (to_digits base n)" for x
    using plain [OF that] digit_char_plain(4,5) by metis
  have strip: "strip_hex_prefix (to_digits base n) = to_digits base n"
    using x by (auto simp: strip_hex_prefix_def split: list.split)
  have "digit_value x < base" if "x \<in> set (to_digits base n)" for x
    using to_digits_digits [OF base that] base by (auto simp: digit_value_char)
  then have take: "takeWhile (\<lambda>c. digit_value c < base) (to_digits base n) = to_digits base n"
    by (simp add: takeWhile_eq_all_conv)
  have "dropWhile isspace (to_digits base n) = to_digits base n" using c(1) by (simp add: s)
  moreover have "strip_sign (to_digits base n) = (False, to_digits base n)"
    using c by (simp add: s strip_sign_def)
  moreover have "(if base = 16 then strip_hex_prefix (to_digits base n) else to_digits base n) = to_digits base n"
    by (simp only: strip if_cancel)
  ultimately show ?thesis
    using n base by (simp only: stoi_def Let_def prod.case take digits_value_to_digits) simp
qed

end
