(* ===== verification/Dns_Answer.thy ===== *)
theory Dns_Answer
  imports Dns_Question Cpp_Strings
begin

unbundle bit_operations_syntax

text \<open>
  \<^verbatim>\<open>class DnsAnswer\<close> (\<^verbatim>\<open>include/dns_packet_answer.h\<close>, \<^verbatim>\<open>src/dns_packet_answer.cc\<close>): a resource record, used
  for the answer, authority and additional sections. The integer members are kept in network order.
  \<^verbatim>\<open>IsValidLabel\<close>, \<^verbatim>\<open>ParseDomainName\<close>, the splitting of a dotted name and the label loop of \<^verbatim>\<open>ToWire\<close> are
  verbatim copies of those of \<^verbatim>\<open>DnsQuestion\<close> in the source, and are the same definitions here.
  The \<^verbatim>\<open>assert\<close> in \<^verbatim>\<open>UpdateRDLENGTH\<close> is that of a release build: the size is truncated to 16 bits.
\<close>

section \<open>State\<close>

record DnsAnswer =
  m_Name :: "string list"
  m_Type :: u16
  m_Class :: u16
  m_Ttl :: u32
  m_Rdlength :: u16
  m_Rdata :: bytes

definition DnsAnswer_default :: DnsAnswer where
  "DnsAnswer_default = \<lparr>m_Name = [], m_Type = 0, m_Class = 0, m_Ttl = 0, m_Rdlength = 0, m_Rdata = []\<rparr>"

section \<open>Accessors\<close>

definition DnsAnswer_Name :: "DnsAnswer \<Rightarrow> string list" where
  "DnsAnswer_Name a = m_Name a"

definition DnsAnswer_Type :: "DnsAnswer \<Rightarrow> bool \<Rightarrow> u16" where
  "DnsAnswer_Type a p_Raw = (if p_Raw then m_Type a else NetworkToHost (m_Type a))"

definition DnsAnswer_Rclass :: "DnsAnswer \<Rightarrow> bool \<Rightarrow> u16" where
  "DnsAnswer_Rclass a p_Raw = (if p_Raw then m_Class a else NetworkToHost (m_Class a))"

definition DnsAnswer_Ttl :: "DnsAnswer \<Rightarrow> bool \<Rightarrow> u32" where
  "DnsAnswer_Ttl a p_Raw = (if p_Raw then m_Ttl a else NetworkToHost (m_Ttl a))"

definition DnsAnswer_Rdlength :: "DnsAnswer \<Rightarrow> bool \<Rightarrow> u16" where
  "DnsAnswer_Rdlength a p_Raw = (if p_Raw then m_Rdlength a else NetworkToHost (m_Rdlength a))"

definition DnsAnswer_NameAsString :: "DnsAnswer \<Rightarrow> string" where
  "DnsAnswer_NameAsString a = (if m_Name a = [] then '''' else QnameAsString_loop 0 (m_Name a) '''')"

definition DnsAnswer_Fqdn :: "DnsAnswer \<Rightarrow> string" where
  "DnsAnswer_Fqdn a =
     (let s_Result = DnsAnswer_NameAsString a in if s_Result \<noteq> [] then s_Result @ ''.'' else s_Result)"

section \<open>Setters\<close>

definition DnsAnswer_SetName :: "string list \<Rightarrow> DnsAnswer \<Rightarrow> DnsAnswer" where
  "DnsAnswer_SetName p_Labels a = a\<lparr>m_Name := filter IsValidLabel p_Labels\<rparr>"

definition DnsAnswer_SetNameFromString :: "string \<Rightarrow> DnsAnswer \<Rightarrow> DnsAnswer" where
  "DnsAnswer_SetNameFromString p_Name a = a\<lparr>m_Name := labels_of_string p_Name\<rparr>"

definition DnsAnswer_SetType :: "u16 \<Rightarrow> bool \<Rightarrow> DnsAnswer \<Rightarrow> DnsAnswer" where
  "DnsAnswer_SetType p_Type p_Raw a = a\<lparr>m_Type := if p_Raw then p_Type else HostToNetwork p_Type\<rparr>"

definition DnsAnswer_SetRclass :: "u16 \<Rightarrow> bool \<Rightarrow> DnsAnswer \<Rightarrow> DnsAnswer" where
  "DnsAnswer_SetRclass p_Class p_Raw a = a\<lparr>m_Class := if p_Raw then p_Class else HostToNetwork p_Class\<rparr>"

definition DnsAnswer_SetTtl :: "u32 \<Rightarrow> bool \<Rightarrow> DnsAnswer \<Rightarrow> DnsAnswer" where
  "DnsAnswer_SetTtl p_Ttl p_Raw a = a\<lparr>m_Ttl := if p_Raw then p_Ttl else HostToNetwork p_Ttl\<rparr>"

definition DnsAnswer_UpdateRDLENGTH :: "DnsAnswer \<Rightarrow> DnsAnswer" where
  "DnsAnswer_UpdateRDLENGTH a = a\<lparr>m_Rdlength := HostToNetwork (of_nat (length (m_Rdata a)))\<rparr>"

definition DnsAnswer_SetRdata :: "bytes \<Rightarrow> DnsAnswer \<Rightarrow> DnsAnswer" where
  "DnsAnswer_SetRdata p_Data a = DnsAnswer_UpdateRDLENGTH (a\<lparr>m_Rdata := p_Data\<rparr>)"

section \<open>RDATA from text\<close>

text \<open>One octet: \<^verbatim>\<open>std::stoi\<close> and the range test inside the \<^verbatim>\<open>try\<close> block, every exception rethrown as the
  same \<^verbatim>\<open>std::invalid_argument\<close>.\<close>

definition ipv4_octet :: "string \<Rightarrow> cpp_error + byte" where
  "ipv4_octet s =
     (case stoi 10 s of
        Inl _ \<Rightarrow> Inl (Invalid_argument ''DnsAnswer: invalid IPv4 address format'')
      | Inr s_Value \<Rightarrow>
          if s_Value < 0 \<or> s_Value > 255
          then Inl (Invalid_argument ''DnsAnswer: invalid IPv4 address format'')
          else Inr (of_int s_Value))"

primrec ipv4_octets :: "string list \<Rightarrow> bytes \<Rightarrow> cpp_error + bytes" where
  "ipv4_octets [] s_RData = Inr s_RData"
| "ipv4_octets (s # ss) s_RData =
     (case ipv4_octet s of Inl e \<Rightarrow> Inl e | Inr b \<Rightarrow> ipv4_octets ss (s_RData @ [b]))"

text \<open>After the loop \<^verbatim>\<open>s_Start <= size()\<close> always holds, so the last segment is always converted.\<close>

definition DnsAnswer_SetRdataIpv4 :: "string \<Rightarrow> DnsAnswer \<Rightarrow> cpp_error + DnsAnswer" where
  "DnsAnswer_SetRdataIpv4 p_Ipv4Address a =
     (let (segs, rest) = split_on CHR ''.'' p_Ipv4Address in
      case ipv4_octets (segs @ [rest]) [] of
        Inl e \<Rightarrow> Inl e
      | Inr s_RData \<Rightarrow>
          if length s_RData \<noteq> 4
          then Inl (Invalid_argument ''DnsAnswer: IPv4 address must have 4 octets'')
          else Inr (DnsAnswer_SetRdata s_RData a))"

definition ipv6_all_groups :: "string \<Rightarrow> cpp_error + string list" where
  "ipv6_all_groups s_Address =
     (case split_double_colon s_Address of
        Some (s_Left, s_Right) \<Rightarrow>
          (let s_Before = SplitByColon s_Left;
               s_After = SplitByColon s_Right;
               s_ZeroGroups = 8 - int (length s_Before) - int (length s_After)
           in if s_ZeroGroups < 0
              then Inl (Invalid_argument ''DnsAnswer: invalid IPv6 address - too many groups'')
              else Inr (s_Before @ replicate (nat s_ZeroGroups) ''0'' @ s_After))
      | None \<Rightarrow>
          (let (segs, rest) = split_on CHR '':'' s_Address in Inr (segs @ [rest])))"

primrec ipv6_bytes :: "string list \<Rightarrow> bytes \<Rightarrow> cpp_error + bytes" where
  "ipv6_bytes [] s_RData = Inr s_RData"
| "ipv6_bytes (s_Group # gs) s_RData =
     (case stoi 16 (if s_Group = [] then ''0'' else s_Group) of
        Inl _ \<Rightarrow> Inl (Invalid_argument ''DnsAnswer: invalid IPv6 address format'')
      | Inr s_IntValue \<Rightarrow>
          if s_IntValue < 0 \<or> s_IntValue > 0xFFFF
          then Inl (Invalid_argument ''DnsAnswer: invalid IPv6 address format'')
          else let s_Value = (of_int s_IntValue :: u16)
               in ipv6_bytes gs (s_RData @ [ucast (drop_bit 8 s_Value), ucast (s_Value AND 0xFF)]))"

definition DnsAnswer_SetRdataIpv6 :: "string \<Rightarrow> DnsAnswer \<Rightarrow> cpp_error + DnsAnswer" where
  "DnsAnswer_SetRdataIpv6 p_Ipv6Address a =
     (case ipv6_all_groups p_Ipv6Address of
        Inl e \<Rightarrow> Inl e
      | Inr s_AllGroups \<Rightarrow>
          if length s_AllGroups \<noteq> 8
          then Inl (Invalid_argument ''DnsAnswer: IPv6 address must have exactly 8 groups'')
          else (case ipv6_bytes s_AllGroups [] of
                  Inl e \<Rightarrow> Inl e
                | Inr s_RData \<Rightarrow>
                    if length s_RData \<noteq> 16
                    then Inl (Invalid_argument ''DnsAnswer: IPv6 address must be 16 bytes'')
                    else Inr (DnsAnswer_SetRdata s_RData a)))"

text \<open>Serialised labels: those over 63 bytes are skipped (\<^verbatim>\<open>encode_short_labels\<close>, the loops of
  \<^verbatim>\<open>SetRdataDomainName\<close> and \<^verbatim>\<open>MakeMxRecord\<close>), or all are written (\<^verbatim>\<open>EncodeDomainLabels\<close>).\<close>

primrec encode_short_labels :: "string list \<Rightarrow> bytes \<Rightarrow> bytes" where
  "encode_short_labels [] s_RData = s_RData @ [0]"
| "encode_short_labels (l_Label # ls) s_RData =
     encode_short_labels ls
       (if length l_Label > 63 then s_RData else s_RData @ [of_nat (length l_Label)] @ bytes_of_string l_Label)"

primrec EncodeDomainLabels :: "string list \<Rightarrow> bytes \<Rightarrow> bytes" where
  "EncodeDomainLabels [] p_Output = p_Output @ [0]"
| "EncodeDomainLabels (l_Label # ls) p_Output =
     EncodeDomainLabels ls (p_Output @ [of_nat (length l_Label)] @ bytes_of_string l_Label)"

definition DnsAnswer_SetRdataDomainName :: "string \<Rightarrow> DnsAnswer \<Rightarrow> DnsAnswer" where
  "DnsAnswer_SetRdataDomainName p_DomainName a =
     DnsAnswer_SetRdata (encode_short_labels (labels_of_string p_DomainName) []) a"

definition DnsAnswer_SetRdataText :: "string \<Rightarrow> DnsAnswer \<Rightarrow> cpp_error + DnsAnswer" where
  "DnsAnswer_SetRdataText p_Text a =
     (if length p_Text > 255
      then Inl (Invalid_argument ''DnsAnswer: TXT record string too long (max 255 bytes)'')
      else Inr (DnsAnswer_SetRdata ([of_nat (length p_Text)] @ bytes_of_string p_Text) a))"

section \<open>RDATA as text\<close>

definition DnsAnswer_RdataAsIpv4 :: "DnsAnswer \<Rightarrow> cpp_error + string" where
  "DnsAnswer_RdataAsIpv4 a =
     (if DnsAnswer_Type a False \<noteq> 1 \<or> length (m_Rdata a) \<noteq> 4
      then Inl (Invalid_argument ''DnsAnswer: not an A record or invalid data size'')
      else Inr (to_digits 10 (unat (m_Rdata a ! 0)) @ ''.'' @ to_digits 10 (unat (m_Rdata a ! 1)) @ ''.''
                @ to_digits 10 (unat (m_Rdata a ! 2)) @ ''.'' @ to_digits 10 (unat (m_Rdata a ! 3))))"

definition ipv6_word :: "bytes \<Rightarrow> nat \<Rightarrow> u16" where
  "ipv6_word rd l_Index = push_bit 8 (ucast (rd ! l_Index)) OR ucast (rd ! (l_Index + 1))"

definition DnsAnswer_RdataAsIpv6 :: "DnsAnswer \<Rightarrow> cpp_error + string" where
  "DnsAnswer_RdataAsIpv6 a =
     (if DnsAnswer_Type a False \<noteq> 28 \<or> length (m_Rdata a) \<noteq> 16
      then Inl (Invalid_argument ''DnsAnswer: not an AAAA record or invalid data size'')
      else Inr (foldl (\<lambda>s_Stream l_Index.
                  (if l_Index > 0 then s_Stream @ '':'' else s_Stream) @ to_digits 16 (unat (ipv6_word (m_Rdata a) l_Index)))
                '''' [0, 2, 4, 6, 8, 10, 12, 14]))"

definition DnsAnswer_RdataAsDomainName :: "DnsAnswer \<Rightarrow> cpp_error + string" where
  "DnsAnswer_RdataAsDomainName a =
     (let s_RecordType = DnsAnswer_Type a False in
      if s_RecordType \<noteq> 2 \<and> s_RecordType \<noteq> 5 \<and> s_RecordType \<noteq> 12
      then Inl (Invalid_argument ''DnsAnswer: not a domain name record type'')
      else let (ok, _, s_Labels) = ParseDomainName (m_Rdata a) (length (m_Rdata a)) 0 [] in
           if \<not> ok then Inl (Invalid_argument ''DnsAnswer: invalid domain name in RDATA'')
           else if s_Labels = [] then Inr ''''
           else Inr (QnameAsString_loop 0 s_Labels ''''))"

function RdataAsText_loop :: "bytes \<Rightarrow> nat \<Rightarrow> string \<Rightarrow> string" where
  "RdataAsText_loop rd s_Offset s_Result =
     (if s_Offset < length rd then
        (let s_Length = unat (rd ! s_Offset); s_Offset = s_Offset + 1 in
         if s_Offset + s_Length > length rd then s_Result
         else RdataAsText_loop rd (s_Offset + s_Length)
                ((if s_Result \<noteq> [] then s_Result @ '' '' else s_Result)
                 @ string_of_bytes (subrange rd s_Offset s_Length)))
      else s_Result)"
  by pat_completeness auto
termination
  by (relation "measure (\<lambda>(rd, off, _). length rd - off)") auto

declare RdataAsText_loop.simps [simp del]

definition DnsAnswer_RdataAsText :: "DnsAnswer \<Rightarrow> cpp_error + string" where
  "DnsAnswer_RdataAsText a =
     (if DnsAnswer_Type a False \<noteq> 16 then Inl (Invalid_argument ''DnsAnswer: not a TXT record'')
      else Inr (RdataAsText_loop (m_Rdata a) 0 ''''))"

section \<open>Label and container operations\<close>

definition DnsAnswer_AddLabel :: "string \<Rightarrow> DnsAnswer \<Rightarrow> bool \<times> DnsAnswer" where
  "DnsAnswer_AddLabel p_Label a =
     (if IsValidLabel p_Label then (True, a\<lparr>m_Name := m_Name a @ [p_Label]\<rparr>) else (False, a))"

definition DnsAnswer_PrependLabel :: "string \<Rightarrow> DnsAnswer \<Rightarrow> bool \<times> DnsAnswer" where
  "DnsAnswer_PrependLabel p_Label a =
     (if IsValidLabel p_Label then (True, a\<lparr>m_Name := p_Label # m_Name a\<rparr>) else (False, a))"

definition DnsAnswer_PopLabel :: "DnsAnswer \<Rightarrow> bool \<times> DnsAnswer" where
  "DnsAnswer_PopLabel a =
     (if m_Name a \<noteq> [] then (True, a\<lparr>m_Name := butlast (m_Name a)\<rparr>) else (False, a))"

definition DnsAnswer_RemoveFirstLabel :: "DnsAnswer \<Rightarrow> bool \<times> DnsAnswer" where
  "DnsAnswer_RemoveFirstLabel a =
     (if m_Name a \<noteq> [] then (True, a\<lparr>m_Name := tl (m_Name a)\<rparr>) else (False, a))"

definition DnsAnswer_swap :: "DnsAnswer \<Rightarrow> DnsAnswer \<Rightarrow> DnsAnswer \<times> DnsAnswer" where
  "DnsAnswer_swap a b =
     (a\<lparr>m_Name := m_Name b, m_Type := m_Type b, m_Class := m_Class b, m_Ttl := m_Ttl b,
        m_Rdlength := m_Rdlength b, m_Rdata := m_Rdata b\<rparr>,
      b\<lparr>m_Name := m_Name a, m_Type := m_Type a, m_Class := m_Class a, m_Ttl := m_Ttl a,
        m_Rdlength := m_Rdlength a, m_Rdata := m_Rdata a\<rparr>)"

definition DnsAnswer_empty :: "DnsAnswer \<Rightarrow> bool" where
  "DnsAnswer_empty a \<longleftrightarrow> m_Name a = []"

definition DnsAnswer_size :: "DnsAnswer \<Rightarrow> nat" where
  "DnsAnswer_size a = length (m_Name a)"

definition DnsAnswer_clear :: "DnsAnswer \<Rightarrow> DnsAnswer" where
  "DnsAnswer_clear a =
     a\<lparr>m_Name := [], m_Type := 0, m_Class := 0, m_Ttl := 0, m_Rdlength := 0, m_Rdata := []\<rparr>"

definition DnsAnswer_resize :: "nat \<Rightarrow> string \<Rightarrow> DnsAnswer \<Rightarrow> DnsAnswer" where
  "DnsAnswer_resize p_Size p_Value a =
     a\<lparr>m_Name := take p_Size (m_Name a) @ replicate (p_Size - length (m_Name a)) p_Value\<rparr>"

definition DnsAnswer_at :: "DnsAnswer \<Rightarrow> nat \<Rightarrow> cpp_error + string" where
  "DnsAnswer_at a p_Index =
     (if p_Index < length (m_Name a) then Inr (m_Name a ! p_Index) else Inl (Out_of_range ''vector::at''))"

section \<open>Validity, hash and sizes\<close>

definition DnsAnswer_Valid :: "DnsAnswer \<Rightarrow> bool" where
  "DnsAnswer_Valid a \<longleftrightarrow>
     (if m_Name a = [] then True
      else if \<not> list_all IsValidLabel (m_Name a) then False
      else if foldl (\<lambda>s_TotalLength l_Label. s_TotalLength + (length l_Label + 1)) 0 (m_Name a) + 1 > 255 then False
      else unat (DnsAnswer_Rdlength a False) = length (m_Rdata a))"

definition DnsAnswer_Hash ::
  "(string \<Rightarrow> u64) \<Rightarrow> (u16 \<Rightarrow> u64) \<Rightarrow> (u32 \<Rightarrow> u64) \<Rightarrow> (byte \<Rightarrow> u64) \<Rightarrow> DnsAnswer \<Rightarrow> u64" where
  "DnsAnswer_Hash hash_string hash16 hash32 hash_char a =
     (let s_Result = foldl (\<lambda>s l. hash_combine s (hash_string l)) 0 (m_Name a);
          s_Result = hash_combine s_Result (hash16 (m_Type a));
          s_Result = hash_combine s_Result (hash16 (m_Class a));
          s_Result = hash_combine s_Result (hash32 (m_Ttl a))
      in foldl (\<lambda>s c. hash_combine s (hash_char c)) s_Result (m_Rdata a))"

definition DnsAnswer_CalculateStringSize :: "DnsAnswer \<Rightarrow> nat" where
  "DnsAnswer_CalculateStringSize a =
     (let s_Size = foldl (\<lambda>s_Sum l_Label. s_Sum + length l_Label + 1) 0 (m_Name a)
      in if s_Size > 0 then s_Size - 1 else 0)"

definition DnsAnswer_WireSize :: "DnsAnswer \<Rightarrow> nat" where
  "DnsAnswer_WireSize a = labels_WireSize (m_Name a) + 1 + 10 + length (m_Rdata a)"

section \<open>Parsing\<close>

text \<open>The names inside RDATA are resolved against the whole message and stored uncompressed. \<open>None\<close> is the
  return value false, which leaves \<^verbatim>\<open>p_RData\<close> alone.\<close>

definition DecompressRDATA :: "bytes \<Rightarrow> nat \<Rightarrow> nat \<Rightarrow> u16 \<Rightarrow> bytes option" where
  "DecompressRDATA p_Data p_Size p_RdataOffset p_TypeHost =
     (if p_TypeHost = 2 \<or> p_TypeHost = 5 \<or> p_TypeHost = 12 then
        (let (ok, _, s_RdataLabels) = ParseDomainName p_Data p_Size p_RdataOffset []
         in if \<not> ok then None else Some (EncodeDomainLabels s_RdataLabels []))
      else if p_TypeHost = 6 then
        (let (ok, s_Offset, s_MnameLabels) = ParseDomainName p_Data p_Size p_RdataOffset [] in
         if \<not> ok then None
         else let (ok, s_Offset, s_RnameLabels) = ParseDomainName p_Data p_Size s_Offset [] in
              if \<not> ok then None
              else if s_Offset + 20 > p_Size then None
              else Some (EncodeDomainLabels s_RnameLabels (EncodeDomainLabels s_MnameLabels [])
                         @ subrange p_Data s_Offset 20))
      else if p_TypeHost = 15 then
        (if p_RdataOffset + 2 > p_Size then None
         else let (ok, _, s_ExchangeLabels) = ParseDomainName p_Data p_Size (p_RdataOffset + 2) [] in
              if \<not> ok then None
              else Some (EncodeDomainLabels s_ExchangeLabels
                           [p_Data ! p_RdataOffset, p_Data ! (p_RdataOffset + 1)]))
      else if p_TypeHost = 33 then
        (if p_RdataOffset + 6 > p_Size then None
         else let (ok, _, s_TargetLabels) = ParseDomainName p_Data p_Size (p_RdataOffset + 6) [] in
              if \<not> ok then None
              else Some (EncodeDomainLabels s_TargetLabels (subrange p_Data p_RdataOffset 6)))
      else None)"

definition DnsAnswer_FromWire :: "DnsAnswer decoder" where
  "DnsAnswer_FromWire p_Data p_Size p_Offset p_OutAnswer =
     (case p_Data of
        None \<Rightarrow> (False, p_Offset, p_OutAnswer)
      | Some d \<Rightarrow>
          (let (ok, off, s_Labels) = ParseDomainName d p_Size p_Offset [] in
           if \<not> ok then (False, off, p_OutAnswer)
           else if off + 10 > p_Size then (False, off, p_OutAnswer)
           else
             let s_Type = load16 d off;
                 s_Class = load16 d (off + 2);
                 s_Ttl = load32 d (off + 4);
                 s_RdLengthHost = unat (NetworkToHost (load16 d (off + 8)));
                 s_RdataOffset = off + 10
             in if s_RdataOffset + s_RdLengthHost > p_Size then (False, s_RdataOffset, p_OutAnswer)
                else
                  let s_RData = subrange d s_RdataOffset s_RdLengthHost;
                      s_TypeHost = NetworkToHost s_Type;
                      s_RData = (if s_TypeHost = 2 \<or> s_TypeHost = 5 \<or> s_TypeHost = 6 \<or> s_TypeHost = 12
                                   \<or> s_TypeHost = 15 \<or> s_TypeHost = 33
                                 then (case DecompressRDATA d p_Size s_RdataOffset s_TypeHost of
                                         Some rd \<Rightarrow> rd | None \<Rightarrow> s_RData)
                                 else s_RData)
                  in (True, s_RdataOffset + s_RdLengthHost,
                      DnsAnswer_UpdateRDLENGTH
                        (p_OutAnswer\<lparr>m_Name := s_Labels, m_Type := s_Type, m_Class := s_Class,
                                     m_Ttl := s_Ttl, m_Rdata := s_RData\<rparr>))))"

definition DnsAnswer_ctor_data_offset ::
  "string \<Rightarrow> bytes option \<Rightarrow> nat \<Rightarrow> nat \<Rightarrow> nat \<times> (cpp_error + DnsAnswer)" where
  "DnsAnswer_ctor_data_offset what p_Data p_Size p_Offset =
     (let (ok, p_Offset', a) = DnsAnswer_FromWire p_Data p_Size p_Offset DnsAnswer_default
      in (p_Offset', if ok then Inr a else Inl (Invalid_argument what)))"

definition DnsAnswer_ctor_data :: "string \<Rightarrow> bytes option \<Rightarrow> nat \<Rightarrow> cpp_error + DnsAnswer" where
  "DnsAnswer_ctor_data what p_Data p_Size = snd (DnsAnswer_ctor_data_offset what p_Data p_Size 0)"

section \<open>Serialising\<close>

definition DnsAnswer_ToWire :: "DnsAnswer encoder" where
  "DnsAnswer_ToWire a p_Data p_Size =
     (case p_Data of
        None \<Rightarrow> (0, None)
      | Some s_Output \<Rightarrow>
          (if p_Size < DnsAnswer_WireSize a then (0, Some s_Output)
           else let (s_Offset, s_Output) = ToWire_labels (m_Name a) (0, s_Output);
                    s_Output = overwrite s_Output s_Offset [0];
                    s_Offset = s_Offset + 1;
                    s_Output = overwrite s_Output s_Offset (mem16 (m_Type a));
                    s_Offset = s_Offset + 2;
                    s_Output = overwrite s_Output s_Offset (mem16 (m_Class a));
                    s_Offset = s_Offset + 2;
                    s_Output = overwrite s_Output s_Offset (mem32 (m_Ttl a));
                    s_Offset = s_Offset + 4;
                    s_Output = overwrite s_Output s_Offset (mem16 (m_Rdlength a));
                    s_Offset = s_Offset + 2
                in if m_Rdata a \<noteq> []
                   then (s_Offset + length (m_Rdata a), Some (overwrite s_Output s_Offset (m_Rdata a)))
                   else (s_Offset, Some s_Output)))"

section \<open>Comparison\<close>

text \<open>\<^verbatim>\<open>operator==\<close> ignores \<^verbatim>\<open>m_Rdlength_\<close>; \<^verbatim>\<open>std::vector<char>\<close> compares with signed characters.\<close>

definition DnsAnswer_eq :: "DnsAnswer \<Rightarrow> DnsAnswer \<Rightarrow> bool" where
  "DnsAnswer_eq a b \<longleftrightarrow>
     m_Name a = m_Name b \<and> m_Type a = m_Type b \<and> m_Class a = m_Class b \<and> m_Ttl a = m_Ttl b \<and> m_Rdata a = m_Rdata b"

definition DnsAnswer_less :: "DnsAnswer \<Rightarrow> DnsAnswer \<Rightarrow> bool" where
  "DnsAnswer_less a b \<longleftrightarrow>
     (if m_Name a \<noteq> m_Name b then m_Name a < m_Name b
      else if m_Type a \<noteq> m_Type b then NetworkToHost (m_Type a) < NetworkToHost (m_Type b)
      else if m_Class a \<noteq> m_Class b then NetworkToHost (m_Class a) < NetworkToHost (m_Class b)
      else if m_Ttl a \<noteq> m_Ttl b then NetworkToHost (m_Ttl a) < NetworkToHost (m_Ttl b)
      else map sint (m_Rdata a) < map sint (m_Rdata b))"

section \<open>Construction of records\<close>

definition DnsAnswer_ctor_labels :: "string list \<Rightarrow> u16 \<Rightarrow> u16 \<Rightarrow> u32 \<Rightarrow> bytes \<Rightarrow> DnsAnswer" where
  "DnsAnswer_ctor_labels p_Name p_Type p_Class p_Ttl p_RData =
     DnsAnswer_UpdateRDLENGTH (DnsAnswer_SetTtl p_Ttl False (DnsAnswer_SetRclass p_Class False
       (DnsAnswer_SetType p_Type False (DnsAnswer_default\<lparr>m_Name := p_Name, m_Rdata := p_RData\<rparr>))))"

definition DnsAnswer_ctor_name :: "string \<Rightarrow> u16 \<Rightarrow> u16 \<Rightarrow> u32 \<Rightarrow> bytes \<Rightarrow> DnsAnswer" where
  "DnsAnswer_ctor_name p_Name p_Type p_Class p_Ttl p_RData =
     DnsAnswer_UpdateRDLENGTH (DnsAnswer_SetTtl p_Ttl False (DnsAnswer_SetRclass p_Class False
       (DnsAnswer_SetType p_Type False
         (DnsAnswer_SetNameFromString p_Name (DnsAnswer_default\<lparr>m_Rdata := p_RData\<rparr>)))))"

text \<open>The four setters that every factory calls first.\<close>

definition record_base :: "string \<Rightarrow> u16 \<Rightarrow> u32 \<Rightarrow> DnsAnswer" where
  "record_base p_Name t p_Ttl =
     DnsAnswer_SetTtl p_Ttl False (DnsAnswer_SetRclass 1 False (DnsAnswer_SetType t False
       (DnsAnswer_SetNameFromString p_Name DnsAnswer_default)))"

definition DnsAnswer_MakeARecord :: "string \<Rightarrow> string \<Rightarrow> u32 \<Rightarrow> cpp_error + DnsAnswer" where
  "DnsAnswer_MakeARecord p_Name p_Ipv4Address p_Ttl =
     DnsAnswer_SetRdataIpv4 p_Ipv4Address (record_base p_Name 1 p_Ttl)"

definition DnsAnswer_MakeAaaaRecord :: "string \<Rightarrow> string \<Rightarrow> u32 \<Rightarrow> cpp_error + DnsAnswer" where
  "DnsAnswer_MakeAaaaRecord p_Name p_Ipv6Address p_Ttl =
     DnsAnswer_SetRdataIpv6 p_Ipv6Address (record_base p_Name 28 p_Ttl)"

definition DnsAnswer_MakeCnameRecord :: "string \<Rightarrow> string \<Rightarrow> u32 \<Rightarrow> DnsAnswer" where
  "DnsAnswer_MakeCnameRecord p_Name p_CanonicalName p_Ttl =
     DnsAnswer_SetRdataDomainName p_CanonicalName (record_base p_Name 5 p_Ttl)"

definition DnsAnswer_MakeMxRecord :: "string \<Rightarrow> string \<Rightarrow> u16 \<Rightarrow> u32 \<Rightarrow> DnsAnswer" where
  "DnsAnswer_MakeMxRecord p_Name p_MailServer p_Priority p_Ttl =
     DnsAnswer_SetRdata
       (encode_short_labels (labels_of_string p_MailServer) (mem16 (HostToNetwork p_Priority)))
       (record_base p_Name 15 p_Ttl)"

definition DnsAnswer_MakeTxtRecord :: "string \<Rightarrow> string \<Rightarrow> u32 \<Rightarrow> cpp_error + DnsAnswer" where
  "DnsAnswer_MakeTxtRecord p_Name p_TextData p_Ttl =
     DnsAnswer_SetRdataText p_TextData (record_base p_Name 16 p_Ttl)"

definition DnsAnswer_MakePtrRecord :: "string \<Rightarrow> string \<Rightarrow> u32 \<Rightarrow> DnsAnswer" where
  "DnsAnswer_MakePtrRecord p_Name p_TargetName p_Ttl =
     DnsAnswer_SetRdataDomainName p_TargetName (record_base p_Name 12 p_Ttl)"

definition DnsAnswer_MakeNsRecord :: "string \<Rightarrow> string \<Rightarrow> u32 \<Rightarrow> DnsAnswer" where
  "DnsAnswer_MakeNsRecord p_Name p_NameServer p_Ttl =
     DnsAnswer_SetRdataDomainName p_NameServer (record_base p_Name 2 p_Ttl)"

section \<open>Lemmas: encoded names\<close>

lemma encode_short_labels_image: "encode_short_labels ls acc = acc @ labels_image ls"
  by (induction ls arbitrary: acc) (auto simp: labels_image_def label_image_def)

lemma EncodeDomainLabels_image: "labels_wf ls \<Longrightarrow> EncodeDomainLabels ls acc = acc @ labels_image ls"
  by (induction ls arbitrary: acc) (auto simp: labels_image_def label_image_def labels_wf_def)

lemma name_at_labels_wf: "name_at data n i ls j k \<Longrightarrow> n \<le> length data \<Longrightarrow> labels_wf ls"
proof (induction rule: name_at.induct)
  case (label i len ls j k)
  then have "length (subrange data (i + 1) len) = len" by simp
  with label.hyps have "subrange data (i + 1) len \<noteq> []" by (metis length_0_conv less_irrefl)
  with label show ?case by (simp add: labels_wf_def)
qed (simp_all add: labels_wf_def)

lemma ParseDomainName_labels_wf:
  "ParseDomainName data n off [] = (True, off', ls) \<Longrightarrow> n \<le> length data \<Longrightarrow> labels_wf ls"
  using name_at_labels_wf by (auto simp: ParseDomainName_iff)

section \<open>Lemmas: the wire image of a record\<close>

text \<open>RDATA that is stored uncompressed: what \<^verbatim>\<open>DecompressRDATA\<close> produces for the types with names.\<close>

definition rdata_canonical :: "u16 \<Rightarrow> bytes \<Rightarrow> bool" where
  "rdata_canonical t rd \<longleftrightarrow>
     (if t = 2 \<or> t = 5 \<or> t = 12 then \<exists>ls. labels_wf ls \<and> rd = labels_image ls
      else if t = 6 then \<exists>ms rs tail. labels_wf ms \<and> labels_wf rs \<and> length tail = 20 \<and>
                           rd = labels_image ms @ labels_image rs @ tail
      else if t = 15 then \<exists>p ls. length p = 2 \<and> labels_wf ls \<and> rd = p @ labels_image ls
      else if t = 33 then \<exists>p ls. length p = 6 \<and> labels_wf ls \<and> rd = p @ labels_image ls
      else True)"

definition rdlength_ok :: "DnsAnswer \<Rightarrow> bool" where
  "rdlength_ok a \<longleftrightarrow> m_Rdlength a = HostToNetwork (of_nat (length (m_Rdata a)))"

definition answer_wf :: "DnsAnswer \<Rightarrow> bool" where
  "answer_wf a \<longleftrightarrow> labels_wf (m_Name a) \<and> length (m_Rdata a) \<le> 65535 \<and> rdlength_ok a \<and>
     rdata_canonical (NetworkToHost (m_Type a)) (m_Rdata a)"

definition answer_image :: "DnsAnswer \<Rightarrow> bytes" where
  "answer_image a = labels_image (m_Name a) @ mem16 (m_Type a) @ mem16 (m_Class a) @ mem32 (m_Ttl a)
     @ mem16 (m_Rdlength a) @ m_Rdata a"

lemma length_answer_image: "length (answer_image a) = DnsAnswer_WireSize a"
  by (simp add: answer_image_def length_labels_image DnsAnswer_WireSize_def)

lemma answer_ToWire_image:
  assumes "DnsAnswer_WireSize a \<le> n" and "n \<le> length buf"
  shows "DnsAnswer_ToWire a (Some buf) n =
    (DnsAnswer_WireSize a, Some (answer_image a @ drop (DnsAnswer_WireSize a) buf))"
proof -
  define c where "c = concat (map label_image (filter (\<lambda>l. length l \<le> 63) (m_Name a)))"
  have len: "length c + 11 + length (m_Rdata a) = DnsAnswer_WireSize a"
    by (simp add: c_def DnsAnswer_WireSize_def labels_WireSize_def labels_WireSize_foldl)
  with assms have room: "length c + 11 + length (m_Rdata a) \<le> length buf" by simp
  have labels: "ToWire_labels (m_Name a) (0, buf) = (length c, overwrite buf 0 c)"
    using ToWire_labels_image [of 0 "m_Name a" buf] room by (simp add: c_def [symmetric])
  let ?fixed = "c @ [0] @ mem16 (m_Type a) @ mem16 (m_Class a) @ mem32 (m_Ttl a) @ mem16 (m_Rdlength a)"
  have fixed: "overwrite (overwrite (overwrite (overwrite (overwrite (overwrite buf 0 c) (length c) [0])
      (length c + 1) (mem16 (m_Type a))) (length c + 1 + 2) (mem16 (m_Class a)))
      (length c + 1 + 2 + 2) (mem32 (m_Ttl a))) (length c + 1 + 2 + 2 + 4) (mem16 (m_Rdlength a))
    = overwrite buf 0 ?fixed"
    using room by (simp add: overwrite_next)
  have "overwrite (overwrite buf 0 ?fixed) (length c + 1 + 2 + 2 + 4 + 2) (m_Rdata a) = overwrite buf 0 (?fixed @ m_Rdata a)"
    using room by (subst overwrite_next) simp_all
  moreover have "overwrite buf 0 (?fixed @ m_Rdata a) = answer_image a @ drop (DnsAnswer_WireSize a) buf"
    by (simp add: overwrite_def answer_image_def labels_image_def len [symmetric] c_def [symmetric] add.assoc)
  ultimately show ?thesis
    using assms len fixed labels by (cases "m_Rdata a = []") (simp_all add: DnsAnswer_ToWire_def Let_def)
qed

lemma DecompressRDATA_canonical:
  assumes "rdata_canonical t rd" and "t = 2 \<or> t = 5 \<or> t = 6 \<or> t = 12 \<or> t = 15 \<or> t = 33"
    and n: "length pre + length rd \<le> n"
  shows "DecompressRDATA (pre @ rd @ post) n (length pre) t = Some rd"
proof -
  consider (name) "t = 2 \<or> t = 5 \<or> t = 12" | (soa) "t = 6" | (mx) "t = 15" | (srv) "t = 33"
    using assms(2) by blast
  then show ?thesis
  proof cases
    case name
    then obtain ls where ls: "labels_wf ls" "rd = labels_image ls"
      using assms(1) by (auto simp: rdata_canonical_def)
    then show ?thesis
      using name n by (simp add: DecompressRDATA_def ParseDomainName_image EncodeDomainLabels_image)
  next
    case soa
    then obtain ms rs tail where r: "labels_wf ms" "labels_wf rs" "length tail = 20"
      "rd = labels_image ms @ labels_image rs @ tail"
      using assms(1) by (auto simp: rdata_canonical_def)
    have "ParseDomainName (pre @ labels_image ms @ labels_image rs @ tail @ post) n (length pre) [] =
        (True, length pre + length (labels_image ms), ms)"
      using ParseDomainName_image [OF r(1), of pre n "labels_image rs @ tail @ post" "[]"] n r(4) by simp
    moreover have "ParseDomainName (pre @ labels_image ms @ labels_image rs @ tail @ post) n
        (length pre + length (labels_image ms)) [] =
        (True, length pre + length (labels_image ms) + length (labels_image rs), rs)"
      using ParseDomainName_image [OF r(2), of "pre @ labels_image ms" n "tail @ post" "[]"] n r(4) by simp
    moreover have "subrange (pre @ labels_image ms @ labels_image rs @ tail @ post)
        (length pre + length (labels_image ms) + length (labels_image rs)) 20 = tail"
      using r(3) by (simp add: subrange_skip subrange_hit)
    ultimately show ?thesis
      using soa n r by (simp add: DecompressRDATA_def EncodeDomainLabels_image)
  next
    case mx
    then obtain p ls where r: "length p = 2" "labels_wf ls" "rd = p @ labels_image ls"
      using assms(1) by (auto simp: rdata_canonical_def)
    then obtain x y where p: "p = [x, y]" by (auto simp: numeral_2_eq_2 length_Suc_conv)
    have "ParseDomainName ((pre @ [x, y]) @ labels_image ls @ post) n (length (pre @ [x, y])) [] =
        (True, length (pre @ [x, y]) + length (labels_image ls), [] @ ls)"
      using r n p by (intro ParseDomainName_image) simp_all
    then show ?thesis
      using mx n r p by (simp add: DecompressRDATA_def EncodeDomainLabels_image nth_append)
  next
    case srv
    then obtain p ls where r: "length p = 6" "labels_wf ls" "rd = p @ labels_image ls"
      using assms(1) by (auto simp: rdata_canonical_def)
    have "ParseDomainName ((pre @ p) @ labels_image ls @ post) n (length (pre @ p)) [] =
        (True, length (pre @ p) + length (labels_image ls), [] @ ls)"
      using r n by (intro ParseDomainName_image) simp_all
    moreover have "subrange (pre @ p @ labels_image ls @ post) (length pre) 6 = p"
      using r(1) by (simp add: subrange_append_mid)
    ultimately show ?thesis
      using srv n r by (simp add: DecompressRDATA_def EncodeDomainLabels_image)
  qed
qed

lemma unat_of_nat_u16: "k \<le> 65535 \<Longrightarrow> unat (of_nat k :: u16) = k"
  by (simp add: unat_of_nat)

text \<open>What follows the owner name, whichever way the name is written.\<close>

definition answer_tail :: "DnsAnswer \<Rightarrow> bytes" where
  "answer_tail a = mem16 (m_Type a) @ mem16 (m_Class a) @ mem32 (m_Ttl a) @ mem16 (m_Rdlength a) @ m_Rdata a"

lemma answer_image_tail: "answer_image a = labels_image (m_Name a) @ answer_tail a"
  by (simp add: answer_image_def answer_tail_def)

lemma answer_FromWire_named:
  assumes wf: "answer_wf a"
    and name: "ParseDomainName (pre @ nm @ answer_tail a @ post) n (length pre) [] =
      (True, length pre + length nm, m_Name a)"
    and n: "length pre + length nm + length (answer_tail a) \<le> n"
  shows "DnsAnswer_FromWire (Some (pre @ nm @ answer_tail a @ post)) n (length pre) a0 =
    (True, length pre + length nm + length (answer_tail a), a)"
proof -
  let ?f = "mem16 (m_Type a) @ mem16 (m_Class a) @ mem32 (m_Ttl a) @ mem16 (m_Rdlength a)"
  let ?d = "pre @ nm @ ?f @ m_Rdata a @ post"
  let ?o = "length pre + length nm"
  have d: "pre @ nm @ answer_tail a @ post = ?d" by (simp add: answer_tail_def)
  have room: "?o + 10 + length (m_Rdata a) \<le> n" using n by (simp add: answer_tail_def)
  have loads: "load16 ?d ?o = m_Type a" "load16 ?d (?o + 2) = m_Class a" "load32 ?d (?o + 4) = m_Ttl a"
    "load16 ?d (?o + 8) = m_Rdlength a"
    by (simp_all add: load16_skip load16_hit load32_skip load32_hit)
  have len: "unat (NetworkToHost (m_Rdlength a)) = length (m_Rdata a)"
    using wf by (simp add: answer_wf_def rdlength_ok_def unat_of_nat_u16)
  have rd: "subrange ?d (?o + 10) (length (m_Rdata a)) = m_Rdata a"
    by (simp add: subrange_skip subrange_hit)
  have dec: "DecompressRDATA ?d n (?o + 10) (NetworkToHost (m_Type a)) = Some (m_Rdata a)"
    if "NetworkToHost (m_Type a) = 2 \<or> NetworkToHost (m_Type a) = 5 \<or> NetworkToHost (m_Type a) = 6
      \<or> NetworkToHost (m_Type a) = 12 \<or> NetworkToHost (m_Type a) = 15 \<or> NetworkToHost (m_Type a) = 33"
    using DecompressRDATA_canonical [of "NetworkToHost (m_Type a)" "m_Rdata a" "pre @ nm @ ?f" n post]
      wf that room by (simp add: answer_wf_def add.assoc)
  have "DnsAnswer_UpdateRDLENGTH (a0\<lparr>m_Name := m_Name a, m_Type := m_Type a, m_Class := m_Class a,
      m_Ttl := m_Ttl a, m_Rdata := m_Rdata a\<rparr>) = a"
    using wf by (cases a; cases a0) (simp add: DnsAnswer_UpdateRDLENGTH_def answer_wf_def rdlength_ok_def)
  then show ?thesis
    using name [unfolded d] loads len rd dec room
    by (auto simp: d DnsAnswer_FromWire_def Let_def answer_tail_def)
qed

lemma answer_FromWire_image:
  assumes wf: "answer_wf a" and n: "length pre + length (answer_image a) \<le> n"
  shows "DnsAnswer_FromWire (Some (pre @ answer_image a @ post)) n (length pre) a0 =
    (True, length pre + length (answer_image a), a)"
proof -
  have "ParseDomainName (pre @ labels_image (m_Name a) @ answer_tail a @ post) n (length pre) [] =
      (True, length pre + length (labels_image (m_Name a)), m_Name a)"
    using wf n by (subst ParseDomainName_image) (simp_all add: answer_wf_def answer_image_tail)
  from answer_FromWire_named [OF wf this, of a0] n show ?thesis by (simp add: answer_image_tail add.assoc)
qed

lemma DecompressRDATA_local:
  "DecompressRDATA (take n data) n off t = DecompressRDATA data n off t"
  by (auto simp: DecompressRDATA_def ParseDomainName_local subrange_take split: prod.splits)

lemma answer_FromWire_local:
  "DnsAnswer_FromWire (Some (take n data)) n off a = DnsAnswer_FromWire (Some data) n off a"
proof -
  obtain ok o1 ls where p: "ParseDomainName data n off [] = (ok, o1, ls)" by (metis prod_cases3)
  show ?thesis
  proof (cases "ok \<and> o1 + 10 \<le> n")
    case True
    then have "load16 (take n data) o1 = load16 data o1" "load16 (take n data) (o1 + 2) = load16 data (o1 + 2)"
      "load32 (take n data) (o1 + 4) = load32 data (o1 + 4)" "load16 (take n data) (o1 + 8) = load16 data (o1 + 8)"
      by (simp_all add: load16_take load32_take)
    then show ?thesis
      using p by (simp add: DnsAnswer_FromWire_def ParseDomainName_local DecompressRDATA_local Let_def subrange_take)
  next
    case False
    then show ?thesis using p by (auto simp: DnsAnswer_FromWire_def ParseDomainName_local)
  qed
qed

lemma answer_FromWire_bounds:
  "DnsAnswer_FromWire (Some data) n off a = (True, off', a') \<Longrightarrow> off + 11 \<le> off' \<and> off' \<le> n"
  using ParseDomainName_bounds
  by (fastforce simp: DnsAnswer_FromWire_def Let_def split: prod.splits if_splits)

interpretation answer_codec: wire_codec DnsAnswer_FromWire DnsAnswer_ToWire answer_image answer_wf 11
proof unfold_locales
  fix x :: DnsAnswer
  show "answer_image x \<noteq> []" by (simp add: answer_image_def labels_image_def)
qed (simp_all add: answer_FromWire_image answer_FromWire_local answer_FromWire_bounds
      length_answer_image answer_ToWire_image)

section \<open>Lemmas: RDATA and text\<close>

lemma record_base_simps [simp]:
  "m_Name (record_base nm t ttl) = labels_of_string nm"
  "m_Rdata (record_base nm t ttl) = []"
  "DnsAnswer_Type (record_base nm t ttl) False = t"
  "NetworkToHost (m_Type (record_base nm t ttl)) = t"
  by (simp_all add: record_base_def DnsAnswer_SetTtl_def DnsAnswer_SetRclass_def DnsAnswer_SetType_def
      DnsAnswer_SetNameFromString_def DnsAnswer_default_def DnsAnswer_Type_def)

lemma SetRdata_simps [simp]:
  "m_Rdata (DnsAnswer_SetRdata rd a) = rd"
  "m_Name (DnsAnswer_SetRdata rd a) = m_Name a"
  "m_Type (DnsAnswer_SetRdata rd a) = m_Type a"
  "DnsAnswer_Type (DnsAnswer_SetRdata rd a) raw = DnsAnswer_Type a raw"
  "rdlength_ok (DnsAnswer_SetRdata rd a)"
  by (simp_all add: DnsAnswer_SetRdata_def DnsAnswer_UpdateRDLENGTH_def DnsAnswer_Type_def rdlength_ok_def)

lemma unat_byte_less: "unat (b :: byte) < 256"
  using unsigned_less [of b, where ?'a = nat] by simp

lemma ipv4_octet_to_digits: "ipv4_octet (to_digits 10 (unat b)) = Inr b"
  using unat_byte_less [of b] unsigned_less [of b, where ?'a = int] by (simp add: ipv4_octet_def stoi_to_digits)

lemma ipv4_octets_to_digits:
  "ipv4_octets (map (\<lambda>b. to_digits 10 (unat b)) bs) acc = Inr (acc @ bs)"
  by (induction bs arbitrary: acc) (simp_all add: ipv4_octet_to_digits)

lemma ipv4_octets_length: "ipv4_octets ss acc = Inr bs \<Longrightarrow> length bs = length acc + length ss"
  by (induction ss arbitrary: acc) (auto split: sum.splits)

lemma SetRdataIpv4_dotted:
  assumes "length bs = 4"
  shows "DnsAnswer_SetRdataIpv4 (join_with CHR ''.'' (map (\<lambda>b. to_digits 10 (unat b)) bs)) a =
    Inr (DnsAnswer_SetRdata bs a)"
proof -
  let ?ss = "map (\<lambda>b. to_digits 10 (unat b)) bs"
  have ne: "?ss \<noteq> []" using assms by auto
  have "split_on CHR ''.'' (join_with CHR ''.'' ?ss) = (butlast ?ss, last ?ss)"
    using to_digits_no_sep [of 10] ne by (intro split_on_join) auto
  moreover have "butlast ?ss @ [last ?ss] = ?ss" by (rule append_butlast_last_id [OF ne])
  ultimately show ?thesis
    using assms by (simp add: DnsAnswer_SetRdataIpv4_def ipv4_octets_to_digits del: split_on.simps)
qed

definition word_bytes :: "u16 \<Rightarrow> bytes" where
  "word_bytes w = [ucast (drop_bit 8 w), ucast (w AND 0xFF)]"

lemma ipv6_bytes_to_digits:
  "ipv6_bytes (map (\<lambda>w. to_digits 16 (unat w)) ws) acc = Inr (acc @ concat (map word_bytes ws))"
proof (induction ws arbitrary: acc)
  case (Cons w ws)
  have "unat w < 65536" using unsigned_less [of w, where ?'a = nat] by simp
  then have "stoi 16 (to_digits 16 (unat w)) = Inr (int (unat w))" "int (unat w) \<le> 65535"
    using unsigned_less [of w, where ?'a = int] by (simp_all add: stoi_to_digits)
  with Cons show ?case by (simp add: word_bytes_def Let_def)
qed simp

lemma word_bytes_ipv6_word: "word_bytes (ipv6_word rd i) = [rd ! i, rd ! (i + 1)]"
proof -
  have "ucast (drop_bit 8 (push_bit 8 (ucast a) OR ucast b :: u16)) = a" for a b :: byte
    by (rule bit_word_eqI) (auto simp: bit_simps bit_byte_ge)
  moreover have "ucast ((push_bit 8 (ucast a) OR ucast b :: u16) AND 0xFF) = b" for a b :: byte
    by (rule bit_word_eqI) (auto simp: bit_simps mask255)
  ultimately show ?thesis by (simp only: word_bytes_def ipv6_word_def)
qed

definition ipv6_indices :: "nat list" where
  "ipv6_indices = [0, 2, 4, 6, 8, 10, 12, 14]"

lemma length_16_pairs:
  assumes "length rd = 16"
  shows "concat (map (\<lambda>i. [rd ! i, rd ! (i + 1)]) ipv6_indices) = rd"
proof -
  have "concat (map (\<lambda>i. [rd ! i, rd ! (i + 1)]) ipv6_indices) = map ((!) rd) [0..<16]"
    by (simp add: ipv6_indices_def upt_rec numeral_eq_Suc)
  then show ?thesis using assms by (metis map_nth)
qed

lemma ipv6_stream_join:
  "DnsAnswer_Type a False = 28 \<Longrightarrow> length (m_Rdata a) = 16 \<Longrightarrow>
   DnsAnswer_RdataAsIpv6 a =
     Inr (join_with CHR '':'' (map (\<lambda>w. to_digits 16 (unat w)) (map (ipv6_word (m_Rdata a)) ipv6_indices)))"
  by (simp add: DnsAnswer_RdataAsIpv6_def ipv6_indices_def)

lemma SetRdataIpv6_groups:
  assumes "length ws = 8"
  shows "DnsAnswer_SetRdataIpv6 (join_with CHR '':'' (map (\<lambda>w. to_digits 16 (unat w)) ws)) a =
    Inr (DnsAnswer_SetRdata (concat (map word_bytes ws)) a)"
proof -
  let ?ss = "map (\<lambda>w. to_digits 16 (unat (w :: u16))) ws"
  have ne: "?ss \<noteq> []" using assms by auto
  have "split_on CHR '':'' (join_with CHR '':'' ?ss) = (butlast ?ss, last ?ss)"
    using to_digits_no_sep [of 16] ne by (intro split_on_join) auto
  moreover have "split_double_colon (join_with CHR '':'' ?ss) = None"
    using to_digits_no_sep [of 16] by (intro split_double_colon_join) auto
  moreover have "butlast ?ss @ [last ?ss] = ?ss" by (rule append_butlast_last_id [OF ne])
  ultimately have "ipv6_all_groups (join_with CHR '':'' ?ss) = Inr ?ss"
    by (simp add: ipv6_all_groups_def)
  moreover have "length (concat (map word_bytes ws)) = 2 * length ws"
    by (induction ws) (simp_all add: word_bytes_def)
  ultimately show ?thesis
    using assms by (simp add: DnsAnswer_SetRdataIpv6_def ipv6_bytes_to_digits)
qed

lemma ipv6_bytes_length: "ipv6_bytes gs acc = Inr bs \<Longrightarrow> length bs = length acc + 2 * length gs"
  by (induction gs arbitrary: acc) (auto simp: Let_def split: sum.splits if_splits)

section \<open>Properties\<close>

text \<open>Parsing a resource record reads no byte at or beyond \<^verbatim>\<open>p_Size\<close>, names inside RDATA included; a
  successful parse advances by at least eleven bytes and not past the end, leaves a record whose
  RDLENGTH is that of the RDATA stored, and a failed one leaves the object alone.\<close>

theorem answer_FromWire_memory_safe:
  "DnsAnswer_FromWire (Some (data @ junk)) (length data) off a =
   DnsAnswer_FromWire (Some data) (length data) off a \<and>
   (case DnsAnswer_FromWire (Some data) n off a of (ok, off', a') \<Rightarrow>
      (if ok then off + 11 \<le> off' \<and> off' \<le> n \<and> rdlength_ok a' else a' = a))"
proof
  show "DnsAnswer_FromWire (Some (data @ junk)) (length data) off a =
      DnsAnswer_FromWire (Some data) (length data) off a"
    using answer_FromWire_local [of "length data" "data @ junk" off a] by simp
  have "a' = a" if "DnsAnswer_FromWire (Some data) n off a = (False, off', a')" for off' a'
    using that by (auto simp: DnsAnswer_FromWire_def Let_def split: prod.splits if_splits)
  moreover have "rdlength_ok a'" if "DnsAnswer_FromWire (Some data) n off a = (True, off', a')" for off' a'
    using that by (auto simp: DnsAnswer_FromWire_def DnsAnswer_UpdateRDLENGTH_def rdlength_ok_def Let_def
        split: prod.splits if_splits)
  ultimately show "case DnsAnswer_FromWire (Some data) n off a of (ok, off', a') \<Rightarrow>
      (if ok then off + 11 \<le> off' \<and> off' \<le> n \<and> rdlength_ok a' else a' = a)"
    using answer_FromWire_bounds [of data n off a] by (auto split: prod.split)
qed

text \<open>The names inside the RDATA of NS, CNAME and PTR records are decompressed on arrival: if the
  record parses and a name with labels \<open>ls\<close> starts where its RDATA starts (through at most sixteen
  pointers, wherever in the message they lead), the stored RDATA is the uncompressed form of \<open>ls\<close>, and
  \<^verbatim>\<open>RdataAsDomainName\<close> returns the dotted name, without needing the message any more.\<close>

theorem rdata_names_decompressed:
  assumes "DnsAnswer_FromWire (Some data) n off a0 = (True, off', a)" and "n \<le> length data"
    and "DnsAnswer_Type a False \<in> {2, 5, 12}"
    and "ParseDomainName data n off [] = (True, noff, nls)"
    and "name_at data n (noff + 10) ls j k" and "k \<le> DNS_MAX_POINTER_HOPS"
  shows "m_Rdata a = labels_image ls \<and> m_Name a = nls \<and>
    DnsAnswer_RdataAsDomainName a = Inr (join_with CHR ''.'' ls)"
proof -
  have wf: "labels_wf ls" using assms(2,5) name_at_labels_wf by blast
  have p: "ParseDomainName data n (noff + 10) [] = (True, j, ls)"
    using assms(5,6) by (auto simp: ParseDomainName_iff)
  from assms(1,3,4) p wf have rd: "m_Rdata a = labels_image ls" and nm: "m_Name a = nls"
    by (auto simp: DnsAnswer_FromWire_def DnsAnswer_UpdateRDLENGTH_def DnsAnswer_Type_def Let_def
        DecompressRDATA_def EncodeDomainLabels_image split: if_splits)
  have "ParseDomainName (labels_image ls) (length (labels_image ls)) 0 [] = (True, length (labels_image ls), ls)"
    using ParseDomainName_image [OF wf, of "[]" "length (labels_image ls)" "[]" "[]"] by simp
  moreover have "(if ls = [] then [] else QnameAsString_loop 0 ls []) = join_with CHR ''.'' ls"
    by (cases ls) (simp_all add: QnameAsString_loop_join join_with_Cons)
  ultimately show ?thesis
    using assms(3) rd nm by (auto simp: DnsAnswer_RdataAsDomainName_def Let_def split: if_splits)
qed

text \<open>A message with the name \<^verbatim>\<open>a\<close> at offset 0 and, at offset 3, a CNAME record whose owner and target are
  pointers to it.\<close>

definition pointer_message :: bytes where
  "pointer_message = [1, 97, 0, 0xC0, 0, 0, 5, 0, 1, 0, 0, 0, 0, 0, 2, 0xC0, 0]"

theorem rdata_names_decompressed_witness:
  "\<exists>a. DnsAnswer_FromWire (Some pointer_message) 17 3 DnsAnswer_default = (True, 17, a) \<and>
     m_Rdata a = labels_image [''a''] \<and> DnsAnswer_RdataAsDomainName a = Inr (join_with CHR ''.'' [''a''])"
proof -
  obtain ok off a where p: "DnsAnswer_FromWire (Some pointer_message) 17 3 DnsAnswer_default = (ok, off, a)"
    by (metis prod_cases3)
  have "case DnsAnswer_FromWire (Some pointer_message) 17 3 DnsAnswer_default of
      (ok, off, a) \<Rightarrow> ok \<and> off = 17 \<and> DnsAnswer_Type a False = 5" by code_simp
  then have f: "DnsAnswer_FromWire (Some pointer_message) 17 3 DnsAnswer_default = (True, 17, a)"
    and t: "DnsAnswer_Type a False \<in> {2, 5, 12}" by (simp_all add: p)
  have "ParseDomainName pointer_message 17 15 [] = (True, 17, [''a''])" by code_simp
  then obtain k where k: "name_at pointer_message 17 (5 + 10) [''a''] 17 k" "k \<le> DNS_MAX_POINTER_HOPS"
    by (auto simp: ParseDomainName_iff)
  have nm: "ParseDomainName pointer_message 17 3 [] = (True, 5, [''a''])" by code_simp
  have "17 \<le> length pointer_message" by (simp add: pointer_message_def)
  from rdata_names_decompressed [OF f this t nm k] f show ?thesis by blast
qed

text \<open>A record that is stored uncompressed (\<open>answer_wf\<close>), written into a message, reads back at that
  position as the same record, and the reader stops exactly behind it.\<close>

theorem answer_wire_roundtrip:
  assumes "answer_wf a" and "DnsAnswer_WireSize a \<le> length buf"
  shows "\<exists>out. DnsAnswer_ToWire a (Some buf) (length buf) = (DnsAnswer_WireSize a, Some out) \<and>
    length out = length buf \<and>
    DnsAnswer_FromWire (Some (pre @ out)) (length pre + length out) (length pre) a0 =
      (True, length pre + DnsAnswer_WireSize a, a)"
proof -
  let ?out = "answer_image a @ drop (DnsAnswer_WireSize a) buf"
  have "DnsAnswer_FromWire (Some (pre @ ?out)) (length pre + length ?out) (length pre) a0 =
      (True, length pre + length (answer_image a), a)"
    using assms(1) by (intro answer_FromWire_image) simp_all
  then show ?thesis
    using assms(2) answer_ToWire_image [of a "length buf" buf]
    by (simp add: length_answer_image)
qed

theorem answer_wire_roundtrip_witness:
  "\<exists>out. DnsAnswer_ToWire (DnsAnswer_MakeNsRecord ''a'' ''b'' 60) (Some (replicate 20 7)) 20 = (16, Some out) \<and>
    DnsAnswer_FromWire (Some (replicate 12 0 @ out)) 32 12 DnsAnswer_default =
      (True, 28, DnsAnswer_MakeNsRecord ''a'' ''b'' 60)"
proof -
  let ?a = "DnsAnswer_MakeNsRecord ''a'' ''b'' 60"
  have labels: "labels_of_string ''a'' = [''a'']" "labels_of_string ''b'' = [''b'']" by code_simp+
  have "rdata_canonical 2 (labels_image [''b''])"
    by (auto simp: rdata_canonical_def labels_wf_def intro!: exI [of _ "[''b'']"])
  then have "answer_wf ?a"
    by (simp add: labels DnsAnswer_MakeNsRecord_def DnsAnswer_SetRdataDomainName_def encode_short_labels_image
        answer_wf_def labels_wf_def) (simp add: labels_image_def)
  moreover have "DnsAnswer_WireSize ?a = 16"
    by (simp add: labels DnsAnswer_MakeNsRecord_def DnsAnswer_SetRdataDomainName_def DnsAnswer_WireSize_def labels_WireSize_def)
  ultimately show ?thesis
    using answer_wire_roundtrip [of ?a "replicate 20 7" "replicate 12 0" DnsAnswer_default] by auto
qed

text \<open>IPv4 text and RDATA: whatever \<^verbatim>\<open>SetRdataIpv4\<close> accepts becomes exactly four bytes with a matching
  RDLENGTH, and the dotted text that \<^verbatim>\<open>RdataAsIpv4\<close> prints for four bytes makes \<^verbatim>\<open>MakeARecord\<close> rebuild the
  same record.\<close>

theorem ipv4_record_text_roundtrip:
  "(case DnsAnswer_SetRdataIpv4 s a of
      Inl e \<Rightarrow> \<exists>what. e = Invalid_argument what
    | Inr a' \<Rightarrow> length (m_Rdata a') = 4 \<and> rdlength_ok a' \<and> m_Name a' = m_Name a) \<and>
   (let r = DnsAnswer_SetRdata [b0, b1, b2, b3] (record_base nm 1 ttl) in
    case DnsAnswer_RdataAsIpv4 r of
      Inl _ \<Rightarrow> False
    | Inr text \<Rightarrow> DnsAnswer_MakeARecord nm text ttl = Inr r)"
proof
  have "\<exists>what. e = Invalid_argument what" if "ipv4_octets ss acc = Inl e" for ss acc e
    using that by (induction ss arbitrary: acc) (auto simp: ipv4_octet_def split: sum.splits if_splits)
  then show "case DnsAnswer_SetRdataIpv4 s a of
      Inl e \<Rightarrow> \<exists>what. e = Invalid_argument what
    | Inr a' \<Rightarrow> length (m_Rdata a') = 4 \<and> rdlength_ok a' \<and> m_Name a' = m_Name a"
    by (auto simp: DnsAnswer_SetRdataIpv4_def split: sum.splits prod.splits if_splits)
  let ?r = "DnsAnswer_SetRdata [b0, b1, b2, b3] (record_base nm 1 ttl)"
  have "DnsAnswer_RdataAsIpv4 ?r = Inr (join_with CHR ''.'' (map (\<lambda>b. to_digits 10 (unat b)) [b0, b1, b2, b3]))"
    by (simp add: DnsAnswer_RdataAsIpv4_def)
  then show "let r = ?r in
    case DnsAnswer_RdataAsIpv4 r of Inl _ \<Rightarrow> False | Inr text \<Rightarrow> DnsAnswer_MakeARecord nm text ttl = Inr r"
    by (simp add: DnsAnswer_MakeARecord_def SetRdataIpv4_dotted Let_def del: list.map join_with.simps)
qed

text \<open>IPv6 text and RDATA: whatever \<^verbatim>\<open>SetRdataIpv6\<close> accepts becomes exactly sixteen bytes, and the text
  that \<^verbatim>\<open>RdataAsIpv6\<close> prints for sixteen bytes makes \<^verbatim>\<open>MakeAaaaRecord\<close> rebuild the same record.\<close>

theorem ipv6_record_text_roundtrip:
  assumes "length rd = 16"
  shows "(case DnsAnswer_SetRdataIpv6 s a of
      Inl e \<Rightarrow> \<exists>what. e = Invalid_argument what
    | Inr a' \<Rightarrow> length (m_Rdata a') = 16 \<and> rdlength_ok a' \<and> m_Name a' = m_Name a) \<and>
   (let r = DnsAnswer_SetRdata rd (record_base nm 28 ttl) in
    case DnsAnswer_RdataAsIpv6 r of
      Inl _ \<Rightarrow> False
    | Inr text \<Rightarrow> DnsAnswer_MakeAaaaRecord nm text ttl = Inr r)"
proof
  have "\<exists>what. e = Invalid_argument what" if "ipv6_bytes ss acc = Inl e" for ss acc e
    using that by (induction ss arbitrary: acc) (auto simp: Let_def split: sum.splits if_splits)
  then show "case DnsAnswer_SetRdataIpv6 s a of
      Inl e \<Rightarrow> \<exists>what. e = Invalid_argument what
    | Inr a' \<Rightarrow> length (m_Rdata a') = 16 \<and> rdlength_ok a' \<and> m_Name a' = m_Name a"
    by (auto simp: DnsAnswer_SetRdataIpv6_def ipv6_all_groups_def Let_def
        split: sum.splits option.splits prod.splits if_splits)
  let ?r = "DnsAnswer_SetRdata rd (record_base nm 28 ttl)"
  let ?ws = "map (ipv6_word rd) ipv6_indices"
  have "DnsAnswer_RdataAsIpv6 ?r = Inr (join_with CHR '':'' (map (\<lambda>w. to_digits 16 (unat w)) ?ws))"
    using assms ipv6_stream_join [of ?r] by simp
  moreover have "concat (map word_bytes ?ws) = rd"
    using length_16_pairs [OF assms] by (simp add: word_bytes_ipv6_word comp_def)
  moreover have "length ?ws = 8" by (simp add: ipv6_indices_def)
  ultimately show "let r = ?r in
    case DnsAnswer_RdataAsIpv6 r of Inl _ \<Rightarrow> False | Inr text \<Rightarrow> DnsAnswer_MakeAaaaRecord nm text ttl = Inr r"
    using SetRdataIpv6_groups [of ?ws "record_base nm 28 ttl"]
    by (simp only: DnsAnswer_MakeAaaaRecord_def Let_def sum.case)
qed

theorem ipv6_record_text_roundtrip_witness:
  "let r = DnsAnswer_SetRdata (replicate 16 0xAB) (record_base ''v6'' 28 60) in
    case DnsAnswer_RdataAsIpv6 r of
      Inl _ \<Rightarrow> False
    | Inr text \<Rightarrow> DnsAnswer_MakeAaaaRecord ''v6'' text 60 = Inr r"
  using ipv6_record_text_roundtrip [of "replicate 16 0xAB" DnsAnswer_default "''::1''" "''v6''" 60] by simp

text \<open>Text and name RDATA: a string of at most 255 bytes that is stored in a TXT record is read back
  unchanged and a longer one is rejected; the target stored in a CNAME, PTR or NS record is read back as
  its valid labels, dotted, and the record is well-formed whenever its target is not too long to encode.\<close>

theorem text_and_name_records:
  "(if length t \<le> 255
    then \<exists>r. DnsAnswer_MakeTxtRecord nm t ttl = Inr r \<and> DnsAnswer_RdataAsText r = Inr t
    else \<exists>what. DnsAnswer_MakeTxtRecord nm t ttl = Inl (Invalid_argument what)) \<and>
   (\<forall>r \<in> {DnsAnswer_MakeCnameRecord nm t ttl, DnsAnswer_MakePtrRecord nm t ttl, DnsAnswer_MakeNsRecord nm t ttl}.
      DnsAnswer_RdataAsDomainName r = Inr (join_with CHR ''.'' (labels_of_string t)) \<and>
      (length (labels_image (labels_of_string t)) \<le> 65535 \<longrightarrow> answer_wf r))"
proof
  let ?rd = "of_nat (length t) # bytes_of_string t"
  have "RdataAsText_loop ?rd 0 [] = t" if "length t \<le> 255"
  proof -
    have "RdataAsText_loop ?rd 0 [] = RdataAsText_loop ?rd (1 + length t) t"
      using that by (subst RdataAsText_loop.simps) (simp add: unat_of_nat subrange_def Let_def)
    also have "\<dots> = t" by (subst RdataAsText_loop.simps) simp
    finally show ?thesis .
  qed
  then show "if length t \<le> 255
    then \<exists>r. DnsAnswer_MakeTxtRecord nm t ttl = Inr r \<and> DnsAnswer_RdataAsText r = Inr t
    else \<exists>what. DnsAnswer_MakeTxtRecord nm t ttl = Inl (Invalid_argument what)"
    by (simp add: DnsAnswer_MakeTxtRecord_def DnsAnswer_SetRdataText_def DnsAnswer_RdataAsText_def)
next
  let ?ls = "labels_of_string t"
  have wf: "labels_wf ?ls" "labels_wf (labels_of_string nm)"
    by (intro valid_labels_wf labels_of_string_valid)+
  have "ParseDomainName (labels_image ?ls) (length (labels_image ?ls)) 0 [] = (True, length (labels_image ?ls), ?ls)"
    using ParseDomainName_image [OF wf(1), of "[]" "length (labels_image ?ls)" "[]" "[]"] by simp
  moreover have "(if ?ls = [] then [] else QnameAsString_loop 0 ?ls []) = join_with CHR ''.'' ?ls"
    by (cases ?ls) (simp_all add: QnameAsString_loop_join join_with_Cons)
  ultimately have "DnsAnswer_RdataAsDomainName (DnsAnswer_SetRdataDomainName t (record_base nm ty ttl)) =
      Inr (join_with CHR ''.'' ?ls) \<and>
      (length (labels_image ?ls) \<le> 65535 \<longrightarrow> answer_wf (DnsAnswer_SetRdataDomainName t (record_base nm ty ttl)))"
    if "ty = 2 \<or> ty = 5 \<or> ty = 12" for ty
    using that wf by (auto simp: DnsAnswer_RdataAsDomainName_def DnsAnswer_SetRdataDomainName_def
        encode_short_labels_image answer_wf_def rdata_canonical_def Let_def split: if_splits)
  then show "\<forall>r \<in> {DnsAnswer_MakeCnameRecord nm t ttl, DnsAnswer_MakePtrRecord nm t ttl, DnsAnswer_MakeNsRecord nm t ttl}.
      DnsAnswer_RdataAsDomainName r = Inr (join_with CHR ''.'' ?ls) \<and>
      (length (labels_image ?ls) \<le> 65535 \<longrightarrow> answer_wf r)"
    by (simp add: DnsAnswer_MakeCnameRecord_def DnsAnswer_MakePtrRecord_def DnsAnswer_MakeNsRecord_def)
qed

theorem text_and_name_records_witness:
  "answer_wf (DnsAnswer_MakeCnameRecord ''a'' ''b.c'' 60) \<and>
   DnsAnswer_RdataAsDomainName (DnsAnswer_MakePtrRecord ''a'' ''b.c'' 60) = Inr ''b.c''"
proof -
  have "labels_of_string ''b.c'' = [''b'', ''c'']" by code_simp
  then show ?thesis
    using text_and_name_records [of "''b.c''" "''a''" 60] by (simp add: labels_image_def label_image_def)
qed

end
