(* ===== verification/Dns_Packet.thy ===== *)
theory Dns_Packet
  imports Dns_Answer
begin

unbundle bit_operations_syntax

text \<open>
  \<^verbatim>\<open>class DnsRequestPacket\<close> and \<^verbatim>\<open>class DnsResponsePacket\<close> (\<^verbatim>\<open>include/dns_packet.h\<close>, \<^verbatim>\<open>src/dns_packet.cc\<close>) and the
  EDNS types of \<^verbatim>\<open>include/dns_edns0.h\<close>. A packet is a header and its sections; its \<^verbatim>\<open>FromWire\<close> and \<^verbatim>\<open>ToWire\<close> run
  the section loops of \<open>Wire_Codec\<close> over the question and record codecs. The output object is threaded
  through \<^verbatim>\<open>FromWire\<close>, so a failed parse leaves it as the source does, partly filled.

  The additional section of a request is scanned for an OPT record by a loop with early returns;
  \<open>edns_record\<close> is its body and \<open>edns_inv\<close> the invariant that ties the status to the data.
\<close>

section \<open>EDNS data\<close>

record EdnsOption =
  m_Code :: u16
  m_Data :: bytes

record EdnsData =
  m_UdpPayloadSize :: u16
  m_ExtendedRcode :: u8
  m_Version :: u8
  m_DoBit :: bool
  m_Options :: "EdnsOption list"

datatype EdnsParseStatus = Edns_None | Edns_Ok | Edns_BadVersion | Edns_DuplicateOpt | Edns_Malformed

section \<open>Request packets\<close>

record DnsRequestPacket =
  req_Header :: DnsHeader
  req_Questions :: "DnsQuestion list"
  req_Edns :: "EdnsData option"
  req_EdnsStatus :: EdnsParseStatus

definition DnsRequestPacket_default :: DnsRequestPacket where
  "DnsRequestPacket_default =
     \<lparr>req_Header = DnsHeader_default, req_Questions = [], req_Edns = None, req_EdnsStatus = Edns_None\<rparr>"

definition DnsRequestPacket_UpdateHeaderCounts :: "DnsRequestPacket \<Rightarrow> DnsRequestPacket" where
  "DnsRequestPacket_UpdateHeaderCounts p =
     p\<lparr>req_Header := DnsHeader_UpdateCounts (of_nat (length (req_Questions p))) 0 0 0 (req_Header p)\<rparr>"

definition DnsRequestPacket_ctor :: "DnsHeader \<Rightarrow> DnsQuestion list \<Rightarrow> DnsRequestPacket" where
  "DnsRequestPacket_ctor p_Header p_Questions =
     DnsRequestPacket_UpdateHeaderCounts
       (DnsRequestPacket_default\<lparr>req_Header := p_Header, req_Questions := p_Questions\<rparr>)"

definition DnsRequestPacket_SetHeader :: "DnsHeader \<Rightarrow> DnsRequestPacket \<Rightarrow> DnsRequestPacket" where
  "DnsRequestPacket_SetHeader p_Header p = p\<lparr>req_Header := p_Header\<rparr>"

definition DnsRequestPacket_AddQuestion :: "DnsQuestion \<Rightarrow> DnsRequestPacket \<Rightarrow> DnsRequestPacket" where
  "DnsRequestPacket_AddQuestion q p =
     DnsRequestPacket_UpdateHeaderCounts (p\<lparr>req_Questions := req_Questions p @ [q]\<rparr>)"

definition DnsRequestPacket_ClearQuestions :: "DnsRequestPacket \<Rightarrow> DnsRequestPacket" where
  "DnsRequestPacket_ClearQuestions p = DnsRequestPacket_UpdateHeaderCounts (p\<lparr>req_Questions := []\<rparr>)"

definition DnsRequestPacket_HasEdns :: "DnsRequestPacket \<Rightarrow> bool" where
  "DnsRequestPacket_HasEdns p \<longleftrightarrow> req_Edns p \<noteq> None"

definition DnsRequestPacket_SetEdns :: "EdnsData \<Rightarrow> EdnsParseStatus \<Rightarrow> DnsRequestPacket \<Rightarrow> DnsRequestPacket" where
  "DnsRequestPacket_SetEdns p_Edns p_Status p = p\<lparr>req_Edns := Some p_Edns, req_EdnsStatus := p_Status\<rparr>"

definition DnsRequestPacket_SetEdnsStatus :: "EdnsParseStatus \<Rightarrow> DnsRequestPacket \<Rightarrow> DnsRequestPacket" where
  "DnsRequestPacket_SetEdnsStatus p_Status p = p\<lparr>req_EdnsStatus := p_Status\<rparr>"

definition DnsRequestPacket_MakeAQuery :: "u16 \<Rightarrow> string \<Rightarrow> bool \<Rightarrow> DnsRequestPacket" where
  "DnsRequestPacket_MakeAQuery p_Id p_DomainName p_RecursionDesired =
     DnsRequestPacket_ctor (DnsHeader_MakeQueryHeader p_Id 0 p_RecursionDesired 1)
       [DnsQuestion_MakeAQuery p_DomainName]"

definition DnsRequestPacket_MakeAaaaQuery :: "u16 \<Rightarrow> string \<Rightarrow> bool \<Rightarrow> DnsRequestPacket" where
  "DnsRequestPacket_MakeAaaaQuery p_Id p_DomainName p_RecursionDesired =
     DnsRequestPacket_ctor (DnsHeader_MakeQueryHeader p_Id 0 p_RecursionDesired 1)
       [DnsQuestion_MakeAaaaQuery p_DomainName]"

definition DnsRequestPacket_MakePtrQuery :: "u16 \<Rightarrow> string \<Rightarrow> bool \<Rightarrow> DnsRequestPacket" where
  "DnsRequestPacket_MakePtrQuery p_Id p_IpAddress p_RecursionDesired =
     DnsRequestPacket_ctor (DnsHeader_MakeQueryHeader p_Id 0 p_RecursionDesired 1)
       [DnsQuestion_MakePtrQuery p_IpAddress]"

definition DnsRequestPacket_swap ::
  "DnsRequestPacket \<Rightarrow> DnsRequestPacket \<Rightarrow> DnsRequestPacket \<times> DnsRequestPacket" where
  "DnsRequestPacket_swap p o' =
     (p\<lparr>req_Header := fst (DnsHeader_swap (req_Header p) (req_Header o')), req_Questions := req_Questions o',
        req_Edns := req_Edns o', req_EdnsStatus := req_EdnsStatus o'\<rparr>,
      o'\<lparr>req_Header := snd (DnsHeader_swap (req_Header p) (req_Header o')), req_Questions := req_Questions p,
        req_Edns := req_Edns p, req_EdnsStatus := req_EdnsStatus p\<rparr>)"

definition DnsRequestPacket_clear :: "DnsRequestPacket \<Rightarrow> DnsRequestPacket" where
  "DnsRequestPacket_clear p =
     p\<lparr>req_Header := DnsHeader_clear (req_Header p), req_Questions := [], req_Edns := None,
       req_EdnsStatus := Edns_None\<rparr>"

definition DnsRequestPacket_Valid :: "DnsRequestPacket \<Rightarrow> bool" where
  "DnsRequestPacket_Valid p \<longleftrightarrow>
     (if \<not> DnsHeader_Valid (req_Header p) then False
      else if \<not> DnsHeader_IsQuery (req_Header p) then False
      else if unat (DnsHeader_Qdcount (req_Header p) False) \<noteq> length (req_Questions p) then False
      else if DnsHeader_Ancount (req_Header p) False \<noteq> 0 \<or> DnsHeader_Nscount (req_Header p) False \<noteq> 0 then False
      else if DnsHeader_Arcount (req_Header p) False \<noteq> 0 \<and> req_Edns p = None \<and> req_EdnsStatus p = Edns_None
      then False
      else list_all DnsQuestion_Valid (req_Questions p))"

definition DnsRequestPacket_Hash ::
  "(DnsHeader \<Rightarrow> u64) \<Rightarrow> (DnsQuestion \<Rightarrow> u64) \<Rightarrow> DnsRequestPacket \<Rightarrow> u64" where
  "DnsRequestPacket_Hash hash_header hash_question p =
     foldl (\<lambda>s q. hash_combine s (hash_question q)) (hash_header (req_Header p)) (req_Questions p)"

definition DnsRequestPacket_WireSize :: "DnsRequestPacket \<Rightarrow> nat" where
  "DnsRequestPacket_WireSize p =
     DnsHeader_HeaderSize + foldl (\<lambda>s_Sum q. s_Sum + DnsQuestion_WireSize q) 0 (req_Questions p)"

subsection \<open>The OPT scan\<close>

text \<open>Skipping the owner name of an additional record; the label walk takes any length byte that is not a
  pointer.\<close>

function walk_name :: "bytes \<Rightarrow> nat \<Rightarrow> nat \<Rightarrow> nat" where
  "walk_name s_Wire p_Size s_Pos =
     (if s_Pos < p_Size then
        (let s_Len = s_Wire ! s_Pos in
         if s_Len = 0 then s_Pos + 1
         else if s_Len AND 0xC0 = 0xC0 then s_Pos + 2
         else walk_name s_Wire p_Size (s_Pos + (1 + unat s_Len)))
      else s_Pos)"
  by pat_completeness auto
termination
  by (relation "measure (\<lambda>(d, n, i). n - i)") auto

declare walk_name.simps [simp del]

definition edns_name_end :: "bytes \<Rightarrow> nat \<Rightarrow> nat \<Rightarrow> nat option" where
  "edns_name_end s_Wire p_Size s_Offset =
     (let s_NameByte = s_Wire ! s_Offset in
      if s_NameByte = 0 then Some (s_Offset + 1)
      else if s_NameByte AND 0xC0 = 0xC0 then
        (if s_Offset + 2 > p_Size then None else Some (s_Offset + 2))
      else let s_Pos = walk_name s_Wire p_Size s_Offset
           in if s_Pos > p_Size then None else Some s_Pos)"

text \<open>The options of the OPT RDATA that ends at \<open>end\<close>; \<open>None\<close> when an option runs past it.\<close>

function edns_options :: "bytes \<Rightarrow> nat \<Rightarrow> nat \<Rightarrow> EdnsOption list \<Rightarrow> EdnsOption list option" where
  "edns_options s_Wire rd_end s_OptOffset acc =
     (if s_OptOffset + 4 \<le> rd_end then
        (let s_OptCode = NetworkToHost (load16 s_Wire s_OptOffset);
             s_OptLen = unat (NetworkToHost (load16 s_Wire (s_OptOffset + 2)))
         in if s_OptOffset + 4 + s_OptLen > rd_end then None
            else edns_options s_Wire rd_end (s_OptOffset + (4 + s_OptLen))
                   (acc @ [\<lparr>m_Code = s_OptCode, m_Data = subrange s_Wire (s_OptOffset + 4) s_OptLen\<rparr>]))
      else Some acc)"
  by pat_completeness auto
termination
  by (relation "measure (\<lambda>(d, e, i, _). e - i)") auto

declare edns_options.simps [simp del]

text \<open>The state of the loop: \<^verbatim>\<open>s_Offset\<close>, \<^verbatim>\<open>s_OptCount\<close>, \<^verbatim>\<open>m_Edns_\<close> and \<^verbatim>\<open>m_EdnsStatus_\<close>. One iteration either
  goes on or returns from \<^verbatim>\<open>FromWire\<close> (with the value true).\<close>

type_synonym edns_state = "nat \<times> nat \<times> EdnsData option \<times> EdnsParseStatus"

datatype 'a flow = Continue 'a | Return 'a

definition edns_ttl_fields :: "u32 \<Rightarrow> u8 \<times> u8 \<times> bool" where
  "edns_ttl_fields s_Ttl =
     (ucast (drop_bit 24 s_Ttl AND 0xFF), ucast (drop_bit 16 s_Ttl AND 0xFF), drop_bit 15 s_Ttl AND 0x01 \<noteq> 0)"

text \<open>The fixed fields and options of an OPT record whose owner name ends at \<^verbatim>\<open>s_NameEnd\<close>; \<open>None\<close> where the source
  sets \<^verbatim>\<open>Malformed\<close> and returns.\<close>

definition edns_opt_data :: "bytes \<Rightarrow> nat \<Rightarrow> nat \<Rightarrow> EdnsData option" where
  "edns_opt_data s_Wire p_Size s_NameEnd =
     (let s_PayloadSize = NetworkToHost (load16 s_Wire (s_NameEnd + 2));
          (ercode, version, dobit) = edns_ttl_fields (NetworkToHost (load32 s_Wire (s_NameEnd + 4)));
          s_Rdlen = unat (NetworkToHost (load16 s_Wire (s_NameEnd + 8)));
          s_RdataStart = s_NameEnd + 10
      in if s_RdataStart + s_Rdlen > p_Size then None
         else map_option (\<lambda>opts. \<lparr>m_UdpPayloadSize = if s_PayloadSize < 512 then 512 else s_PayloadSize,
                                m_ExtendedRcode = ercode, m_Version = version, m_DoBit = dobit,
                                m_Options = opts\<rparr>)
                (edns_options s_Wire (s_RdataStart + s_Rdlen) s_RdataStart []))"

definition edns_record :: "bytes \<Rightarrow> nat \<Rightarrow> edns_state \<Rightarrow> edns_state flow" where
  "edns_record s_Wire p_Size st =
     (let (s_Offset, s_OptCount, edns, status) = st in
      if s_Offset + 11 > p_Size then Return (s_Offset, s_OptCount, edns, Edns_Malformed)
      else (case edns_name_end s_Wire p_Size s_Offset of
        None \<Rightarrow> Return (s_Offset, s_OptCount, edns, Edns_Malformed)
      | Some s_NameEnd \<Rightarrow>
          if s_NameEnd + 10 > p_Size then Return (s_Offset, s_OptCount, edns, Edns_Malformed)
          else
            let s_NameByte = s_Wire ! s_Offset;
                s_Type = NetworkToHost (load16 s_Wire s_NameEnd);
                s_Rdlen = unat (NetworkToHost (load16 s_Wire (s_NameEnd + 8)));
                s_Next = s_NameEnd + 10 + s_Rdlen
            in if s_Type = 41 then
                 (let s_OptCount = s_OptCount + 1 in
                  if s_OptCount > 1 then Continue (s_Next, s_OptCount, edns, Edns_DuplicateOpt)
                  else if s_NameByte \<noteq> 0 \<or> s_NameEnd \<noteq> s_Offset + 1
                  then Continue (s_Next, s_OptCount, edns, Edns_Malformed)
                  else (case edns_opt_data s_Wire p_Size s_NameEnd of
                          None \<Rightarrow> Return (s_Offset, s_OptCount, edns, Edns_Malformed)
                        | Some e \<Rightarrow>
                            Continue (s_Next, s_OptCount, Some e,
                              if m_Version e > 0 then Edns_BadVersion
                              else if status = Edns_None then Edns_Ok else status)))
               else Continue (s_Next, s_OptCount, edns, status)))"

primrec edns_loop :: "bytes \<Rightarrow> nat \<Rightarrow> nat \<Rightarrow> edns_state \<Rightarrow> edns_state" where
  "edns_loop s_Wire p_Size 0 st = st"
| "edns_loop s_Wire p_Size (Suc n) st =
     (case edns_record s_Wire p_Size st of
        Continue st' \<Rightarrow> edns_loop s_Wire p_Size n st'
      | Return st' \<Rightarrow> st')"

subsection \<open>Parsing and serialising requests\<close>

definition DnsRequestPacket_FromWire ::
  "bytes option \<Rightarrow> nat \<Rightarrow> DnsRequestPacket \<Rightarrow> bool \<times> DnsRequestPacket" where
  "DnsRequestPacket_FromWire p_Data p_Size p =
     (case p_Data of
        None \<Rightarrow> (False, p)
      | Some d \<Rightarrow>
          if p_Size < DnsHeader_HeaderSize then (False, p)
          else
            let (ok, h) = DnsHeader_FromWire (Some d) DnsHeader_HeaderSize (req_Header p);
                p = p\<lparr>req_Header := h\<rparr>
            in if \<not> ok then (False, p)
               else if DnsHeader_IsResponse h then (False, p)
               else
                 let (ok, s_Offset, qs) = parse_section DnsQuestion_FromWire DnsQuestion_default (Some d) p_Size
                        (unat (DnsHeader_Qdcount h False)) DnsHeader_HeaderSize [];
                     p = p\<lparr>req_Questions := qs\<rparr>
                 in if \<not> ok then (False, p)
                    else if length qs \<noteq> unat (DnsHeader_Qdcount h False) then (False, p)
                    else if DnsHeader_Ancount h False \<noteq> 0 \<or> DnsHeader_Nscount h False \<noteq> 0 then (False, p)
                    else
                      let (_, _, edns, status) =
                            edns_loop d p_Size (unat (DnsHeader_Arcount h False)) (s_Offset, 0, None, Edns_None)
                      in (True, p\<lparr>req_Edns := edns, req_EdnsStatus := status\<rparr>))"

definition DnsRequestPacket_ctor_data :: "bytes option \<Rightarrow> nat \<Rightarrow> cpp_error + DnsRequestPacket" where
  "DnsRequestPacket_ctor_data p_Data p_Size =
     (let (ok, p) = DnsRequestPacket_FromWire p_Data p_Size DnsRequestPacket_default
      in if ok then Inr p else Inl (Invalid_argument ''DnsRequestPacket: invalid packet data''))"

text \<open>The header is written with \<^verbatim>\<open>DnsHeader::size()\<close> bytes of room at the start of the buffer.\<close>

definition write_header :: "DnsHeader \<Rightarrow> bytes \<Rightarrow> nat \<times> bytes" where
  "write_header h buf =
     (case DnsHeader_ToWire h (Some buf) DnsHeader_HeaderSize of
        (n, Some buf') \<Rightarrow> (n, buf') | (n, None) \<Rightarrow> (n, buf))"

definition DnsRequestPacket_ToWire :: "DnsRequestPacket \<Rightarrow> bytes option \<Rightarrow> nat \<Rightarrow> nat \<times> bytes option" where
  "DnsRequestPacket_ToWire p p_Buffer p_BufferSize =
     (case p_Buffer of
        None \<Rightarrow> (0, None)
      | Some s_Output \<Rightarrow>
          if p_BufferSize < DnsRequestPacket_WireSize p then (0, Some s_Output)
          else
            let (s_HeaderBytes, s_Output) = write_header (req_Header p) s_Output
            in if s_HeaderBytes \<noteq> DnsHeader_HeaderSize then (0, Some s_Output)
               else let (ok, s_Offset, s_Output) =
                          write_section DnsQuestion_ToWire (req_Questions p) p_BufferSize (s_HeaderBytes, s_Output)
                    in if \<not> ok then (0, Some s_Output) else (s_Offset, Some s_Output))"

definition DnsRequestPacket_eq :: "DnsRequestPacket \<Rightarrow> DnsRequestPacket \<Rightarrow> bool" where
  "DnsRequestPacket_eq p o' \<longleftrightarrow>
     DnsHeader_eq (req_Header p) (req_Header o') \<and> length (req_Questions p) = length (req_Questions o') \<and>
     list_all (\<lambda>i. DnsQuestion_eq (req_Questions p ! i) (req_Questions o' ! i)) [0..<length (req_Questions p)]"

text \<open>\<^verbatim>\<open>std::vector\<close>'s lexicographic \<^verbatim>\<open>operator<\<close> over the element comparison.\<close>

fun vector_less :: "('a \<Rightarrow> 'a \<Rightarrow> bool) \<Rightarrow> 'a list \<Rightarrow> 'a list \<Rightarrow> bool" where
  "vector_less lt [] ys = (ys \<noteq> [])"
| "vector_less lt (x # xs) [] = False"
| "vector_less lt (x # xs) (y # ys) =
     (if lt x y then True else if lt y x then False else vector_less lt xs ys)"

definition DnsRequestPacket_less :: "DnsRequestPacket \<Rightarrow> DnsRequestPacket \<Rightarrow> bool" where
  "DnsRequestPacket_less p o' \<longleftrightarrow>
     (if \<not> DnsHeader_eq (req_Header p) (req_Header o') then DnsHeader_less (req_Header p) (req_Header o')
      else vector_less DnsQuestion_less (req_Questions p) (req_Questions o'))"

section \<open>Response packets\<close>

record DnsResponsePacket =
  resp_Header :: DnsHeader
  resp_Questions :: "DnsQuestion list"
  resp_Answers :: "DnsAnswer list"
  resp_Authority :: "DnsAnswer list"
  resp_Additional :: "DnsAnswer list"

definition DnsResponsePacket_default :: DnsResponsePacket where
  "DnsResponsePacket_default =
     \<lparr>resp_Header = DnsHeader_default, resp_Questions = [], resp_Answers = [], resp_Authority = [],
      resp_Additional = []\<rparr>"

definition DnsResponsePacket_UpdateHeaderCounts :: "DnsResponsePacket \<Rightarrow> DnsResponsePacket" where
  "DnsResponsePacket_UpdateHeaderCounts p =
     p\<lparr>resp_Header := DnsHeader_UpdateCounts (of_nat (length (resp_Questions p))) (of_nat (length (resp_Answers p)))
         (of_nat (length (resp_Authority p))) (of_nat (length (resp_Additional p))) (resp_Header p)\<rparr>"

definition DnsResponsePacket_ctor ::
  "DnsHeader \<Rightarrow> DnsQuestion list \<Rightarrow> DnsAnswer list \<Rightarrow> DnsAnswer list \<Rightarrow> DnsAnswer list \<Rightarrow> DnsResponsePacket" where
  "DnsResponsePacket_ctor h qs an ns ar =
     DnsResponsePacket_UpdateHeaderCounts
       \<lparr>resp_Header = h, resp_Questions = qs, resp_Answers = an, resp_Authority = ns, resp_Additional = ar\<rparr>"

definition DnsResponsePacket_SetHeader :: "DnsHeader \<Rightarrow> DnsResponsePacket \<Rightarrow> DnsResponsePacket" where
  "DnsResponsePacket_SetHeader h p = p\<lparr>resp_Header := h\<rparr>"

definition DnsResponsePacket_AddQuestion :: "DnsQuestion \<Rightarrow> DnsResponsePacket \<Rightarrow> DnsResponsePacket" where
  "DnsResponsePacket_AddQuestion q p =
     DnsResponsePacket_UpdateHeaderCounts (p\<lparr>resp_Questions := resp_Questions p @ [q]\<rparr>)"

definition DnsResponsePacket_AddAnswer :: "DnsAnswer \<Rightarrow> DnsResponsePacket \<Rightarrow> DnsResponsePacket" where
  "DnsResponsePacket_AddAnswer a p =
     DnsResponsePacket_UpdateHeaderCounts (p\<lparr>resp_Answers := resp_Answers p @ [a]\<rparr>)"

definition DnsResponsePacket_AddAuthority :: "DnsAnswer \<Rightarrow> DnsResponsePacket \<Rightarrow> DnsResponsePacket" where
  "DnsResponsePacket_AddAuthority a p =
     DnsResponsePacket_UpdateHeaderCounts (p\<lparr>resp_Authority := resp_Authority p @ [a]\<rparr>)"

definition DnsResponsePacket_AddAdditional :: "DnsAnswer \<Rightarrow> DnsResponsePacket \<Rightarrow> DnsResponsePacket" where
  "DnsResponsePacket_AddAdditional a p =
     DnsResponsePacket_UpdateHeaderCounts (p\<lparr>resp_Additional := resp_Additional p @ [a]\<rparr>)"

definition DnsResponsePacket_ClearQuestions :: "DnsResponsePacket \<Rightarrow> DnsResponsePacket" where
  "DnsResponsePacket_ClearQuestions p = DnsResponsePacket_UpdateHeaderCounts (p\<lparr>resp_Questions := []\<rparr>)"

definition DnsResponsePacket_ClearAnswers :: "DnsResponsePacket \<Rightarrow> DnsResponsePacket" where
  "DnsResponsePacket_ClearAnswers p = DnsResponsePacket_UpdateHeaderCounts (p\<lparr>resp_Answers := []\<rparr>)"

definition DnsResponsePacket_ClearAuthority :: "DnsResponsePacket \<Rightarrow> DnsResponsePacket" where
  "DnsResponsePacket_ClearAuthority p = DnsResponsePacket_UpdateHeaderCounts (p\<lparr>resp_Authority := []\<rparr>)"

definition DnsResponsePacket_ClearAdditional :: "DnsResponsePacket \<Rightarrow> DnsResponsePacket" where
  "DnsResponsePacket_ClearAdditional p = DnsResponsePacket_UpdateHeaderCounts (p\<lparr>resp_Additional := []\<rparr>)"

definition DnsResponsePacket_MakeResponse :: "DnsRequestPacket \<Rightarrow> u8 \<Rightarrow> bool \<Rightarrow> bool \<Rightarrow> DnsResponsePacket" where
  "DnsResponsePacket_MakeResponse p_Request p_Rcode p_Authoritative p_RecursionAvailable =
     DnsResponsePacket_ctor
       (DnsHeader_MakeResponseHeader (req_Header p_Request) p_Rcode p_Authoritative p_RecursionAvailable)
       (req_Questions p_Request) [] [] []"

definition DnsResponsePacket_MakeErrorResponse :: "DnsRequestPacket \<Rightarrow> u8 \<Rightarrow> DnsResponsePacket" where
  "DnsResponsePacket_MakeErrorResponse p_Request p_ErrorCode =
     DnsResponsePacket_ctor
       (DnsHeader_MakeErrorResponse (req_Header p_Request) p_ErrorCode (req_Header p_Request))
       (req_Questions p_Request) [] [] []"

definition DnsResponsePacket_swap ::
  "DnsResponsePacket \<Rightarrow> DnsResponsePacket \<Rightarrow> DnsResponsePacket \<times> DnsResponsePacket" where
  "DnsResponsePacket_swap p o' =
     (let (h, h') = DnsHeader_swap (resp_Header p) (resp_Header o') in
      (p\<lparr>resp_Header := h, resp_Questions := resp_Questions o', resp_Answers := resp_Answers o',
         resp_Authority := resp_Authority o', resp_Additional := resp_Additional o'\<rparr>,
       o'\<lparr>resp_Header := h', resp_Questions := resp_Questions p, resp_Answers := resp_Answers p,
         resp_Authority := resp_Authority p, resp_Additional := resp_Additional p\<rparr>))"

definition DnsResponsePacket_empty :: "DnsResponsePacket \<Rightarrow> bool" where
  "DnsResponsePacket_empty p \<longleftrightarrow>
     resp_Questions p = [] \<and> resp_Answers p = [] \<and> resp_Authority p = [] \<and> resp_Additional p = []"

definition DnsResponsePacket_size :: "DnsResponsePacket \<Rightarrow> nat" where
  "DnsResponsePacket_size p =
     length (resp_Questions p) + length (resp_Answers p) + length (resp_Authority p) + length (resp_Additional p)"

definition DnsResponsePacket_clear :: "DnsResponsePacket \<Rightarrow> DnsResponsePacket" where
  "DnsResponsePacket_clear p =
     p\<lparr>resp_Header := DnsHeader_clear (resp_Header p), resp_Questions := [], resp_Answers := [],
       resp_Authority := [], resp_Additional := []\<rparr>"

definition DnsResponsePacket_Valid :: "DnsResponsePacket \<Rightarrow> bool" where
  "DnsResponsePacket_Valid p \<longleftrightarrow>
     (if \<not> DnsHeader_Valid (resp_Header p) then False
      else if \<not> DnsHeader_IsResponse (resp_Header p) then False
      else if unat (DnsHeader_Qdcount (resp_Header p) False) \<noteq> length (resp_Questions p)
         \<or> unat (DnsHeader_Ancount (resp_Header p) False) \<noteq> length (resp_Answers p)
         \<or> unat (DnsHeader_Nscount (resp_Header p) False) \<noteq> length (resp_Authority p)
         \<or> unat (DnsHeader_Arcount (resp_Header p) False) \<noteq> length (resp_Additional p) then False
      else list_all DnsQuestion_Valid (resp_Questions p) \<and> list_all DnsAnswer_Valid (resp_Answers p) \<and>
           list_all DnsAnswer_Valid (resp_Authority p) \<and> list_all DnsAnswer_Valid (resp_Additional p))"

definition DnsResponsePacket_Hash ::
  "(DnsHeader \<Rightarrow> u64) \<Rightarrow> (DnsQuestion \<Rightarrow> u64) \<Rightarrow> (DnsAnswer \<Rightarrow> u64) \<Rightarrow> DnsResponsePacket \<Rightarrow> u64" where
  "DnsResponsePacket_Hash hash_header hash_question hash_answer p =
     (let s_Hash = foldl (\<lambda>s q. hash_combine s (hash_question q)) (hash_header (resp_Header p)) (resp_Questions p);
          s_Hash = foldl (\<lambda>s a. hash_combine s (hash_answer a)) s_Hash (resp_Answers p);
          s_Hash = foldl (\<lambda>s a. hash_combine s (hash_answer a)) s_Hash (resp_Authority p)
      in foldl (\<lambda>s a. hash_combine s (hash_answer a)) s_Hash (resp_Additional p))"

definition DnsResponsePacket_WireSize :: "DnsResponsePacket \<Rightarrow> nat" where
  "DnsResponsePacket_WireSize p =
     DnsHeader_HeaderSize
     + foldl (\<lambda>s_Sum q. s_Sum + DnsQuestion_WireSize q) 0 (resp_Questions p)
     + foldl (\<lambda>s_Sum a. s_Sum + DnsAnswer_WireSize a) 0 (resp_Answers p)
     + foldl (\<lambda>s_Sum a. s_Sum + DnsAnswer_WireSize a) 0 (resp_Authority p)
     + foldl (\<lambda>s_Sum a. s_Sum + DnsAnswer_WireSize a) 0 (resp_Additional p)"

definition DnsResponsePacket_FromWire ::
  "bytes option \<Rightarrow> nat \<Rightarrow> DnsResponsePacket \<Rightarrow> bool \<times> DnsResponsePacket" where
  "DnsResponsePacket_FromWire p_Data p_Size p =
     (case p_Data of
        None \<Rightarrow> (False, p)
      | Some d \<Rightarrow>
          if p_Size < DnsHeader_HeaderSize then (False, p)
          else
            let (ok, h) = DnsHeader_FromWire (Some d) DnsHeader_HeaderSize (resp_Header p);
                p = p\<lparr>resp_Header := h\<rparr>
            in if \<not> ok then (False, p)
               else if \<not> DnsHeader_IsResponse h then (False, p)
               else
                 let (ok, s_Offset, qs) = parse_section DnsQuestion_FromWire DnsQuestion_default (Some d) p_Size
                        (unat (DnsHeader_Qdcount h False)) DnsHeader_HeaderSize [];
                     p = p\<lparr>resp_Questions := qs\<rparr>
                 in if \<not> ok then (False, p) else
                 let (ok, s_Offset, an) = parse_section DnsAnswer_FromWire DnsAnswer_default (Some d) p_Size
                        (unat (DnsHeader_Ancount h False)) s_Offset [];
                     p = p\<lparr>resp_Answers := an\<rparr>
                 in if \<not> ok then (False, p) else
                 let (ok, s_Offset, ns) = parse_section DnsAnswer_FromWire DnsAnswer_default (Some d) p_Size
                        (unat (DnsHeader_Nscount h False)) s_Offset [];
                     p = p\<lparr>resp_Authority := ns\<rparr>
                 in if \<not> ok then (False, p) else
                 let (ok, s_Offset, ar) = parse_section DnsAnswer_FromWire DnsAnswer_default (Some d) p_Size
                        (unat (DnsHeader_Arcount h False)) s_Offset [];
                     p = p\<lparr>resp_Additional := ar\<rparr>
                 in if \<not> ok then (False, p)
                    else if length qs \<noteq> unat (DnsHeader_Qdcount h False) \<or> length an \<noteq> unat (DnsHeader_Ancount h False)
                      \<or> length ns \<noteq> unat (DnsHeader_Nscount h False) \<or> length ar \<noteq> unat (DnsHeader_Arcount h False)
                    then (False, p)
                    else (True, p))"

definition DnsResponsePacket_ctor_data :: "bytes option \<Rightarrow> nat \<Rightarrow> cpp_error + DnsResponsePacket" where
  "DnsResponsePacket_ctor_data p_Data p_Size =
     (let (ok, p) = DnsResponsePacket_FromWire p_Data p_Size DnsResponsePacket_default
      in if ok then Inr p else Inl (Invalid_argument ''DnsResponsePacket: invalid packet data''))"

definition DnsResponsePacket_ToWire :: "DnsResponsePacket \<Rightarrow> bytes option \<Rightarrow> nat \<Rightarrow> nat \<times> bytes option" where
  "DnsResponsePacket_ToWire p p_Buffer p_BufferSize =
     (case p_Buffer of
        None \<Rightarrow> (0, None)
      | Some s_Output \<Rightarrow>
          if p_BufferSize < DnsResponsePacket_WireSize p then (0, Some s_Output)
          else
            let (s_HeaderBytes, s_Output) = write_header (resp_Header p) s_Output
            in if s_HeaderBytes \<noteq> DnsHeader_HeaderSize then (0, Some s_Output) else
            let (ok, s_Offset, s_Output) =
                  write_section DnsQuestion_ToWire (resp_Questions p) p_BufferSize (s_HeaderBytes, s_Output)
            in if \<not> ok then (0, Some s_Output) else
            let (ok, s_Offset, s_Output) =
                  write_section DnsAnswer_ToWire (resp_Answers p) p_BufferSize (s_Offset, s_Output)
            in if \<not> ok then (0, Some s_Output) else
            let (ok, s_Offset, s_Output) =
                  write_section DnsAnswer_ToWire (resp_Authority p) p_BufferSize (s_Offset, s_Output)
            in if \<not> ok then (0, Some s_Output) else
            let (ok, s_Offset, s_Output) =
                  write_section DnsAnswer_ToWire (resp_Additional p) p_BufferSize (s_Offset, s_Output)
            in if \<not> ok then (0, Some s_Output) else (s_Offset, Some s_Output))"

definition DnsResponsePacket_eq :: "DnsResponsePacket \<Rightarrow> DnsResponsePacket \<Rightarrow> bool" where
  "DnsResponsePacket_eq p o' \<longleftrightarrow>
     DnsHeader_eq (resp_Header p) (resp_Header o') \<and>
     list_all2 DnsQuestion_eq (resp_Questions p) (resp_Questions o') \<and>
     list_all2 DnsAnswer_eq (resp_Answers p) (resp_Answers o') \<and>
     list_all2 DnsAnswer_eq (resp_Authority p) (resp_Authority o') \<and>
     list_all2 DnsAnswer_eq (resp_Additional p) (resp_Additional o')"

definition DnsResponsePacket_less :: "DnsResponsePacket \<Rightarrow> DnsResponsePacket \<Rightarrow> bool" where
  "DnsResponsePacket_less p o' \<longleftrightarrow>
     (if \<not> DnsHeader_eq (resp_Header p) (resp_Header o') then DnsHeader_less (resp_Header p) (resp_Header o')
      else if \<not> list_all2 DnsQuestion_eq (resp_Questions p) (resp_Questions o')
      then vector_less DnsQuestion_less (resp_Questions p) (resp_Questions o')
      else if \<not> list_all2 DnsAnswer_eq (resp_Answers p) (resp_Answers o')
      then vector_less DnsAnswer_less (resp_Answers p) (resp_Answers o')
      else if \<not> list_all2 DnsAnswer_eq (resp_Authority p) (resp_Authority o')
      then vector_less DnsAnswer_less (resp_Authority p) (resp_Authority o')
      else vector_less DnsAnswer_less (resp_Additional p) (resp_Additional o'))"

section \<open>Lemmas: wire images of packets\<close>

lemma foldl_sum: "foldl (\<lambda>s x. s + f x) (a :: nat) xs = a + sum_list (map f xs)"
  by (induction xs arbitrary: a) simp_all

definition questions_image :: "DnsQuestion list \<Rightarrow> bytes" where
  "questions_image qs = concat (map question_image qs)"

definition answers_image :: "DnsAnswer list \<Rightarrow> bytes" where
  "answers_image as = concat (map answer_image as)"

lemma length_questions_image: "length (questions_image qs) = sum_list (map DnsQuestion_WireSize qs)"
  by (simp add: questions_image_def length_concat comp_def length_question_image)

lemma length_answers_image: "length (answers_image as) = sum_list (map DnsAnswer_WireSize as)"
  by (simp add: answers_image_def length_concat comp_def length_answer_image)

definition request_image :: "DnsRequestPacket \<Rightarrow> bytes" where
  "request_image p = DnsHeader_image (req_Header p) @ questions_image (req_Questions p)"

definition response_image :: "DnsResponsePacket \<Rightarrow> bytes" where
  "response_image p = DnsHeader_image (resp_Header p) @ questions_image (resp_Questions p)
     @ answers_image (resp_Answers p) @ answers_image (resp_Authority p) @ answers_image (resp_Additional p)"

lemma length_request_image: "length (request_image p) = DnsRequestPacket_WireSize p"
  by (simp add: request_image_def DnsRequestPacket_WireSize_def foldl_sum length_questions_image
      DnsHeader_HeaderSize_def)

lemma length_response_image: "length (response_image p) = DnsResponsePacket_WireSize p"
  by (simp add: response_image_def DnsResponsePacket_WireSize_def foldl_sum length_questions_image
      length_answers_image DnsHeader_HeaderSize_def)

lemma write_header_image: "write_header h buf = (12, overwrite buf 0 (DnsHeader_image h))"
  by (simp add: write_header_def DnsHeader_ToWire_def DnsHeader_HeaderSize_def)

lemmas write_questions = question_codec.write_section_img [folded questions_image_def]
lemmas write_answers = answer_codec.write_section_img [folded answers_image_def]
lemmas parse_questions = question_codec.parse_section_img [folded questions_image_def]
lemmas parse_answers = answer_codec.parse_section_img [folded answers_image_def]

lemma request_ToWire_image:
  assumes "DnsRequestPacket_WireSize p \<le> n" and "n \<le> length buf"
  shows "DnsRequestPacket_ToWire p (Some buf) n =
    (DnsRequestPacket_WireSize p, Some (request_image p @ drop (DnsRequestPacket_WireSize p) buf))"
proof -
  let ?h = "DnsHeader_image (req_Header p)" and ?q = "questions_image (req_Questions p)"
  have len: "12 + length ?q = DnsRequestPacket_WireSize p"
    by (simp add: length_request_image [symmetric] request_image_def)
  then have "write_section DnsQuestion_ToWire (req_Questions p) n (12, overwrite buf 0 ?h) =
      (True, 12 + length ?q, overwrite (overwrite buf 0 ?h) 12 ?q)"
    using assms by (intro write_questions) simp_all
  moreover have "overwrite (overwrite buf 0 ?h) 12 ?q = overwrite buf 0 (?h @ ?q)"
    using assms len by (intro overwrite_next) simp_all
  moreover have "overwrite buf 0 (?h @ ?q) = request_image p @ drop (DnsRequestPacket_WireSize p) buf"
    by (simp add: overwrite_def request_image_def len [symmetric])
  ultimately show ?thesis
    using assms len by (simp add: DnsRequestPacket_ToWire_def write_header_image DnsHeader_HeaderSize_def)
qed

lemma response_ToWire_image:
  assumes "DnsResponsePacket_WireSize p \<le> n" and "n \<le> length buf"
  shows "DnsResponsePacket_ToWire p (Some buf) n =
    (DnsResponsePacket_WireSize p, Some (response_image p @ drop (DnsResponsePacket_WireSize p) buf))"
proof -
  let ?h = "DnsHeader_image (resp_Header p)" and ?q = "questions_image (resp_Questions p)"
  let ?an = "answers_image (resp_Answers p)" and ?ns = "answers_image (resp_Authority p)"
  let ?ar = "answers_image (resp_Additional p)"
  have len: "12 + length ?q + length ?an + length ?ns + length ?ar = DnsResponsePacket_WireSize p"
    by (simp add: length_response_image [symmetric] response_image_def)
  with assms have room: "12 + length ?q + length ?an + length ?ns + length ?ar \<le> n" by simp
  have 1: "write_section DnsQuestion_ToWire (resp_Questions p) n (12, overwrite buf 0 ?h) =
      (True, 12 + length ?q, overwrite buf 0 (?h @ ?q))"
    using assms(2) room by (subst write_questions) (simp_all add: overwrite_next)
  have 2: "write_section DnsAnswer_ToWire (resp_Answers p) n (12 + length ?q, overwrite buf 0 (?h @ ?q)) =
      (True, 12 + length ?q + length ?an, overwrite buf 0 (?h @ ?q @ ?an))"
    using assms(2) room by (subst write_answers) (simp_all add: overwrite_next)
  have 3: "write_section DnsAnswer_ToWire (resp_Authority p) n (12 + length ?q + length ?an, overwrite buf 0 (?h @ ?q @ ?an)) =
      (True, 12 + length ?q + length ?an + length ?ns, overwrite buf 0 (?h @ ?q @ ?an @ ?ns))"
    using assms(2) room by (subst write_answers) (simp_all add: overwrite_next)
  have 4: "write_section DnsAnswer_ToWire (resp_Additional p) n
      (12 + length ?q + length ?an + length ?ns, overwrite buf 0 (?h @ ?q @ ?an @ ?ns)) =
      (True, 12 + length ?q + length ?an + length ?ns + length ?ar, overwrite buf 0 (?h @ ?q @ ?an @ ?ns @ ?ar))"
    using assms(2) room by (subst write_answers) (simp_all add: overwrite_next)
  have "overwrite buf 0 (?h @ ?q @ ?an @ ?ns @ ?ar) = response_image p @ drop (DnsResponsePacket_WireSize p) buf"
    by (simp add: overwrite_def response_image_def len [symmetric] add.assoc)
  then show ?thesis
    using assms len 1 2 3 4
    by (simp add: DnsResponsePacket_ToWire_def write_header_image DnsHeader_HeaderSize_def)
qed

lemma request_FromWire_questions:
  assumes "DnsHeader_Valid h" and "DnsHeader_IsQuery h"
    and "unat (DnsHeader_Qdcount h False) = length qs" and "\<forall>q\<in>set qs. labels_wf (m_Qname q)"
    and "DnsHeader_Ancount h False = 0" and "DnsHeader_Nscount h False = 0"
    and "12 + length (questions_image qs) \<le> n"
  shows "DnsRequestPacket_FromWire (Some (DnsHeader_image h @ questions_image qs @ post)) n p0 =
    (let d = DnsHeader_image h @ questions_image qs @ post;
         (_, _, edns, status) = edns_loop d n (unat (DnsHeader_Arcount h False))
            (12 + length (questions_image qs), 0, None, Edns_None)
     in (True, \<lparr>req_Header = h, req_Questions = qs, req_Edns = edns, req_EdnsStatus = status\<rparr>))"
proof -
  have "DnsHeader_FromWire (Some (DnsHeader_image h @ questions_image qs @ post)) 12 h0 = (True, h)" for h0
    using assms(1) by (simp add: FromWire_image)
  moreover have "parse_section DnsQuestion_FromWire DnsQuestion_default
      (Some (DnsHeader_image h @ questions_image qs @ post)) n (length qs) 12 [] =
      (True, 12 + length (questions_image qs), qs)"
    using parse_questions [of qs "DnsHeader_image h" n _ post "[]"] assms by simp
  ultimately show ?thesis
    using assms by (simp add: DnsRequestPacket_FromWire_def DnsHeader_HeaderSize_def DnsHeader_IsResponse_def
        DnsHeader_IsQuery_def Let_def split: prod.split)
qed

lemma response_FromWire_image:
  assumes "DnsHeader_Valid (resp_Header p)" and "DnsHeader_IsResponse (resp_Header p)"
    and "unat (DnsHeader_Qdcount (resp_Header p) False) = length (resp_Questions p)"
    and "unat (DnsHeader_Ancount (resp_Header p) False) = length (resp_Answers p)"
    and "unat (DnsHeader_Nscount (resp_Header p) False) = length (resp_Authority p)"
    and "unat (DnsHeader_Arcount (resp_Header p) False) = length (resp_Additional p)"
    and q: "\<forall>q\<in>set (resp_Questions p). labels_wf (m_Qname q)"
    and a: "\<forall>a\<in>set (resp_Answers p @ resp_Authority p @ resp_Additional p). answer_wf a"
    and n: "DnsResponsePacket_WireSize p \<le> n"
  shows "DnsResponsePacket_FromWire (Some (response_image p @ post)) n p0 = (True, p)"
proof -
  let ?h = "DnsHeader_image (resp_Header p)" and ?q = "questions_image (resp_Questions p)"
  let ?an = "answers_image (resp_Answers p)" and ?ns = "answers_image (resp_Authority p)"
  let ?ar = "answers_image (resp_Additional p)"
  let ?d = "?h @ ?q @ ?an @ ?ns @ ?ar @ post"
  have d: "response_image p @ post = ?d" by (simp add: response_image_def)
  have room: "12 + length ?q + length ?an + length ?ns + length ?ar \<le> n"
    using n by (simp add: length_response_image [symmetric] response_image_def)
  have 0: "DnsHeader_FromWire (Some ?d) 12 h0 = (True, resp_Header p)" for h0
    using assms(1) by (simp add: FromWire_image)
  have 1: "parse_section DnsQuestion_FromWire DnsQuestion_default (Some ?d) n (length (resp_Questions p)) 12 [] =
      (True, 12 + length ?q, resp_Questions p)"
    using parse_questions [of "resp_Questions p" ?h n _ "?an @ ?ns @ ?ar @ post" "[]"] q room by simp
  have 2: "parse_section DnsAnswer_FromWire DnsAnswer_default (Some ?d) n (length (resp_Answers p)) (12 + length ?q) [] =
      (True, 12 + length ?q + length ?an, resp_Answers p)"
    using parse_answers [of "resp_Answers p" "?h @ ?q" n _ "?ns @ ?ar @ post" "[]"] a room by simp
  have 3: "parse_section DnsAnswer_FromWire DnsAnswer_default (Some ?d) n (length (resp_Authority p))
      (12 + length ?q + length ?an) [] = (True, 12 + length ?q + length ?an + length ?ns, resp_Authority p)"
    using parse_answers [of "resp_Authority p" "?h @ ?q @ ?an" n _ "?ar @ post" "[]"] a room by (simp add: add.assoc)
  have 4: "parse_section DnsAnswer_FromWire DnsAnswer_default (Some ?d) n (length (resp_Additional p))
      (12 + length ?q + length ?an + length ?ns) [] =
      (True, 12 + length ?q + length ?an + length ?ns + length ?ar, resp_Additional p)"
    using parse_answers [of "resp_Additional p" "?h @ ?q @ ?an @ ?ns" n _ "post" "[]"] a room by (simp add: add.assoc)
  have "12 \<le> n" using room by simp
  then show ?thesis
    using assms(2-6) 0 1 2 3 4 by (simp add: d DnsResponsePacket_FromWire_def DnsHeader_HeaderSize_def)
qed

section \<open>Lemmas: the OPT scan\<close>

text \<open>What the scan guarantees of its state after any number of records.\<close>

definition edns_inv :: "edns_state \<Rightarrow> bool" where
  "edns_inv st \<longleftrightarrow>
     (case st of (off, cnt, edns, status) \<Rightarrow>
        (cnt = 0 \<longrightarrow> edns = None \<and> status \<in> {Edns_None, Edns_Malformed}) \<and>
        (\<forall>e. edns = Some e \<longrightarrow> 512 \<le> unat (m_UdpPayloadSize e)) \<and>
        (case status of
           Edns_None \<Rightarrow> cnt = 0
         | Edns_Ok \<Rightarrow> cnt = 1 \<and> (\<exists>e. edns = Some e \<and> m_Version e = 0)
         | Edns_BadVersion \<Rightarrow> cnt = 1 \<and> (\<exists>e. edns = Some e \<and> 0 < m_Version e)
         | Edns_DuplicateOpt \<Rightarrow> cnt > 1
         | Edns_Malformed \<Rightarrow> True))"

definition edns_running :: "edns_state \<Rightarrow> bool" where
  "edns_running st \<longleftrightarrow> (case st of (off, cnt, edns, status) \<Rightarrow> cnt = 0 \<longrightarrow> status = Edns_None)"

lemma payload_floor: "\<not> (w :: u16) < 512 \<Longrightarrow> 512 \<le> unat w"
  by (simp add: word_less_nat_alt)

lemma word_gt_0_cases: "\<not> 0 < (w :: u8) \<Longrightarrow> w = 0"
  by (simp add: word_greater_zero_iff)

lemma edns_opt_data_payload: "edns_opt_data d n ne = Some e \<Longrightarrow> 512 \<le> unat (m_UdpPayloadSize e)"
  by (auto simp: edns_opt_data_def Let_def intro: payload_floor split: prod.splits if_splits)

lemma edns_record_inv:
  assumes "edns_inv st" and "edns_running st"
  shows "case edns_record d n st of Continue st' \<Rightarrow> edns_inv st' \<and> edns_running st' | Return st' \<Rightarrow> edns_inv st'"
proof -
  obtain off cnt edns status where st: "st = (off, cnt, edns, status)" by (metis prod_cases4)
  have zero: "cnt = 0 \<Longrightarrow> edns = None \<and> status = Edns_None"
    using assms by (auto simp: st edns_inv_def edns_running_def)
  have bad: "edns_inv (o', c', edns, Edns_Malformed)" if "c' = 0 \<longrightarrow> cnt = 0" for o' c'
    using assms(1) that zero by (auto simp: st edns_inv_def)
  have dup: "edns_inv (o', Suc cnt, edns, Edns_DuplicateOpt)" if "cnt > 0" for o'
    using assms(1) that by (auto simp: st edns_inv_def)
  have skip: "edns_inv (o', cnt, edns, status)" for o'
    using assms(1) by (auto simp: st edns_inv_def)
  have new: "edns_inv (o', Suc 0, Some e, if m_Version e > 0 then Edns_BadVersion else Edns_Ok)"
    if "edns_opt_data d n ne = Some e" for o' e ne
    using edns_opt_data_payload [OF that] by (auto simp: edns_inv_def word_gt_0_cases)
  have new': "edns_inv (o', Suc 0, Some e, Edns_Ok)"
    if "edns_opt_data d n ne = Some e" "\<not> 0 < m_Version e" for o' e ne
    using edns_opt_data_payload [OF that(1)] that(2) by (auto simp: edns_inv_def word_gt_0_cases)
  show ?thesis
    using assms(2) zero bad dup skip new new'
    by (auto simp: st edns_record_def edns_running_def Let_def split: option.splits)
qed

lemma edns_loop_inv:
  "edns_inv st \<Longrightarrow> edns_running st \<Longrightarrow> edns_inv (edns_loop d n k st)"
proof (induction k arbitrary: st)
  case (Suc k)
  then show ?case using edns_record_inv [of st d n] by (auto split: flow.split)
qed simp

lemma walk_name_local: "walk_name (take n d) n i = walk_name d n i"
proof (induction d n i rule: walk_name.induct)
  case (1 d n i)
  then show ?case by (subst (1 2) walk_name.simps) (simp add: Let_def)
qed

lemma walk_name_gt: "i < n \<Longrightarrow> i < walk_name d n i"
proof (induction d n i rule: walk_name.induct)
  case (1 d n i)
  show ?case
  proof (cases "i + (1 + unat (d ! i)) < n")
    case True
    then show ?thesis
      using 1 by (subst walk_name.simps) (auto simp: Let_def)
  next
    case False
    then show ?thesis
      using "1.prems" by (subst walk_name.simps, subst walk_name.simps) (auto simp: Let_def)
  qed
qed

lemma edns_options_local:
  "rd_end \<le> n \<Longrightarrow> edns_options (take n d) rd_end i acc = edns_options d rd_end i acc"
proof (induction d rd_end i acc rule: edns_options.induct)
  case (1 d rd_end i acc)
  show ?case
  proof (cases "i + 4 \<le> rd_end")
    case True
    then have "load16 (take n d) i = load16 d i" "load16 (take n d) (i + 2) = load16 d (i + 2)"
      using "1.prems" by (simp_all add: load16_take)
    then show ?thesis
      using 1 True by (subst (1 2) edns_options.simps) (auto simp: Let_def subrange_take)
  next
    case False
    then show ?thesis by (subst (1 2) edns_options.simps) simp
  qed
qed

lemma edns_opt_data_local: "ne + 10 \<le> n \<Longrightarrow> edns_opt_data (take n d) n ne = edns_opt_data d n ne"
  by (auto simp: edns_opt_data_def load16_take load32_take edns_options_local Let_def split: prod.split)

lemma edns_record_local: "edns_record (take n d) n st = edns_record d n st"
proof -
  obtain off cnt edns status where st: "st = (off, cnt, edns, status)" by (metis prod_cases4)
  show ?thesis
  proof (cases "off + 11 \<le> n")
    case True
    then have b: "take n d ! off = d ! off" by simp
    then have e: "edns_name_end (take n d) n off = edns_name_end d n off"
      by (simp add: edns_name_end_def walk_name_local Let_def)
    have "load16 (take n d) i = load16 d i" "load16 (take n d) (i + 8) = load16 d (i + 8)"
      if "i + 10 \<le> n" for i using that by (simp_all add: load16_take)
    then show ?thesis
      using True by (simp add: st edns_record_def e b edns_opt_data_local Let_def split: option.split)
  qed (simp add: st edns_record_def)
qed

lemma edns_loop_local: "edns_loop (take n d) n k st = edns_loop d n k st"
  by (induction k arbitrary: st) (simp_all add: edns_record_local split: flow.split)

section \<open>Lemmas: an OPT record that was written\<close>

definition option_image :: "EdnsOption \<Rightarrow> bytes" where
  "option_image x = mem16 (HostToNetwork (m_Code x)) @ mem16 (HostToNetwork (of_nat (length (m_Data x)))) @ m_Data x"

definition options_image :: "EdnsOption list \<Rightarrow> bytes" where
  "options_image xs = concat (map option_image xs)"

definition edns_ttl :: "EdnsData \<Rightarrow> u32" where
  "edns_ttl e = push_bit 24 (ucast (m_ExtendedRcode e)) OR push_bit 16 (ucast (m_Version e))
     OR push_bit 15 (of_bool (m_DoBit e))"

definition opt_image :: "EdnsData \<Rightarrow> bytes" where
  "opt_image e = [0] @ mem16 (HostToNetwork 41) @ mem16 (HostToNetwork (m_UdpPayloadSize e))
     @ mem32 (HostToNetwork (edns_ttl e)) @ mem16 (HostToNetwork (of_nat (length (options_image (m_Options e)))))
     @ options_image (m_Options e)"

lemma edns_ttl_fields_ttl: "edns_ttl_fields (edns_ttl e) = (m_ExtendedRcode e, m_Version e, m_DoBit e)"
proof -
  have 1: "ucast (drop_bit 24 (edns_ttl e) AND 0xFF) = m_ExtendedRcode e"
    by (rule bit_word_eqI) (auto simp: edns_ttl_def mask255 bit_simps bit_byte_ge)
  have 2: "ucast (drop_bit 16 (edns_ttl e) AND 0xFF) = m_Version e"
    by (rule bit_word_eqI) (auto simp: edns_ttl_def mask255 bit_simps bit_byte_ge)
  have "(drop_bit 15 (edns_ttl e) AND 1 \<noteq> 0) = bit (edns_ttl e) 15"
    by (simp add: and_one_eq bit_iff_odd_drop_bit odd_iff_mod_2_eq_one)
  also have "\<dots> = m_DoBit e"
    by (simp add: edns_ttl_def bit_simps)
  finally show ?thesis using 1 2 by (simp add: edns_ttl_fields_def)
qed

lemma load16_Cons [wire_simps]: "0 < i \<Longrightarrow> load16 (x # xs) i = load16 xs (i - 1)"
  by (simp add: load16_def nth_Cons')

lemma load32_Cons [wire_simps]: "0 < i \<Longrightarrow> load32 (x # xs) i = load32 xs (i - 1)"
  by (simp add: load32_def nth_Cons')

lemma edns_options_image:
  "\<forall>x\<in>set xs. length (m_Data x) \<le> 65535 \<Longrightarrow>
   edns_options (pre @ options_image xs @ post) (length pre + length (options_image xs)) (length pre) acc = Some (acc @ xs)"
proof (induction xs arbitrary: pre acc)
  case Nil
  then show ?case by (subst edns_options.simps) (simp add: options_image_def)
next
  case (Cons x xs)
  let ?d = "pre @ options_image (x # xs) @ post"
  let ?o = "mem16 (HostToNetwork (m_Code x)) @ mem16 (HostToNetwork (of_nat (length (m_Data x))))"
  have d: "?d = pre @ ?o @ m_Data x @ options_image xs @ post" by (simp add: options_image_def option_image_def)
  have loads: "load16 ?d (length pre) = HostToNetwork (m_Code x)"
    "load16 ?d (length pre + 2) = HostToNetwork (of_nat (length (m_Data x)))"
    by (simp_all only: d) (simp_all add: load16_skip load16_hit)
  have sub: "subrange ?d (length pre + 4) (length (m_Data x)) = m_Data x"
    by (simp only: d) (simp add: subrange_skip subrange_hit)
  have len: "unat (of_nat (length (m_Data x)) :: u16) = length (m_Data x)"
    using Cons.prems by (simp add: unat_of_nat_u16)
  have pre: "length (pre @ ?o @ m_Data x) = length pre + (4 + length (m_Data x))" by simp
  have ends: "length pre + (4 + length (m_Data x)) + length (options_image xs) = length pre + length (options_image (x # xs))"
    by (simp add: options_image_def option_image_def)
  have "edns_options ((pre @ ?o @ m_Data x) @ options_image xs @ post)
      (length (pre @ ?o @ m_Data x) + length (options_image xs)) (length (pre @ ?o @ m_Data x)) (acc @ [x])
      = Some ((acc @ [x]) @ xs)"
    using Cons.prems by (intro Cons.IH) simp
  then have rec: "edns_options ?d (length pre + length (options_image (x # xs))) (length pre + (4 + length (m_Data x)))
      (acc @ [x]) = Some ((acc @ [x]) @ xs)"
    unfolding pre ends by (simp add: d)
  have "length (options_image (x # xs)) = 4 + length (m_Data x) + length (options_image xs)"
    by (simp add: options_image_def option_image_def)
  then show ?case
    using loads sub len rec by (cases x, subst edns_options.simps) (simp add: Let_def)
qed

lemma opt_record_image:
  assumes "\<forall>x\<in>set (m_Options e). length (m_Data x) \<le> 65535" and "length (options_image (m_Options e)) \<le> 65535"
    and "512 \<le> m_UdpPayloadSize e" and "length pre + length (opt_image e) \<le> n"
  shows "edns_record (pre @ opt_image e @ post) n (length pre, 0, None, Edns_None) =
    Continue (length pre + length (opt_image e), 1, Some e, if m_Version e > 0 then Edns_BadVersion else Edns_Ok)"
proof -
  let ?rd = "options_image (m_Options e)"
  let ?f = "mem16 (HostToNetwork 41) @ mem16 (HostToNetwork (m_UdpPayloadSize e))
     @ mem32 (HostToNetwork (edns_ttl e)) @ mem16 (HostToNetwork (of_nat (length ?rd)))"
  let ?d = "pre @ [0] @ ?f @ ?rd @ post"
  have d: "pre @ opt_image e @ post = ?d" by (simp add: opt_image_def)
  have len: "length (opt_image e) = 11 + length ?rd" by (simp add: opt_image_def)
  have loads: "load16 ?d (length pre + 1) = HostToNetwork 41"
    "load16 ?d (length pre + 1 + 2) = HostToNetwork (m_UdpPayloadSize e)"
    "load32 ?d (length pre + 1 + 4) = HostToNetwork (edns_ttl e)"
    "load16 ?d (length pre + 1 + 8) = HostToNetwork (of_nat (length ?rd))"
    by (simp_all add: load16_skip load16_hit load32_skip load32_hit load16_Cons load32_Cons)
  have rdlen: "unat (of_nat (length ?rd) :: u16) = length ?rd" using assms(2) by (rule unat_of_nat_u16)
  have "edns_options ((pre @ [0] @ ?f) @ ?rd @ post) (length (pre @ [0] @ ?f) + length ?rd) (length (pre @ [0] @ ?f)) [] =
      Some ([] @ m_Options e)"
    using assms(1) by (rule edns_options_image)
  then have opts: "edns_options ?d (length pre + 1 + 10 + length ?rd) (length pre + 1 + 10) [] = Some (m_Options e)"
    by (simp add: add.commute)
  have room: "length pre + 1 + 10 + length ?rd \<le> n" using assms(4) len by simp
  have "\<not> m_UdpPayloadSize e < 512" using assms(3) by simp
  then have data: "edns_opt_data ?d n (length pre + 1) = Some e"
    using loads rdlen opts room by (cases e) (simp add: edns_opt_data_def edns_ttl_fields_ttl Let_def)
  have "?d ! length pre = 0" by (simp add: nth_append)
  then have name: "edns_name_end ?d n (length pre) = Some (length pre + 1)"
    by (simp add: edns_name_end_def)
  show ?thesis
    using \<open>?d ! length pre = 0\<close> name data loads rdlen room len
    by (simp add: d edns_record_def Let_def)
qed

section \<open>Lemmas: what a successful parse guarantees\<close>

lemma header_FromWire_local:
  "12 \<le> n \<Longrightarrow> DnsHeader_FromWire (Some (take n d)) 12 h = DnsHeader_FromWire (Some d) 12 h"
  by (simp add: DnsHeader_FromWire_def copy_in_take)

lemma request_FromWire_local:
  "DnsRequestPacket_FromWire (Some (take n d)) n p = DnsRequestPacket_FromWire (Some d) n p"
  unfolding DnsRequestPacket_FromWire_def DnsHeader_HeaderSize_def option.case
    question_codec.parse_section_local edns_loop_local
  by (cases "12 \<le> n") (simp_all add: header_FromWire_local)

lemma response_FromWire_local:
  "DnsResponsePacket_FromWire (Some (take n d)) n p = DnsResponsePacket_FromWire (Some d) n p"
  unfolding DnsResponsePacket_FromWire_def DnsHeader_HeaderSize_def option.case
    question_codec.parse_section_local answer_codec.parse_section_local
  by (cases "12 \<le> n") (simp_all add: header_FromWire_local)

lemma header_FromWire_Valid: "DnsHeader_FromWire d n h0 = (True, h) \<Longrightarrow> DnsHeader_Valid h"
  by (auto simp: DnsHeader_FromWire_def Let_def split: option.splits if_splits)

text \<open>The shape of a successful request parse, as facts about each step.\<close>

lemma request_FromWire_steps:
  assumes "DnsRequestPacket_FromWire (Some d) n p0 = (True, p)"
  obtains off o' c' where "12 \<le> n" "DnsHeader_Valid (req_Header p)" "DnsHeader_IsQuery (req_Header p)"
    "parse_section DnsQuestion_FromWire DnsQuestion_default (Some d) n
       (unat (DnsHeader_Qdcount (req_Header p) False)) 12 [] = (True, off, req_Questions p)"
    "DnsHeader_Ancount (req_Header p) False = 0" "DnsHeader_Nscount (req_Header p) False = 0"
    "edns_loop d n (unat (DnsHeader_Arcount (req_Header p) False)) (off, 0, None, Edns_None) =
       (o', c', req_Edns p, req_EdnsStatus p)"
proof -
  have n: "12 \<le> n" using assms by (auto simp: DnsRequestPacket_FromWire_def DnsHeader_HeaderSize_def split: if_splits)
  obtain ok h where h: "DnsHeader_FromWire (Some d) 12 (req_Header p0) = (ok, h)" by (metis surj_pair)
  obtain ok' off qs where q: "parse_section DnsQuestion_FromWire DnsQuestion_default (Some d) n
      (unat (DnsHeader_Qdcount h False)) 12 [] = (ok', off, qs)" by (metis prod_cases3)
  obtain o' c' e st where l: "edns_loop d n (unat (DnsHeader_Arcount h False)) (off, 0, None, Edns_None) = (o', c', e, st)"
    by (metis prod_cases4)
  from assms n h q l show thesis
    by (auto simp: DnsRequestPacket_FromWire_def DnsHeader_HeaderSize_def Let_def DnsHeader_IsQuery_def
        DnsHeader_IsResponse_def dest: header_FromWire_Valid split: if_splits intro!: that)
qed

lemma response_FromWire_steps:
  assumes "DnsResponsePacket_FromWire (Some d) n p0 = (True, p)"
  obtains o1 o2 o3 o4 where "12 \<le> n" "DnsHeader_Valid (resp_Header p)" "DnsHeader_IsResponse (resp_Header p)"
    "parse_section DnsQuestion_FromWire DnsQuestion_default (Some d) n
       (unat (DnsHeader_Qdcount (resp_Header p) False)) 12 [] = (True, o1, resp_Questions p)"
    "parse_section DnsAnswer_FromWire DnsAnswer_default (Some d) n
       (unat (DnsHeader_Ancount (resp_Header p) False)) o1 [] = (True, o2, resp_Answers p)"
    "parse_section DnsAnswer_FromWire DnsAnswer_default (Some d) n
       (unat (DnsHeader_Nscount (resp_Header p) False)) o2 [] = (True, o3, resp_Authority p)"
    "parse_section DnsAnswer_FromWire DnsAnswer_default (Some d) n
       (unat (DnsHeader_Arcount (resp_Header p) False)) o3 [] = (True, o4, resp_Additional p)"
proof -
  have n: "12 \<le> n" using assms by (auto simp: DnsResponsePacket_FromWire_def DnsHeader_HeaderSize_def split: if_splits)
  obtain ok h where h: "DnsHeader_FromWire (Some d) 12 (resp_Header p0) = (ok, h)" by (metis surj_pair)
  obtain ok1 o1 qs where q: "parse_section DnsQuestion_FromWire DnsQuestion_default (Some d) n
      (unat (DnsHeader_Qdcount h False)) 12 [] = (ok1, o1, qs)" by (metis prod_cases3)
  obtain ok2 o2 an where a: "parse_section DnsAnswer_FromWire DnsAnswer_default (Some d) n
      (unat (DnsHeader_Ancount h False)) o1 [] = (ok2, o2, an)" by (metis prod_cases3)
  obtain ok3 o3 ns where b: "parse_section DnsAnswer_FromWire DnsAnswer_default (Some d) n
      (unat (DnsHeader_Nscount h False)) o2 [] = (ok3, o3, ns)" by (metis prod_cases3)
  obtain ok4 o4 ar where c: "parse_section DnsAnswer_FromWire DnsAnswer_default (Some d) n
      (unat (DnsHeader_Arcount h False)) o3 [] = (ok4, o4, ar)" by (metis prod_cases3)
  from assms have "ok" "ok1" "ok2" "ok3" "ok4" "DnsHeader_IsResponse h"
    and "p = \<lparr>resp_Header = h, resp_Questions = qs, resp_Answers = an, resp_Authority = ns, resp_Additional = ar\<rparr>"
    by (auto simp: DnsResponsePacket_FromWire_def DnsHeader_HeaderSize_def n h q a b c Let_def split: if_splits)
  with n h q a b c header_FromWire_Valid [of "Some d" 12 "resp_Header p0" h] show thesis
    by (intro that [of o1 o2 o3 o4]) simp_all
qed

section \<open>Lemmas: building a response\<close>

text \<open>The responses that the factories and the section operations can build from a request.\<close>

inductive response_built :: "DnsRequestPacket \<Rightarrow> DnsResponsePacket \<Rightarrow> bool" for q where
  make: "response_built q (DnsResponsePacket_MakeResponse q rcode aa ra)"
| make_error: "response_built q (DnsResponsePacket_MakeErrorResponse q rcode)"
| add_answer: "response_built q p \<Longrightarrow> response_built q (DnsResponsePacket_AddAnswer a p)"
| add_authority: "response_built q p \<Longrightarrow> response_built q (DnsResponsePacket_AddAuthority a p)"
| add_additional: "response_built q p \<Longrightarrow> response_built q (DnsResponsePacket_AddAdditional a p)"
| clear_answers: "response_built q p \<Longrightarrow> response_built q (DnsResponsePacket_ClearAnswers p)"
| clear_authority: "response_built q p \<Longrightarrow> response_built q (DnsResponsePacket_ClearAuthority p)"
| clear_additional: "response_built q p \<Longrightarrow> response_built q (DnsResponsePacket_ClearAdditional p)"

definition response_counts :: "DnsResponsePacket \<Rightarrow> bool" where
  "response_counts p \<longleftrightarrow>
     DnsHeader_CountsMatch (resp_Header p) (of_nat (length (resp_Questions p))) (of_nat (length (resp_Answers p)))
       (of_nat (length (resp_Authority p))) (of_nat (length (resp_Additional p)))"

lemma header_of_view:
  "DnsHeader_Id h False = v_id (header_view h)" "DnsHeader_Qr h False = v_qr (header_view h)"
  "DnsHeader_Rd h False = v_rd (header_view h)" "DnsHeader_Opcode h False = v_opcode (header_view h)"
  "DnsHeader_Qdcount h False = v_qdcount (header_view h)" "DnsHeader_Ancount h False = v_ancount (header_view h)"
  "DnsHeader_Nscount h False = v_nscount (header_view h)" "DnsHeader_Arcount h False = v_arcount (header_view h)"
  by (simp_all add: header_view_def)

lemma UpdateHeaderCounts_counts: "response_counts (DnsResponsePacket_UpdateHeaderCounts p)"
  by (simp add: response_counts_def DnsResponsePacket_UpdateHeaderCounts_def DnsHeader_CountsMatch_def header_of_view)

lemma UpdateHeaderCounts_frame:
  "resp_Questions (DnsResponsePacket_UpdateHeaderCounts p) = resp_Questions p"
  "v_id (header_view (resp_Header (DnsResponsePacket_UpdateHeaderCounts p))) = v_id (header_view (resp_Header p))"
  "v_qr (header_view (resp_Header (DnsResponsePacket_UpdateHeaderCounts p))) = v_qr (header_view (resp_Header p))"
  by (simp_all add: DnsResponsePacket_UpdateHeaderCounts_def)

lemmas response_op_defs =
  DnsResponsePacket_MakeResponse_def DnsResponsePacket_MakeErrorResponse_def DnsResponsePacket_ctor_def
  DnsResponsePacket_AddAnswer_def DnsResponsePacket_AddAuthority_def DnsResponsePacket_AddAdditional_def
  DnsResponsePacket_ClearAnswers_def DnsResponsePacket_ClearAuthority_def DnsResponsePacket_ClearAdditional_def

lemma made_header_view:
  "v_id (header_view (DnsHeader_MakeResponseHeader q rc aa ra)) = v_id (header_view q) \<and>
   v_qr (header_view (DnsHeader_MakeResponseHeader q rc aa ra))"
  "v_id (header_view (DnsHeader_MakeErrorResponse q rc h)) = v_id (header_view q) \<and>
   v_qr (header_view (DnsHeader_MakeErrorResponse q rc h))"
  by (simp_all add: DnsHeader_MakeResponseHeader_def DnsHeader_MakeErrorResponse_def DnsHeader_MakeResponse_def
      header_of_view)

section \<open>Properties\<close>


text \<open>C36: a request that parses is a query with a clear Z bit, exactly QDCOUNT questions, empty answer and
  authority sections, and no more questions than its size allows; and the EDNS status tells the truth about
  the EDNS data: none without an OPT record, version 0 for \<^verbatim>\<open>Ok\<close>, a version above 0 for \<^verbatim>\<open>BadVersion\<close>, and a
  payload size of at least 512 in every case.\<close>

theorem request_FromWire_sound:
  "case DnsRequestPacket_FromWire (Some data) n p0 of (ok, p) \<Rightarrow>
     if ok then
       DnsHeader_Valid (req_Header p) \<and> DnsHeader_IsQuery (req_Header p) \<and>
       length (req_Questions p) = unat (DnsHeader_Qdcount (req_Header p) False) \<and>
       DnsHeader_Ancount (req_Header p) False = 0 \<and> DnsHeader_Nscount (req_Header p) False = 0 \<and>
       12 + 5 * length (req_Questions p) \<le> n \<and>
       (case req_EdnsStatus p of
          Edns_None \<Rightarrow> req_Edns p = None
        | Edns_Ok \<Rightarrow> (\<exists>e. req_Edns p = Some e \<and> m_Version e = 0)
        | Edns_BadVersion \<Rightarrow> (\<exists>e. req_Edns p = Some e \<and> 0 < m_Version e)
        | _ \<Rightarrow> True) \<and>
       (case req_Edns p of None \<Rightarrow> True | Some e \<Rightarrow> 512 \<le> unat (m_UdpPayloadSize e))
     else True"
proof (cases "DnsRequestPacket_FromWire (Some data) n p0")
  case (Pair ok p)
  show ?thesis
  proof (cases ok)
    case True
    with Pair obtain off o' c' where s: "12 \<le> n" "DnsHeader_Valid (req_Header p)" "DnsHeader_IsQuery (req_Header p)"
      "parse_section DnsQuestion_FromWire DnsQuestion_default (Some data) n
         (unat (DnsHeader_Qdcount (req_Header p) False)) 12 [] = (True, off, req_Questions p)"
      "DnsHeader_Ancount (req_Header p) False = 0" "DnsHeader_Nscount (req_Header p) False = 0"
      "edns_loop data n (unat (DnsHeader_Arcount (req_Header p) False)) (off, 0, None, Edns_None) =
         (o', c', req_Edns p, req_EdnsStatus p)"
      by (auto elim: request_FromWire_steps)
    have "edns_inv (o', c', req_Edns p, req_EdnsStatus p)"
      unfolding s(7) [symmetric] by (rule edns_loop_inv) (simp_all add: edns_inv_def edns_running_def)
    then show ?thesis
      using Pair True s question_codec.parse_section_bounds [OF s(4)]
      by (auto simp: edns_inv_def split: EdnsParseStatus.splits option.splits)
  qed (simp add: Pair)
qed

text \<open>A response that parses is a response with a clear Z bit, every section has exactly the number of
  records its header announces, every record has a matching RDLENGTH, and the announced counts are bounded by
  the size of the message.\<close>

theorem response_FromWire_sound:
  "case DnsResponsePacket_FromWire (Some data) n p0 of (ok, p) \<Rightarrow>
     if ok then
       DnsHeader_Valid (resp_Header p) \<and> DnsHeader_IsResponse (resp_Header p) \<and>
       length (resp_Questions p) = unat (DnsHeader_Qdcount (resp_Header p) False) \<and>
       length (resp_Answers p) = unat (DnsHeader_Ancount (resp_Header p) False) \<and>
       length (resp_Authority p) = unat (DnsHeader_Nscount (resp_Header p) False) \<and>
       length (resp_Additional p) = unat (DnsHeader_Arcount (resp_Header p) False) \<and>
       12 + 5 * length (resp_Questions p)
         + 11 * (length (resp_Answers p) + length (resp_Authority p) + length (resp_Additional p)) \<le> n
     else True"
proof (cases "DnsResponsePacket_FromWire (Some data) n p0")
  case (Pair ok p)
  show ?thesis
  proof (cases ok)
    case True
    with Pair have "DnsResponsePacket_FromWire (Some data) n p0 = (True, p)" by simp
    then obtain o1 o2 o3 o4 where s: "12 \<le> n" "DnsHeader_Valid (resp_Header p)" "DnsHeader_IsResponse (resp_Header p)"
      and q: "parse_section DnsQuestion_FromWire DnsQuestion_default (Some data) n
         (unat (DnsHeader_Qdcount (resp_Header p) False)) 12 [] = (True, o1, resp_Questions p)"
      and a: "parse_section DnsAnswer_FromWire DnsAnswer_default (Some data) n
         (unat (DnsHeader_Ancount (resp_Header p) False)) o1 [] = (True, o2, resp_Answers p)"
      and b: "parse_section DnsAnswer_FromWire DnsAnswer_default (Some data) n
         (unat (DnsHeader_Nscount (resp_Header p) False)) o2 [] = (True, o3, resp_Authority p)"
      and c: "parse_section DnsAnswer_FromWire DnsAnswer_default (Some data) n
         (unat (DnsHeader_Arcount (resp_Header p) False)) o3 [] = (True, o4, resp_Additional p)"
      by (rule response_FromWire_steps)
    from question_codec.parse_section_bounds [OF q] s(1)
    have q': "12 + length (resp_Questions p) * 5 \<le> o1" "o1 \<le> n"
      "length (resp_Questions p) = unat (DnsHeader_Qdcount (resp_Header p) False)" by simp_all
    from answer_codec.parse_section_bounds [OF a q'(2)]
    have a': "o1 + length (resp_Answers p) * 11 \<le> o2" "o2 \<le> n"
      "length (resp_Answers p) = unat (DnsHeader_Ancount (resp_Header p) False)" by simp_all
    from answer_codec.parse_section_bounds [OF b a'(2)]
    have b': "o2 + length (resp_Authority p) * 11 \<le> o3" "o3 \<le> n"
      "length (resp_Authority p) = unat (DnsHeader_Nscount (resp_Header p) False)" by simp_all
    from answer_codec.parse_section_bounds [OF c b'(2)]
    have "o3 + length (resp_Additional p) * 11 \<le> o4" "o4 \<le> n"
      "length (resp_Additional p) = unat (DnsHeader_Arcount (resp_Header p) False)" by simp_all
    with q' a' b' s show ?thesis by (simp add: Pair True)
  qed (simp add: Pair)
qed

text \<open>A valid request without EDNS data that is written to a buffer of sufficient size is read back
  unchanged from exactly the bytes written.\<close>

theorem request_wire_roundtrip:
  assumes "DnsRequestPacket_Valid p" and "req_Edns p = None" and "req_EdnsStatus p = Edns_None"
    and "DnsRequestPacket_WireSize p \<le> length buf"
  shows "\<exists>out. DnsRequestPacket_ToWire p (Some buf) (length buf) = (DnsRequestPacket_WireSize p, Some out) \<and>
    length out = length buf \<and>
    DnsRequestPacket_FromWire (Some out) (DnsRequestPacket_WireSize p) p0 = (True, p)"
proof -
  let ?w = "DnsRequestPacket_WireSize p"
  let ?out = "request_image p @ drop ?w buf"
  have v: "DnsHeader_Valid (req_Header p)" "DnsHeader_IsQuery (req_Header p)"
    "unat (DnsHeader_Qdcount (req_Header p) False) = length (req_Questions p)"
    "DnsHeader_Ancount (req_Header p) False = 0" "DnsHeader_Nscount (req_Header p) False = 0"
    "DnsHeader_Arcount (req_Header p) False = 0" "list_all DnsQuestion_Valid (req_Questions p)"
    using assms(1-3) by (auto simp: DnsRequestPacket_Valid_def split: if_splits)
  then have "\<forall>q\<in>set (req_Questions p). labels_wf (m_Qname q)"
    by (auto simp: list_all_iff intro: valid_labels_wf Valid_labels)
  then have "DnsRequestPacket_FromWire (Some ?out) ?w p0 = (True, p)"
    using v request_FromWire_questions [of "req_Header p" "req_Questions p" ?w "drop ?w buf" p0] assms(2,3)
    by (cases p) (simp add: request_image_def length_request_image [symmetric])
  then show ?thesis
    using assms(4) request_ToWire_image [of p "length buf" buf] by (simp add: length_request_image)
qed

theorem request_wire_roundtrip_witness:
  "\<exists>out. DnsRequestPacket_ToWire (DnsRequestPacket_MakeAQuery 7 ''a.b'' True) (Some (replicate 30 0)) 30 = (21, Some out) \<and>
    DnsRequestPacket_FromWire (Some out) 21 DnsRequestPacket_default = (True, DnsRequestPacket_MakeAQuery 7 ''a.b'' True)"
proof -
  let ?p = "DnsRequestPacket_MakeAQuery 7 ''a.b'' True"
  have "DnsRequestPacket_Valid ?p" "req_Edns ?p = None" "req_EdnsStatus ?p = Edns_None"
    "DnsRequestPacket_WireSize ?p = 21" by code_simp+
  then show ?thesis
    using request_wire_roundtrip [of ?p "replicate 30 0" DnsRequestPacket_default] by auto
qed

text \<open>C35: an OPT record in the additional section of a query is recognised whatever it carries: payload size
  (at least 512), extended RCODE, version, DO bit and options come back as sent, with status \<^verbatim>\<open>Ok\<close> for version 0
  and \<^verbatim>\<open>BadVersion\<close> otherwise.\<close>

theorem request_edns_roundtrip:
  assumes "DnsHeader_Valid h" and "DnsHeader_IsQuery h"
    and "unat (DnsHeader_Qdcount h False) = length qs" and "list_all DnsQuestion_Valid qs"
    and "DnsHeader_Ancount h False = 0" and "DnsHeader_Nscount h False = 0" and "DnsHeader_Arcount h False = 1"
    and "list_all (\<lambda>x. length (m_Data x) \<le> 65535) (m_Options e)"
    and "length (options_image (m_Options e)) \<le> 65535" and "512 \<le> m_UdpPayloadSize e"
    and "msg = DnsHeader_image h @ questions_image qs @ opt_image e"
  shows "DnsRequestPacket_FromWire (Some msg) (length msg) p0 =
    (True, \<lparr>req_Header = h, req_Questions = qs, req_Edns = Some e,
            req_EdnsStatus = (if m_Version e > 0 then Edns_BadVersion else Edns_Ok)\<rparr>)"
proof -
  let ?pre = "DnsHeader_image h @ questions_image qs"
  have wf: "\<forall>q\<in>set qs. labels_wf (m_Qname q)"
    using assms(4) by (auto simp: list_all_iff intro: valid_labels_wf Valid_labels)
  have len: "length ?pre = 12 + length (questions_image qs)" by simp
  have "edns_record (?pre @ opt_image e @ []) (length msg) (length ?pre, 0, None, Edns_None) =
      Continue (length ?pre + length (opt_image e), 1, Some e, if m_Version e > 0 then Edns_BadVersion else Edns_Ok)"
    using assms(8-11) by (intro opt_record_image) (simp_all add: list_all_iff)
  then have "edns_loop msg (length msg) (unat (DnsHeader_Arcount h False)) (12 + length (questions_image qs), 0, None, Edns_None)
      = (length ?pre + length (opt_image e), 1, Some e, if m_Version e > 0 then Edns_BadVersion else Edns_Ok)"
    unfolding len using assms(7,11) by simp
  then show ?thesis
    using request_FromWire_questions [of h qs "length msg" "opt_image e" p0] wf assms(1-3,5,6,11)
    by simp
qed

theorem request_edns_roundtrip_witness:
  "let h = DnsHeader_SetArcount 1 False (DnsHeader_MakeQueryHeader 7 0 True 1);
       e = \<lparr>m_UdpPayloadSize = 1232, m_ExtendedRcode = 0, m_Version = 0, m_DoBit = True,
            m_Options = [\<lparr>m_Code = 10, m_Data = [1, 2, 3]\<rparr>]\<rparr>;
       msg = DnsHeader_image h @ questions_image [DnsQuestion_MakeAQuery ''a.b''] @ opt_image e
   in DnsRequestPacket_FromWire (Some msg) (length msg) DnsRequestPacket_default =
      (True, \<lparr>req_Header = h, req_Questions = [DnsQuestion_MakeAQuery ''a.b''], req_Edns = Some e,
              req_EdnsStatus = Edns_Ok\<rparr>)"
proof -
  let ?h = "DnsHeader_SetArcount 1 False (DnsHeader_MakeQueryHeader 7 0 True 1)"
  let ?qs = "[DnsQuestion_MakeAQuery ''a.b'']"
  let ?e = "\<lparr>m_UdpPayloadSize = 1232, m_ExtendedRcode = 0, m_Version = 0, m_DoBit = True,
            m_Options = [\<lparr>m_Code = 10, m_Data = [1, 2, 3]\<rparr>]\<rparr> :: EdnsData"
  have h: "DnsHeader_Valid ?h" "DnsHeader_IsQuery ?h" "unat (DnsHeader_Qdcount ?h False) = length ?qs"
    "list_all DnsQuestion_Valid ?qs" "DnsHeader_Ancount ?h False = 0" "DnsHeader_Nscount ?h False = 0"
    "DnsHeader_Arcount ?h False = 1" by code_simp+
  show ?thesis
    unfolding Let_def
    by (subst request_edns_roundtrip [OF h, of ?e]) (simp_all add: options_image_def option_image_def)
qed

text \<open>C34: a valid response whose records are stored uncompressed, written to a buffer of sufficient size, is
  read back unchanged from exactly the bytes written, all four sections included.\<close>

theorem response_wire_roundtrip:
  assumes "DnsResponsePacket_Valid p" and "DnsResponsePacket_WireSize p \<le> length buf"
    and "list_all answer_wf (resp_Answers p @ resp_Authority p @ resp_Additional p)"
  shows "\<exists>out. DnsResponsePacket_ToWire p (Some buf) (length buf) = (DnsResponsePacket_WireSize p, Some out) \<and>
    length out = length buf \<and>
    DnsResponsePacket_FromWire (Some out) (DnsResponsePacket_WireSize p) p0 = (True, p)"
proof -
  let ?w = "DnsResponsePacket_WireSize p"
  have v: "DnsHeader_Valid (resp_Header p)" "DnsHeader_IsResponse (resp_Header p)"
    "unat (DnsHeader_Qdcount (resp_Header p) False) = length (resp_Questions p)"
    "unat (DnsHeader_Ancount (resp_Header p) False) = length (resp_Answers p)"
    "unat (DnsHeader_Nscount (resp_Header p) False) = length (resp_Authority p)"
    "unat (DnsHeader_Arcount (resp_Header p) False) = length (resp_Additional p)"
    "list_all DnsQuestion_Valid (resp_Questions p)"
    using assms(1) by (auto simp: DnsResponsePacket_Valid_def split: if_splits)
  then have "DnsResponsePacket_FromWire (Some (response_image p @ drop ?w buf)) ?w p0 = (True, p)"
    using assms(3)
    by (intro response_FromWire_image) (auto simp: list_all_iff intro: valid_labels_wf Valid_labels)
  then show ?thesis
    using assms(2) response_ToWire_image [of p "length buf" buf] by (simp add: length_response_image)
qed

theorem response_wire_roundtrip_witness:
  "let p = DnsResponsePacket_AddAnswer (DnsAnswer_ctor_labels [''a'', ''b''] 1 1 60 [192, 0, 2, 1])
             (DnsResponsePacket_MakeResponse (DnsRequestPacket_MakeAQuery 7 ''a.b'' True) 0 True True)
   in \<exists>out. DnsResponsePacket_ToWire p (Some (replicate 100 0)) 100 = (40, Some out) \<and>
        DnsResponsePacket_FromWire (Some out) 40 DnsResponsePacket_default = (True, p)"
proof -
  let ?a = "DnsAnswer_ctor_labels [''a'', ''b''] 1 1 60 [192, 0, 2, 1]"
  let ?p = "DnsResponsePacket_AddAnswer ?a
             (DnsResponsePacket_MakeResponse (DnsRequestPacket_MakeAQuery 7 ''a.b'' True) 0 True True)"
  have "resp_Answers ?p @ resp_Authority ?p @ resp_Additional ?p = [?a]"
    by (simp add: DnsResponsePacket_AddAnswer_def DnsResponsePacket_MakeResponse_def DnsResponsePacket_ctor_def
        DnsResponsePacket_UpdateHeaderCounts_def)
  moreover have "answer_wf ?a"
    by (simp add: DnsAnswer_ctor_labels_def DnsAnswer_SetTtl_def DnsAnswer_SetRclass_def DnsAnswer_SetType_def
        DnsAnswer_UpdateRDLENGTH_def answer_wf_def rdlength_ok_def rdata_canonical_def labels_wf_def)
  moreover have "DnsResponsePacket_Valid ?p" "DnsResponsePacket_WireSize ?p = 40" by code_simp+
  ultimately show ?thesis
    using response_wire_roundtrip [of ?p "replicate 100 0" DnsResponsePacket_default] by auto
qed

text \<open>Whichever operations build a response from a request, its header counts are those of its sections
  (modulo 65536), it is marked as a response, and it keeps the request's identifier and questions.\<close>

theorem response_built_invariant:
  assumes "response_built q p"
  shows "response_counts p \<and> DnsHeader_IsResponse (resp_Header p) \<and> resp_Questions p = req_Questions q \<and>
    DnsHeader_Id (resp_Header p) False = DnsHeader_Id (req_Header q) False"
  using assms
  by (induction rule: response_built.induct)
    (simp_all add: response_op_defs UpdateHeaderCounts_counts UpdateHeaderCounts_frame made_header_view
      DnsHeader_IsResponse_def header_of_view)

theorem response_built_invariant_witness:
  "response_counts (DnsResponsePacket_AddAnswer DnsAnswer_default
     (DnsResponsePacket_MakeResponse (DnsRequestPacket_MakeAQuery 7 ''a.b'' True) 0 True True))"
  using response_built_invariant [OF response_built.add_answer [OF response_built.make]] by blast

end
