(* ===== verification/Dns_Cache.thy ===== *)
theory Dns_Cache
  imports Dns_Packet "HOL-Library.Monad_Syntax"
begin

unbundle bit_operations_syntax

text \<open>
  \<^verbatim>\<open>class DnsCache\<close> (\<^verbatim>\<open>include/dns_cache.h\<close>, \<^verbatim>\<open>src/dns_cache.cc\<close>): upstream responses by lower-case domain and
  query type, kept for the smallest TTL of their records and served with the elapsed time subtracted.

  The operations of the source carry its class name. They work on a buffer through \<open>octet_at\<close> and \<open>set_octet\<close>, which
  are \<open>None\<close> outside of it, and so are they: an access that the source does not guard would make them undefined. Each
  is shown to equal a function on lists of the plain name (\<^verbatim>\<open>ExtractMinTtl\<close> for \<open>DnsCache_ExtractMinTtl\<close>, and so on),
  which is what the properties use to say what is computed.

  The \<^verbatim>\<open>std::unordered_map\<close> is an association list with distinct keys in iteration order; the standard
  leaves that order open, and no property below depends on it. The clock is an argument: the value of
  \<^verbatim>\<open>steady_clock::now()\<close> in nanoseconds at each call. \<^verbatim>\<open>Insert\<close> returns \<open>None\<close> where the source would erase
  the end iterator (a cache of capacity 0), which C++ leaves undefined.
\<close>

section \<open>State\<close>

record CacheEntry =
  ce_response :: bytes
  ce_insert_time :: int
  ce_min_ttl :: u32

type_synonym CacheKey = "string \<times> u16"

record DnsCache =
  m_Cache :: "(CacheKey \<times> CacheEntry) list"
  m_MaxEntries :: nat

definition DnsCache_ctor :: "nat \<Rightarrow> DnsCache" where
  "DnsCache_ctor p_MaxEntries = \<lparr>m_Cache = [], m_MaxEntries = p_MaxEntries\<rparr>"

section \<open>What is computed: big-endian integers\<close>

definition ReadUint16 :: "bytes \<Rightarrow> nat \<Rightarrow> u16" where
  "ReadUint16 p_Data p_Offset = push_bit 8 (ucast (p_Data ! p_Offset)) OR ucast (p_Data ! (p_Offset + 1))"

definition ReadUint32 :: "bytes \<Rightarrow> nat \<Rightarrow> u32" where
  "ReadUint32 p_Data p_Offset =
     push_bit 24 (ucast (p_Data ! p_Offset)) OR push_bit 16 (ucast (p_Data ! (p_Offset + 1)))
     OR push_bit 8 (ucast (p_Data ! (p_Offset + 2))) OR ucast (p_Data ! (p_Offset + 3))"

definition WriteUint16 :: "bytes \<Rightarrow> nat \<Rightarrow> u16 \<Rightarrow> bytes" where
  "WriteUint16 p_Data p_Offset p_Value =
     (p_Data[p_Offset := ucast (drop_bit 8 p_Value)])[p_Offset + 1 := ucast (p_Value AND 0xFF)]"

definition WriteUint32 :: "bytes \<Rightarrow> nat \<Rightarrow> u32 \<Rightarrow> bytes" where
  "WriteUint32 p_Data p_Offset p_Value =
     (((p_Data[p_Offset := ucast (drop_bit 24 p_Value AND 0xFF)])
       [p_Offset + 1 := ucast (drop_bit 16 p_Value AND 0xFF)])
       [p_Offset + 2 := ucast (drop_bit 8 p_Value AND 0xFF)])
       [p_Offset + 3 := ucast (p_Value AND 0xFF)]"

section \<open>What is computed: walking a response\<close>

definition ToLower :: "string \<Rightarrow> string" where
  "ToLower p_Input = map tolower p_Input"

function SkipDnsName :: "bytes \<Rightarrow> nat \<Rightarrow> nat \<Rightarrow> nat" where
  "SkipDnsName p_Data p_Length s_Pos =
     (if s_Pos < p_Length then
        (let s_Byte = p_Data ! s_Pos in
         if s_Byte AND 0xC0 = 0xC0 then s_Pos + 2
         else if s_Byte = 0 then s_Pos + 1
         else SkipDnsName p_Data p_Length (s_Pos + (1 + unat s_Byte)))
      else 0)"
  by pat_completeness auto
termination
  by (relation "measure (\<lambda>(d, n, i). n - i)") auto

declare SkipDnsName.simps [simp del]

text \<open>The loop over the question section; \<open>None\<close> is the early return.\<close>

primrec skip_questions :: "bytes \<Rightarrow> nat \<Rightarrow> nat \<Rightarrow> nat \<Rightarrow> nat option" where
  "skip_questions p_Data p_Length 0 s_Offset = Some s_Offset"
| "skip_questions p_Data p_Length (Suc n) s_Offset =
     (let s_Offset = SkipDnsName p_Data p_Length s_Offset in
      if s_Offset = 0 then None
      else let s_Offset = s_Offset + 4 in
           if s_Offset > p_Length then None else skip_questions p_Data p_Length n s_Offset)"

text \<open>The loop over the records; every way out of it returns the running minimum.\<close>

primrec min_ttl_loop :: "bytes \<Rightarrow> nat \<Rightarrow> nat \<Rightarrow> nat \<Rightarrow> u32 \<Rightarrow> u32" where
  "min_ttl_loop p_Data p_Length 0 s_Offset s_MinTtl = s_MinTtl"
| "min_ttl_loop p_Data p_Length (Suc n) s_Offset s_MinTtl =
     (let s_Offset = SkipDnsName p_Data p_Length s_Offset in
      if s_Offset = 0 \<or> s_Offset + 10 > p_Length then s_MinTtl
      else
        let s_Type = ReadUint16 p_Data s_Offset;
            s_Ttl = ReadUint32 p_Data (s_Offset + 4);
            s_Rdlength = ReadUint16 p_Data (s_Offset + 8);
            s_MinTtl = (if s_Type \<noteq> 41 then min s_MinTtl s_Ttl else s_MinTtl);
            s_Offset = s_Offset + (10 + unat s_Rdlength)
        in if s_Offset > p_Length then s_MinTtl else min_ttl_loop p_Data p_Length n s_Offset s_MinTtl)"

definition UINT32_MAX :: u32 where
  "UINT32_MAX = 0xFFFFFFFF"

definition total_rr :: "bytes \<Rightarrow> u16" where
  "total_rr p_Data = ReadUint16 p_Data 6 + ReadUint16 p_Data 8 + ReadUint16 p_Data 10"

definition ExtractMinTtl :: "bytes \<Rightarrow> nat \<Rightarrow> u32" where
  "ExtractMinTtl p_Data p_Length =
     (if p_Length < 12 then 0
      else
        let s_Qdcount = ReadUint16 p_Data 4;
            s_TotalRr = total_rr p_Data
        in if s_TotalRr = 0 then 0
           else (case skip_questions p_Data p_Length (unat s_Qdcount) 12 of
                   None \<Rightarrow> 0
                 | Some s_Offset \<Rightarrow>
                     (let s_MinTtl = min_ttl_loop p_Data p_Length (unat s_TotalRr) s_Offset UINT32_MAX
                      in if s_MinTtl = UINT32_MAX then 0 else s_MinTtl)))"

primrec adjust_loop :: "u32 \<Rightarrow> nat \<Rightarrow> nat \<Rightarrow> nat \<Rightarrow> bytes \<Rightarrow> bool \<times> bytes" where
  "adjust_loop p_Elapsed s_Length 0 s_Offset p_Response = (True, p_Response)"
| "adjust_loop p_Elapsed s_Length (Suc n) s_Offset p_Response =
     (let s_Offset = SkipDnsName p_Response s_Length s_Offset in
      if s_Offset = 0 \<or> s_Offset + 10 > s_Length then (False, p_Response)
      else
        let s_Type = ReadUint16 p_Response s_Offset;
            s_Rdlength = ReadUint16 p_Response (s_Offset + 8);
            s_Ttl = ReadUint32 p_Response (s_Offset + 4);
            s_NewTtl = (if s_Ttl > p_Elapsed then s_Ttl - p_Elapsed else 1);
            p_Response = (if s_Type \<noteq> 41 then WriteUint32 p_Response (s_Offset + 4) s_NewTtl else p_Response);
            s_Offset = s_Offset + (10 + unat s_Rdlength)
        in if s_Offset > s_Length then (False, p_Response)
           else adjust_loop p_Elapsed s_Length n s_Offset p_Response)"

definition AdjustTtls :: "bytes \<Rightarrow> u32 \<Rightarrow> bool \<times> bytes" where
  "AdjustTtls p_Response p_Elapsed =
     (if length p_Response < 12 \<or> p_Elapsed = 0 then (True, p_Response)
      else
        let s_Length = length p_Response;
            s_Qdcount = ReadUint16 p_Response 4;
            s_TotalRr = total_rr p_Response
        in if s_TotalRr = 0 then (True, p_Response)
           else (case skip_questions p_Response s_Length (unat s_Qdcount) 12 of
                   None \<Rightarrow> (False, p_Response)
                 | Some s_Offset \<Rightarrow> adjust_loop p_Elapsed s_Length (unat s_TotalRr) s_Offset p_Response))"

section \<open>The operations of the source on a buffer\<close>

definition octet_at :: "bytes \<Rightarrow> nat \<Rightarrow> byte option" where
  "octet_at p_Data i = (if i < length p_Data then Some (p_Data ! i) else None)"

definition set_octet :: "bytes \<Rightarrow> nat \<Rightarrow> byte \<Rightarrow> bytes option" where
  "set_octet p_Data i b = (if i < length p_Data then Some (p_Data[i := b]) else None)"

definition DnsCache_ReadUint16 :: "bytes \<Rightarrow> nat \<Rightarrow> u16 option" where
  "DnsCache_ReadUint16 p_Data p_Offset =
     do { a \<leftarrow> octet_at p_Data p_Offset;
          b \<leftarrow> octet_at p_Data (p_Offset + 1);
          Some (push_bit 8 (ucast a) OR ucast b) }"

definition DnsCache_ReadUint32 :: "bytes \<Rightarrow> nat \<Rightarrow> u32 option" where
  "DnsCache_ReadUint32 p_Data p_Offset =
     do { a \<leftarrow> octet_at p_Data p_Offset;
          b \<leftarrow> octet_at p_Data (p_Offset + 1);
          c \<leftarrow> octet_at p_Data (p_Offset + 2);
          d \<leftarrow> octet_at p_Data (p_Offset + 3);
          Some (push_bit 24 (ucast a) OR push_bit 16 (ucast b) OR push_bit 8 (ucast c) OR ucast d) }"

definition DnsCache_WriteUint16 :: "bytes \<Rightarrow> nat \<Rightarrow> u16 \<Rightarrow> bytes option" where
  "DnsCache_WriteUint16 p_Data p_Offset p_Value =
     do { p_Data \<leftarrow> set_octet p_Data p_Offset (ucast (drop_bit 8 p_Value));
          set_octet p_Data (p_Offset + 1) (ucast (p_Value AND 0xFF)) }"

definition DnsCache_WriteUint32 :: "bytes \<Rightarrow> nat \<Rightarrow> u32 \<Rightarrow> bytes option" where
  "DnsCache_WriteUint32 p_Data p_Offset p_Value =
     do { p_Data \<leftarrow> set_octet p_Data p_Offset (ucast (drop_bit 24 p_Value AND 0xFF));
          p_Data \<leftarrow> set_octet p_Data (p_Offset + 1) (ucast (drop_bit 16 p_Value AND 0xFF));
          p_Data \<leftarrow> set_octet p_Data (p_Offset + 2) (ucast (drop_bit 8 p_Value AND 0xFF));
          set_octet p_Data (p_Offset + 3) (ucast (p_Value AND 0xFF)) }"

function DnsCache_SkipDnsName :: "bytes \<Rightarrow> nat \<Rightarrow> nat \<Rightarrow> nat option" where
  "DnsCache_SkipDnsName p_Data p_Length s_Pos =
     (if s_Pos < p_Length then
        (case octet_at p_Data s_Pos of
           None \<Rightarrow> None
         | Some s_Byte \<Rightarrow>
             if s_Byte AND 0xC0 = 0xC0 then Some (s_Pos + 2)
             else if s_Byte = 0 then Some (s_Pos + 1)
             else DnsCache_SkipDnsName p_Data p_Length (s_Pos + (1 + unat s_Byte)))
      else Some 0)"
  by pat_completeness auto
termination
  by (relation "measure (\<lambda>(d, n, i). n - i)") auto

declare DnsCache_SkipDnsName.simps [simp del]

text \<open>The loop over the question section, in both functions; \<open>Some None\<close> is the early return.\<close>

primrec DnsCache_questions :: "bytes \<Rightarrow> nat \<Rightarrow> nat \<Rightarrow> nat \<Rightarrow> nat option option" where
  "DnsCache_questions p_Data p_Length 0 s_Offset = Some (Some s_Offset)"
| "DnsCache_questions p_Data p_Length (Suc n) s_Offset =
     do { s_Offset \<leftarrow> DnsCache_SkipDnsName p_Data p_Length s_Offset;
          if s_Offset = 0 then Some None
          else let s_Offset = s_Offset + 4 in
               if s_Offset > p_Length then Some None
               else DnsCache_questions p_Data p_Length n s_Offset }"

definition DnsCache_TotalRr :: "bytes \<Rightarrow> u16 option" where
  "DnsCache_TotalRr p_Data =
     do { s_Ancount \<leftarrow> DnsCache_ReadUint16 p_Data 6;
          s_Nscount \<leftarrow> DnsCache_ReadUint16 p_Data 8;
          s_Arcount \<leftarrow> DnsCache_ReadUint16 p_Data 10;
          Some (s_Ancount + s_Nscount + s_Arcount) }"

text \<open>The loop over the records; every way out of it returns the running minimum.\<close>

primrec DnsCache_records :: "bytes \<Rightarrow> nat \<Rightarrow> nat \<Rightarrow> nat \<Rightarrow> u32 \<Rightarrow> u32 option" where
  "DnsCache_records p_Data p_Length 0 s_Offset s_MinTtl = Some s_MinTtl"
| "DnsCache_records p_Data p_Length (Suc n) s_Offset s_MinTtl =
     do { s_Offset \<leftarrow> DnsCache_SkipDnsName p_Data p_Length s_Offset;
          if s_Offset = 0 \<or> s_Offset + 10 > p_Length then Some s_MinTtl
          else
            do { s_Type \<leftarrow> DnsCache_ReadUint16 p_Data s_Offset;
                 s_Ttl \<leftarrow> DnsCache_ReadUint32 p_Data (s_Offset + 4);
                 s_Rdlength \<leftarrow> DnsCache_ReadUint16 p_Data (s_Offset + 8);
                 let s_MinTtl = (if s_Type \<noteq> 41 then min s_MinTtl s_Ttl else s_MinTtl);
                     s_Offset = s_Offset + (10 + unat s_Rdlength)
                 in if s_Offset > p_Length then Some s_MinTtl
                    else DnsCache_records p_Data p_Length n s_Offset s_MinTtl } }"

definition DnsCache_ExtractMinTtl :: "bytes \<Rightarrow> nat \<Rightarrow> u32 option" where
  "DnsCache_ExtractMinTtl p_Data p_Length =
     (if p_Length < 12 then Some 0
      else
        do { s_Qdcount \<leftarrow> DnsCache_ReadUint16 p_Data 4;
             s_TotalRr \<leftarrow> DnsCache_TotalRr p_Data;
             if s_TotalRr = 0 then Some 0
             else
               do { s_Offset \<leftarrow> DnsCache_questions p_Data p_Length (unat s_Qdcount) 12;
                    case s_Offset of
                      None \<Rightarrow> Some 0
                    | Some s_Offset \<Rightarrow>
                        do { s_MinTtl \<leftarrow> DnsCache_records p_Data p_Length (unat s_TotalRr) s_Offset UINT32_MAX;
                             Some (if s_MinTtl = UINT32_MAX then 0 else s_MinTtl) } } })"

text \<open>Reads through \<^verbatim>\<open>s_Data\<close> see what was written through \<^verbatim>\<open>p_Response\<close>: it is the same buffer.\<close>

primrec DnsCache_adjust :: "u32 \<Rightarrow> nat \<Rightarrow> nat \<Rightarrow> nat \<Rightarrow> bytes \<Rightarrow> (bool \<times> bytes) option" where
  "DnsCache_adjust p_Elapsed s_Length 0 s_Offset p_Response = Some (True, p_Response)"
| "DnsCache_adjust p_Elapsed s_Length (Suc n) s_Offset p_Response =
     do { s_Offset \<leftarrow> DnsCache_SkipDnsName p_Response s_Length s_Offset;
          if s_Offset = 0 \<or> s_Offset + 10 > s_Length then Some (False, p_Response)
          else
            do { s_Type \<leftarrow> DnsCache_ReadUint16 p_Response s_Offset;
                 s_Rdlength \<leftarrow> DnsCache_ReadUint16 p_Response (s_Offset + 8);
                 p_Response \<leftarrow>
                   (if s_Type \<noteq> 41 then
                      do { s_Ttl \<leftarrow> DnsCache_ReadUint32 p_Response (s_Offset + 4);
                           let s_NewTtl = (if s_Ttl > p_Elapsed then s_Ttl - p_Elapsed else 1)
                           in DnsCache_WriteUint32 p_Response (s_Offset + 4) s_NewTtl }
                    else Some p_Response);
                 let s_Offset = s_Offset + (10 + unat s_Rdlength)
                 in if s_Offset > s_Length then Some (False, p_Response)
                    else DnsCache_adjust p_Elapsed s_Length n s_Offset p_Response } }"

definition DnsCache_AdjustTtls :: "bytes \<Rightarrow> u32 \<Rightarrow> (bool \<times> bytes) option" where
  "DnsCache_AdjustTtls p_Response p_Elapsed =
     (if length p_Response < 12 \<or> p_Elapsed = 0 then Some (True, p_Response)
      else
        let s_Length = length p_Response in
        do { s_Qdcount \<leftarrow> DnsCache_ReadUint16 p_Response 4;
             s_TotalRr \<leftarrow> DnsCache_TotalRr p_Response;
             if s_TotalRr = 0 then Some (True, p_Response)
             else
               do { s_Offset \<leftarrow> DnsCache_questions p_Response s_Length (unat s_Qdcount) 12;
                    case s_Offset of
                      None \<Rightarrow> Some (False, p_Response)
                    | Some s_Offset \<Rightarrow> DnsCache_adjust p_Elapsed s_Length (unat s_TotalRr) s_Offset p_Response } })"

section \<open>Operations\<close>

text \<open>\<^verbatim>\<open>duration_cast<seconds>\<close> truncates towards zero.\<close>

definition elapsed_seconds :: "int \<Rightarrow> int \<Rightarrow> int" where
  "elapsed_seconds s_Now insert_time =
     (let d = s_Now - insert_time in if 0 \<le> d then d div 1000000000 else - ((- d) div 1000000000))"

definition entry_expired :: "int \<Rightarrow> CacheEntry \<Rightarrow> bool" where
  "entry_expired s_Now e \<longleftrightarrow> elapsed_seconds s_Now (ce_insert_time e) \<ge> int (unat (ce_min_ttl e))"

definition cache_erase :: "CacheKey \<Rightarrow> (CacheKey \<times> CacheEntry) list \<Rightarrow> (CacheKey \<times> CacheEntry) list" where
  "cache_erase s_Key es = filter (\<lambda>(k, e). k \<noteq> s_Key) es"

definition DnsCache_Lookup ::
  "string \<Rightarrow> u16 \<Rightarrow> u16 \<Rightarrow> int \<Rightarrow> bytes \<Rightarrow> DnsCache \<Rightarrow> (bool \<times> bytes \<times> DnsCache) option" where
  "DnsCache_Lookup p_Domain p_Qtype p_TxnId s_Now p_Output c =
     (let s_Key = (ToLower p_Domain, p_Qtype) in
      case map_of (m_Cache c) s_Key of
        None \<Rightarrow> Some (False, p_Output, c)
      | Some s_Entry \<Rightarrow>
          (let s_Elapsed = elapsed_seconds s_Now (ce_insert_time s_Entry) in
           if s_Elapsed \<ge> int (unat (ce_min_ttl s_Entry))
           then Some (False, p_Output, c\<lparr>m_Cache := cache_erase s_Key (m_Cache c)\<rparr>)
           else
             let p_Output = ce_response s_Entry in
             do { p_Output \<leftarrow> (if length p_Output \<ge> 2 then DnsCache_WriteUint16 p_Output 0 p_TxnId else Some p_Output);
                  (ok, p_Output) \<leftarrow> DnsCache_AdjustTtls p_Output (of_int s_Elapsed);
                  Some (True, p_Output, c) }))"

definition DnsCache_EvictExpired :: "int \<Rightarrow> DnsCache \<Rightarrow> DnsCache" where
  "DnsCache_EvictExpired s_Now c = c\<lparr>m_Cache := filter (\<lambda>(k, e). \<not> entry_expired s_Now e) (m_Cache c)\<rparr>"

text \<open>\<^verbatim>\<open>std::min_element\<close>: the first entry with the smallest insertion time.\<close>

fun oldest_key :: "(CacheKey \<times> CacheEntry) list \<Rightarrow> (CacheKey \<times> CacheEntry) option" where
  "oldest_key [] = None"
| "oldest_key ((k, e) # es) =
     (case oldest_key es of
        None \<Rightarrow> Some (k, e)
      | Some (k', e') \<Rightarrow> if ce_insert_time e' < ce_insert_time e then Some (k', e') else Some (k, e))"

text \<open>\<^verbatim>\<open>m_Cache_[s_Key] = ...\<close>.\<close>

fun cache_assign :: "CacheKey \<Rightarrow> CacheEntry \<Rightarrow> (CacheKey \<times> CacheEntry) list \<Rightarrow> (CacheKey \<times> CacheEntry) list" where
  "cache_assign s_Key e [] = [(s_Key, e)]"
| "cache_assign s_Key e ((k, e') # es) =
     (if k = s_Key then (k, e) # es else (k, e') # cache_assign s_Key e es)"

definition make_room :: "CacheKey \<Rightarrow> int \<Rightarrow> DnsCache \<Rightarrow> DnsCache option" where
  "make_room s_Key s_Now c =
     (if length (m_Cache c) \<ge> m_MaxEntries c \<and> map_of (m_Cache c) s_Key = None then
        (let c = DnsCache_EvictExpired s_Now c in
         if length (m_Cache c) \<ge> m_MaxEntries c then
           (case oldest_key (m_Cache c) of
              None \<Rightarrow> None
            | Some (k, e) \<Rightarrow> Some (c\<lparr>m_Cache := cache_erase k (m_Cache c)\<rparr>))
         else Some c)
      else Some c)"

text \<open>\<open>t_Evict\<close> and \<open>t_Now\<close> are the clock at the eviction and at the assignment.\<close>

definition DnsCache_Insert :: "string \<Rightarrow> u16 \<Rightarrow> bytes \<Rightarrow> int \<Rightarrow> int \<Rightarrow> DnsCache \<Rightarrow> DnsCache option" where
  "DnsCache_Insert p_Domain p_Qtype p_Response t_Evict t_Now c =
     (if length p_Response < 12 then Some c
      else
        do { s_MinTtl \<leftarrow> DnsCache_ExtractMinTtl p_Response (length p_Response);
             if s_MinTtl = 0 then Some c
             else
               let s_Key = (ToLower p_Domain, p_Qtype) in
               do { c \<leftarrow> make_room s_Key t_Evict c;
                    Some (c\<lparr>m_Cache := cache_assign s_Key
                        \<lparr>ce_response = p_Response, ce_insert_time = t_Now, ce_min_ttl = s_MinTtl\<rparr> (m_Cache c)\<rparr>) } })"

definition DnsCache_Size :: "DnsCache \<Rightarrow> nat" where
  "DnsCache_Size c = length (m_Cache c)"

definition DnsCache_Clear :: "DnsCache \<Rightarrow> DnsCache" where
  "DnsCache_Clear c = c\<lparr>m_Cache := []\<rparr>"

section \<open>Lemmas: no access outside of the buffer\<close>

lemma octet_at_in [simp]: "i < length d \<Longrightarrow> octet_at d i = Some (d ! i)"
  by (simp add: octet_at_def)

lemma set_octet_in [simp]: "i < length d \<Longrightarrow> set_octet d i b = Some (d[i := b])"
  by (simp add: set_octet_def)

lemma access_in:
  "i + 1 < length d \<Longrightarrow> DnsCache_ReadUint16 d i = Some (ReadUint16 d i)"
  "i + 3 < length d \<Longrightarrow> DnsCache_ReadUint32 d i = Some (ReadUint32 d i)"
  "i + 1 < length d \<Longrightarrow> DnsCache_WriteUint16 d i v = Some (WriteUint16 d i v)"
  "i + 3 < length d \<Longrightarrow> DnsCache_WriteUint32 d i w = Some (WriteUint32 d i w)"
  by (simp_all add: DnsCache_ReadUint16_def DnsCache_ReadUint32_def DnsCache_WriteUint16_def DnsCache_WriteUint32_def
      ReadUint16_def ReadUint32_def WriteUint16_def WriteUint32_def)

lemma SkipDnsName_in: "n \<le> length d \<Longrightarrow> DnsCache_SkipDnsName d n i = Some (SkipDnsName d n i)"
proof (induction d n i rule: SkipDnsName.induct)
  case (1 d n i)
  then show ?case
    by (subst DnsCache_SkipDnsName.simps, subst SkipDnsName.simps) (simp add: Let_def)
qed

lemma questions_in: "n \<le> length d \<Longrightarrow> DnsCache_questions d n k i = Some (skip_questions d n k i)"
  by (induction k arbitrary: i) (simp_all add: SkipDnsName_in Let_def)

lemma TotalRr_in: "12 \<le> length d \<Longrightarrow> DnsCache_TotalRr d = Some (total_rr d)"
  by (simp add: DnsCache_TotalRr_def total_rr_def access_in)

lemma records_in: "n \<le> length d \<Longrightarrow> DnsCache_records d n k i m = Some (min_ttl_loop d n k i m)"
  by (induction k arbitrary: i m) (simp_all add: SkipDnsName_in access_in Let_def)

lemma ExtractMinTtl_in:
  "n \<le> length d \<Longrightarrow> DnsCache_ExtractMinTtl d n = Some (ExtractMinTtl d n)"
  by (simp add: DnsCache_ExtractMinTtl_def ExtractMinTtl_def access_in TotalRr_in questions_in records_in Let_def
      split: option.split)

lemma WriteUint_length [simp]:
  "length (WriteUint16 d i v) = length d" "length (WriteUint32 d i w) = length d"
  by (simp_all add: WriteUint16_def WriteUint32_def)

lemma adjust_in: "n \<le> length d \<Longrightarrow> DnsCache_adjust e n k i d = Some (adjust_loop e n k i d)"
  by (induction k arbitrary: i d) (simp_all add: SkipDnsName_in access_in Let_def)

lemma AdjustTtls_in: "DnsCache_AdjustTtls d e = Some (AdjustTtls d e)"
  by (simp add: DnsCache_AdjustTtls_def AdjustTtls_def access_in TotalRr_in questions_in adjust_in Let_def
      split: option.split)

lemma Lookup_eq:
  "DnsCache_Lookup p_Domain p_Qtype p_TxnId s_Now p_Output c =
     Some (let s_Key = (ToLower p_Domain, p_Qtype) in
      case map_of (m_Cache c) s_Key of
        None \<Rightarrow> (False, p_Output, c)
      | Some s_Entry \<Rightarrow>
          if entry_expired s_Now s_Entry then (False, p_Output, c\<lparr>m_Cache := cache_erase s_Key (m_Cache c)\<rparr>)
          else (True, snd (AdjustTtls (if length (ce_response s_Entry) \<ge> 2 then WriteUint16 (ce_response s_Entry) 0 p_TxnId
                                       else ce_response s_Entry)
                       (of_int (elapsed_seconds s_Now (ce_insert_time s_Entry)))), c))"
  by (simp add: DnsCache_Lookup_def entry_expired_def access_in AdjustTtls_in Let_def case_prod_beta split: option.split)

lemma Insert_eq:
  "DnsCache_Insert d t r te tn c =
     (if length r < 12 \<or> ExtractMinTtl r (length r) = 0 then Some c
      else map_option (\<lambda>c. c\<lparr>m_Cache := cache_assign (ToLower d, t)
             \<lparr>ce_response = r, ce_insert_time = tn, ce_min_ttl = ExtractMinTtl r (length r)\<rparr> (m_Cache c)\<rparr>)
             (make_room (ToLower d, t) te c))"
  by (simp add: DnsCache_Insert_def ExtractMinTtl_in Let_def map_option_case split: option.split)

section \<open>Lemmas: the map\<close>

lemma map_of_cache_assign: "map_of (cache_assign k e es) = (map_of es)(k \<mapsto> e)"
  by (induction k e es rule: cache_assign.induct) (auto simp: fun_eq_iff)

lemma keys_cache_assign:
  "map fst (cache_assign k e es) = (if k \<in> fst ` set es then map fst es else map fst es @ [k])"
  by (induction k e es rule: cache_assign.induct) auto

lemma length_cache_assign:
  "length (cache_assign k e es) = (if k \<in> fst ` set es then length es else Suc (length es))"
  by (induction k e es rule: cache_assign.induct) auto

lemma values_cache_assign: "snd ` set (cache_assign k e es) \<subseteq> insert e (snd ` set es)"
  by (induction k e es rule: cache_assign.induct) auto

lemma map_of_cache_erase: "map_of (cache_erase k es) = (map_of es)(k := None)"
  by (induction es) (auto simp: cache_erase_def fun_eq_iff)

lemma cache_erase_keys: "map fst (cache_erase k es) = filter (\<lambda>k'. k' \<noteq> k) (map fst es)"
  by (induction es) (auto simp: cache_erase_def)

lemma cache_erase_length:
  "distinct (map fst es) \<Longrightarrow> k \<in> fst ` set es \<Longrightarrow> Suc (length (cache_erase k es)) = length es"
proof (induction es)
  case (Cons x es)
  show ?case
  proof (cases "fst x = k")
    case True
    with Cons.prems have "k \<notin> fst ` set es" by auto
    then have "cache_erase k es = es" by (force simp: cache_erase_def filter_id_conv)
    with True show ?thesis by (auto simp: cache_erase_def split: prod.split)
  next
    case False
    with Cons show ?thesis by (auto simp: cache_erase_def split: prod.split)
  qed
qed simp

lemma oldest_key_in: "oldest_key es = Some (k, e) \<Longrightarrow> (k, e) \<in> set es"
  by (induction es arbitrary: k e rule: oldest_key.induct) (auto split: option.splits if_splits)

lemma oldest_key_None [simp]: "oldest_key es = None \<longleftrightarrow> es = []"
  by (cases es rule: oldest_key.cases) (auto split: option.split)

lemma oldest_key_least:
  "oldest_key es = Some (k, e) \<Longrightarrow> (k', e') \<in> set es \<Longrightarrow> ce_insert_time e \<le> ce_insert_time e'"
  by (induction es arbitrary: k e rule: oldest_key.induct) (fastforce split: option.splits if_splits)+

lemma filter_distinct_keys: "distinct (map fst es) \<Longrightarrow> distinct (map fst (filter P es))"
  by (induction es) auto

lemma map_of_filter_distinct:
  "distinct (map fst es) \<Longrightarrow>
   map_of (filter (\<lambda>(k, e). P e) es) k = (case map_of es k of None \<Rightarrow> None | Some e \<Rightarrow> if P e then Some e else None)"
  by (induction es) (auto simp: map_of_eq_None_iff rev_image_eqI split: option.split)

section \<open>Lemmas: the invariant\<close>

definition entry_ok :: "CacheEntry \<Rightarrow> bool" where
  "entry_ok e \<longleftrightarrow> 12 \<le> length (ce_response e) \<and>
     ce_min_ttl e = ExtractMinTtl (ce_response e) (length (ce_response e)) \<and> ce_min_ttl e \<noteq> 0"

definition cache_inv :: "DnsCache \<Rightarrow> bool" where
  "cache_inv c \<longleftrightarrow> distinct (map fst (m_Cache c)) \<and> length (m_Cache c) \<le> m_MaxEntries c \<and>
     (\<forall>(k, e) \<in> set (m_Cache c). entry_ok e)"

lemma EvictExpired_inv: "cache_inv c \<Longrightarrow> cache_inv (DnsCache_EvictExpired t c)"
  by (auto simp: cache_inv_def DnsCache_EvictExpired_def filter_distinct_keys intro: le_trans [OF length_filter_le])

lemma cache_erase_inv: "cache_inv c \<Longrightarrow> cache_inv (c\<lparr>m_Cache := cache_erase k (m_Cache c)\<rparr>)"
  unfolding cache_inv_def cache_erase_def
  by (auto simp: filter_distinct_keys intro: le_trans [OF length_filter_le])

lemma make_room_spec:
  assumes "cache_inv c" and "make_room k t c = Some c'"
  shows "cache_inv c' \<and> m_MaxEntries c' = m_MaxEntries c \<and>
    (k \<notin> fst ` set (m_Cache c') \<longrightarrow> length (m_Cache c') < m_MaxEntries c') \<and>
    (\<forall>k' e. map_of (m_Cache c') k' = Some e \<longrightarrow> map_of (m_Cache c) k' = Some e)"
proof (cases "length (m_Cache c) \<ge> m_MaxEntries c \<and> map_of (m_Cache c) k = None")
  case False
  then have "c' = c"
    using assms(2) unfolding make_room_def by (simp only: if_not_P if_False option.inject)
  with False assms(1) show ?thesis by (auto simp: map_of_eq_None_iff)
next
  case True
  let ?c1 = "DnsCache_EvictExpired t c"
  have inv1: "cache_inv ?c1" using assms(1) by (rule EvictExpired_inv)
  have sub1: "map_of (m_Cache c) k' = Some e" if "map_of (m_Cache ?c1) k' = Some e" for k' e
    using that assms(1) by (auto simp: DnsCache_EvictExpired_def cache_inv_def map_of_filter_distinct split: option.splits if_splits)
  have max1: "m_MaxEntries ?c1 = m_MaxEntries c" by (simp add: DnsCache_EvictExpired_def)
  show ?thesis
  proof (cases "length (m_Cache ?c1) \<ge> m_MaxEntries c")
    case False
    with True assms(2) have "c' = ?c1" by (simp add: make_room_def max1)
    with False inv1 sub1 max1 show ?thesis by auto
  next
    case full: True
    with True assms(2) obtain k1 e1 where o: "oldest_key (m_Cache ?c1) = Some (k1, e1)"
      and c': "c' = ?c1\<lparr>m_Cache := cache_erase k1 (m_Cache ?c1)\<rparr>"
      by (auto simp: make_room_def max1 Let_def split: option.splits)
    have "k1 \<in> fst ` set (m_Cache ?c1)" using oldest_key_in [OF o] by force
    then have "Suc (length (m_Cache c')) = length (m_Cache ?c1)"
      using inv1 by (simp add: c' cache_inv_def cache_erase_length)
    moreover have "length (m_Cache ?c1) \<le> m_MaxEntries c" using inv1 max1 by (simp add: cache_inv_def)
    ultimately show ?thesis
      using cache_erase_inv [OF inv1] sub1 max1 by (auto simp: c' map_of_cache_erase split: if_splits)
  qed
qed

lemma make_room_Some: "0 < m_MaxEntries c \<Longrightarrow> \<exists>c'. make_room k t c = Some c'"
  by (auto simp: make_room_def DnsCache_EvictExpired_def Let_def split: option.split)

lemma cache_assign_inv:
  assumes "cache_inv c" and "entry_ok e"
    and "k \<notin> fst ` set (m_Cache c) \<longrightarrow> length (m_Cache c) < m_MaxEntries c"
  shows "cache_inv (c\<lparr>m_Cache := cache_assign k e (m_Cache c)\<rparr>)"
proof -
  have "distinct (map fst (cache_assign k e (m_Cache c)))"
    using assms(1) by (auto simp: keys_cache_assign cache_inv_def)
  moreover have "length (cache_assign k e (m_Cache c)) \<le> m_MaxEntries c"
    using assms(1,3) by (auto simp: length_cache_assign cache_inv_def)
  moreover have "entry_ok e'" if "(k', e') \<in> set (cache_assign k e (m_Cache c))" for k' e'
  proof -
    from that have "e' \<in> snd ` set (cache_assign k e (m_Cache c))" by force
    then have "e' \<in> insert e (snd ` set (m_Cache c))" using values_cache_assign by blast
    then show ?thesis using assms(1,2) by (auto simp: cache_inv_def)
  qed
  ultimately show ?thesis by (auto simp: cache_inv_def)
qed


section \<open>Sequences of operations\<close>

text \<open>A store whose operations each write at most one entry, as the servers use it: whatever is stored was
  written by an operation of the sequence.\<close>

primrec run_ops :: "('op \<Rightarrow> 's \<Rightarrow> 's option) \<Rightarrow> 'op list \<Rightarrow> 's \<Rightarrow> 's option" where
  "run_ops step [] s = Some s"
| "run_ops step (op # ops) s = (case step op s of None \<Rightarrow> None | Some s' \<Rightarrow> run_ops step ops s')"

locale keyed_store =
  fixes step :: "'op \<Rightarrow> 's \<Rightarrow> 's option"
    and view :: "'s \<Rightarrow> 'k \<Rightarrow> 'e option"
    and wrote :: "'op \<Rightarrow> ('k \<times> 'e) option"
    and inv :: "'s \<Rightarrow> bool"
  assumes step_total: "inv s \<Longrightarrow> step op s \<noteq> None"
    and step_inv: "\<lbrakk>inv s; step op s = Some s'\<rbrakk> \<Longrightarrow> inv s'"
    and step_view: "\<lbrakk>inv s; step op s = Some s'; view s' k = Some e\<rbrakk>
      \<Longrightarrow> view s k = Some e \<or> wrote op = Some (k, e)"
begin

lemma run_total: "inv s \<Longrightarrow> run_ops step ops s \<noteq> None"
  using step_total step_inv by (induction ops arbitrary: s) (fastforce split: option.split)+

lemma run_inv: "inv s \<Longrightarrow> run_ops step ops s = Some s' \<Longrightarrow> inv s'"
  using step_inv by (induction ops arbitrary: s) (auto split: option.splits)

lemma run_provenance:
  "inv s \<Longrightarrow> run_ops step ops s = Some s' \<Longrightarrow> view s' k = Some e \<Longrightarrow>
   view s k = Some e \<or> (\<exists>op\<in>set ops. wrote op = Some (k, e))"
proof (induction ops arbitrary: s)
  case (Cons op ops)
  then obtain s1 where s1: "step op s = Some s1" "run_ops step ops s1 = Some s'" by (auto split: option.splits)
  with Cons.prems step_inv have "inv s1" by blast
  from Cons.IH [OF this s1(2) Cons.prems(3)] step_view [OF Cons.prems(1) s1(1)] show ?case by auto
qed simp

end

datatype cache_op =
    Op_Insert string u16 bytes int int
  | Op_Lookup string u16 u16 int
  | Op_Clear

fun cache_step :: "cache_op \<Rightarrow> DnsCache \<Rightarrow> DnsCache option" where
  "cache_step (Op_Insert d t r te tn) c = DnsCache_Insert d t r te tn c"
| "cache_step (Op_Lookup d t x now) c = map_option (snd \<circ> snd) (DnsCache_Lookup d t x now [] c)"
| "cache_step Op_Clear c = Some (DnsCache_Clear c)"

fun cache_wrote :: "cache_op \<Rightarrow> (CacheKey \<times> CacheEntry) option" where
  "cache_wrote (Op_Insert d t r te tn) =
     Some ((ToLower d, t), \<lparr>ce_response = r, ce_insert_time = tn, ce_min_ttl = ExtractMinTtl r (length r)\<rparr>)"
| "cache_wrote _ = None"

lemma Lookup_state:
  "map_option (snd \<circ> snd) (DnsCache_Lookup d t x now out c) =
     Some (case map_of (m_Cache c) (ToLower d, t) of
        None \<Rightarrow> c
      | Some e \<Rightarrow> if entry_expired now e then c\<lparr>m_Cache := cache_erase (ToLower d, t) (m_Cache c)\<rparr> else c)"
  by (simp add: Lookup_eq Let_def split: option.split)

lemma Insert_cases:
  assumes "cache_inv c" and "DnsCache_Insert d t r te tn c = Some c'"
  shows "c' = c \<or> (\<exists>c1 e. make_room (ToLower d, t) te c = Some c1 \<and> entry_ok e \<and>
     e = \<lparr>ce_response = r, ce_insert_time = tn, ce_min_ttl = ExtractMinTtl r (length r)\<rparr> \<and>
     c' = c1\<lparr>m_Cache := cache_assign (ToLower d, t) e (m_Cache c1)\<rparr>)"
  using assms(2) by (auto simp: Insert_eq entry_ok_def not_less split: if_splits)

lemma cache_step_inv:
  assumes "cache_inv c" and "cache_step op c = Some c'"
  shows "cache_inv c' \<and> m_MaxEntries c' = m_MaxEntries c \<and>
    (\<forall>k e. map_of (m_Cache c') k = Some e \<longrightarrow> map_of (m_Cache c) k = Some e \<or> cache_wrote op = Some (k, e))"
proof (cases op)
  case (Op_Insert d t r te tn)
  with assms consider "c' = c" | c1 e where "make_room (ToLower d, t) te c = Some c1" "entry_ok e"
    "e = \<lparr>ce_response = r, ce_insert_time = tn, ce_min_ttl = ExtractMinTtl r (length r)\<rparr>"
    "c' = c1\<lparr>m_Cache := cache_assign (ToLower d, t) e (m_Cache c1)\<rparr>"
    using Insert_cases [OF assms(1), of d t r te tn c'] by auto
  then show ?thesis
  proof cases
    case 2
    from make_room_spec [OF assms(1) 2(1)] cache_assign_inv [OF _ 2(2), of c1 "(ToLower d, t)"]
    show ?thesis by (auto simp: 2(3,4) Op_Insert map_of_cache_assign split: if_splits)
  qed (use assms in simp)
next
  case (Op_Lookup d t x now)
  then have "c' = c \<or> c' = c\<lparr>m_Cache := cache_erase (ToLower d, t) (m_Cache c)\<rparr>"
    using assms(2) by (auto simp: Lookup_state simp del: map_option_eq_Some split: option.splits if_splits)
  then show ?thesis
    using assms(1) cache_erase_inv [OF assms(1)] by (auto simp: map_of_cache_erase split: if_splits)
next
  case Op_Clear
  then show ?thesis using assms by (auto simp: DnsCache_Clear_def cache_inv_def)
qed

lemma Insert_total: "0 < m_MaxEntries c \<Longrightarrow> DnsCache_Insert d t r te tn c \<noteq> None"
  using make_room_Some [of c "(ToLower d, t)" te] by (auto simp: Insert_eq)

interpretation cache_store:
  keyed_store cache_step "\<lambda>c. map_of (m_Cache c)" cache_wrote "\<lambda>c. cache_inv c \<and> 0 < m_MaxEntries c"
proof unfold_locales
  fix c op
  assume "cache_inv c \<and> 0 < m_MaxEntries c"
  then show "cache_step op c \<noteq> None" using Insert_total by (cases op) (auto simp: Lookup_eq)
next
  fix c op c'
  assume "cache_inv c \<and> 0 < m_MaxEntries c" "cache_step op c = Some c'"
  then show "cache_inv c' \<and> 0 < m_MaxEntries c'" using cache_step_inv [of c op c'] by simp
next
  fix c op c' k e
  assume "cache_inv c \<and> 0 < m_MaxEntries c" "cache_step op c = Some c'" "map_of (m_Cache c') k = Some e"
  then show "map_of (m_Cache c) k = Some e \<or> cache_wrote op = Some (k, e)"
    using cache_step_inv [of c op c'] by blast
qed

section \<open>Lemmas: the walk agrees with the packet parser\<close>

lemma ReadUint16_load: "ReadUint16 d i = NetworkToHost (load16 d i)"
  by (simp add: ReadUint16_def NetworkToHost_load16)

lemma ReadUint32_load: "ReadUint32 d i = NetworkToHost (load32 d i)"
  by (simp add: ReadUint32_def NetworkToHost_load32)

lemma SkipDnsName_name_at: "name_at d n i ls j k \<Longrightarrow> SkipDnsName d n i = j"
proof (induction rule: name_at.induct)
  case (root i)
  then show ?case by (subst SkipDnsName.simps) simp
next
  case (label i len ls j k)
  then have "d ! i \<noteq> 0" "d ! i AND 0xC0 \<noteq> 0xC0" using short_not_pointer [of "d ! i"] by auto
  with label show ?case by (subst SkipDnsName.simps) (simp add: Let_def)
next
  case (pointer i ls j k)
  then show ?case by (subst SkipDnsName.simps) simp
qed

lemma SkipDnsName_gt: "SkipDnsName d n i \<noteq> 0 \<Longrightarrow> i < SkipDnsName d n i"
proof (induction d n i rule: SkipDnsName.induct)
  case (1 d n i)
  show ?case
  proof (cases "i < n \<and> d ! i AND 0xC0 \<noteq> 0xC0 \<and> d ! i \<noteq> 0")
    case True
    then have "SkipDnsName d n i = SkipDnsName d n (i + 1 + unat (d ! i))"
      by (subst SkipDnsName.simps) (simp add: Let_def)
    then show ?thesis using 1 True by (fastforce simp: Let_def)
  next
    case False
    then show ?thesis using 1(2) by (subst SkipDnsName.simps, subst (asm) SkipDnsName.simps) (auto simp: Let_def split: if_splits)
  qed
qed

lemma skip_questions_ge: "skip_questions d n k off = Some off' \<Longrightarrow> off \<le> off'"
proof (induction k arbitrary: off)
  case (Suc k)
  then show ?case using SkipDnsName_gt [of d n off] by (fastforce simp: Let_def split: if_splits)
qed simp

lemma SkipDnsName_parsed:
  "ParseDomainName d n off [] = (True, off', ls) \<Longrightarrow> SkipDnsName d n off = off' \<and> off' \<noteq> 0"
  using SkipDnsName_name_at name_at_bounds by (fastforce simp: ParseDomainName_iff)

definition record_min :: "u32 \<Rightarrow> DnsAnswer \<Rightarrow> u32" where
  "record_min m a = (if DnsAnswer_Type a False \<noteq> 41 then min m (DnsAnswer_Ttl a False) else m)"

lemma question_skip:
  "DnsQuestion_FromWire (Some d) n off q0 = (True, off', q) \<Longrightarrow>
   SkipDnsName d n off \<noteq> 0 \<and> SkipDnsName d n off + 4 = off' \<and> off' \<le> n"
  using SkipDnsName_parsed
  by (fastforce simp: DnsQuestion_FromWire_def split: prod.splits if_splits)

lemma skip_questions_parsed:
  "parse_section DnsQuestion_FromWire q0 (Some d) n k off acc = (True, off', qs) \<Longrightarrow>
   skip_questions d n k off = Some off'"
  using question_skip by (induction k arbitrary: off acc) (fastforce split: prod.splits if_splits)+

lemma answer_walk:
  assumes "DnsAnswer_FromWire (Some d) n off a0 = (True, off', a)"
  shows "min_ttl_loop d n (Suc k) off m = min_ttl_loop d n k off' (record_min m a)"
proof -
  obtain o1 ls where p: "ParseDomainName d n off [] = (True, o1, ls)" and o1: "o1 + 10 \<le> n"
    and fits: "o1 + 10 + unat (NetworkToHost (load16 d (o1 + 8))) \<le> n"
    and off': "off' = o1 + 10 + unat (NetworkToHost (load16 d (o1 + 8)))"
    and ty: "m_Type a = load16 d o1" and ttl: "m_Ttl a = load32 d (o1 + 4)"
    using assms by (auto simp: DnsAnswer_FromWire_def DnsAnswer_UpdateRDLENGTH_def Let_def split: prod.splits if_splits)
  have "SkipDnsName d n off = o1" "o1 \<noteq> 0" using SkipDnsName_parsed [OF p] by auto
  then show ?thesis
    using o1 fits off' ty ttl
    by (simp add: Let_def record_min_def DnsAnswer_Type_def DnsAnswer_Ttl_def ReadUint16_load ReadUint32_load add.assoc)
qed

lemma section_walk:
  "parse_section DnsAnswer_FromWire a0 (Some d) n k off acc = (True, off', acc @ as) \<Longrightarrow>
   min_ttl_loop d n (k + r) off m = min_ttl_loop d n r off' (foldl record_min m as)"
proof (induction k arbitrary: off acc as m)
  case (Suc k)
  obtain ok o1 a where d: "DnsAnswer_FromWire (Some d) n off a0 = (ok, o1, a)" by (metis prod_cases3)
  with Suc.prems have ok: "ok" and p: "parse_section DnsAnswer_FromWire a0 (Some d) n k o1 (acc @ [a]) = (True, off', acc @ as)"
    by (auto split: if_splits)
  have step: "DnsAnswer_FromWire (Some d) n off a0 = (True, o1, a)" using d ok by simp
  have pre: "take (length (acc @ [a])) xs = acc @ [a]"
    if "parse_section DnsAnswer_FromWire a0 (Some d) n k o1 (acc @ [a]) = (True, off', xs)" for xs
    using that answer_codec.parse_section_bounds answer_FromWire_bounds [OF step] by blast
  from pre [OF p] have "take (Suc 0) as = [a]" by simp
  then obtain as' where as: "as = a # as'" by (cases as) simp_all
  with p have "parse_section DnsAnswer_FromWire a0 (Some d) n k o1 (acc @ [a]) = (True, off', (acc @ [a]) @ as')" by simp
  from Suc.IH [OF this] answer_walk [OF step] show ?case by (simp only: add_Suc as foldl.simps)
qed simp

definition response_records :: "DnsResponsePacket \<Rightarrow> DnsAnswer list" where
  "response_records p = resp_Answers p @ resp_Authority p @ resp_Additional p"

definition timed_records :: "DnsResponsePacket \<Rightarrow> DnsAnswer list" where
  "timed_records p = filter (\<lambda>a. DnsAnswer_Type a False \<noteq> 41) (response_records p)"

lemma foldl_record_min:
  "foldl record_min m as = Min (insert m (set (map (\<lambda>a. DnsAnswer_Ttl a False) (filter (\<lambda>a. DnsAnswer_Type a False \<noteq> 41) as))))"
proof (induction as rule: rev_induct)
  case (snoc a as)
  let ?S = "set (map (\<lambda>a. DnsAnswer_Ttl a False) (filter (\<lambda>a. DnsAnswer_Type a False \<noteq> 41) as))"
  have "Min (insert m (insert t ?S)) = min (Min (insert m ?S)) t" for t
    by (subst insert_commute, subst Min_insert) (simp_all only: finite_insert finite_set insert_not_empty not_False_eq_True min.commute)
  with snoc show ?case by (simp add: record_min_def Un_insert_right del: Min_insert)
qed simp

lemma response_FromWire_header:
  "DnsResponsePacket_FromWire (Some d) n p0 = (True, p) \<Longrightarrow> resp_Header p = DnsHeader_copy_in d"
  by (auto simp: DnsResponsePacket_FromWire_def DnsHeader_FromWire_def DnsHeader_HeaderSize_def Let_def
      split: if_splits prod.splits)

lemma copied_counts:
  "DnsHeader_Qdcount (DnsHeader_copy_in d) False = ReadUint16 d 4"
  "DnsHeader_Ancount (DnsHeader_copy_in d) False = ReadUint16 d 6"
  "DnsHeader_Nscount (DnsHeader_copy_in d) False = ReadUint16 d 8"
  "DnsHeader_Arcount (DnsHeader_copy_in d) False = ReadUint16 d 10"
  by (simp_all add: DnsHeader_copy_in_def ReadUint16_load DnsHeader_Qdcount_def DnsHeader_Ancount_def
      DnsHeader_Nscount_def DnsHeader_Arcount_def)

lemma unat_total_rr:
  "unat a + unat b + unat c < 65536 \<Longrightarrow> unat (a + b + c :: u16) = unat a + unat b + unat c"
  by (simp add: unat_word_ariths)

lemma ExtractMinTtl_foldl:
  assumes "DnsResponsePacket_FromWire (Some d) n p0 = (True, p)" and "length (response_records p) < 65536"
  shows "ExtractMinTtl d n = (let m = foldl record_min UINT32_MAX (response_records p) in if m = UINT32_MAX then 0 else m)"
proof -
  note h = response_FromWire_header [OF assms(1)]
  from assms(1) obtain o1 o2 o3 o4 where n: "12 \<le> n"
    and q: "parse_section DnsQuestion_FromWire DnsQuestion_default (Some d) n
       (unat (DnsHeader_Qdcount (resp_Header p) False)) 12 [] = (True, o1, resp_Questions p)"
    and a: "parse_section DnsAnswer_FromWire DnsAnswer_default (Some d) n
       (unat (DnsHeader_Ancount (resp_Header p) False)) o1 [] = (True, o2, resp_Answers p)"
    and b: "parse_section DnsAnswer_FromWire DnsAnswer_default (Some d) n
       (unat (DnsHeader_Nscount (resp_Header p) False)) o2 [] = (True, o3, resp_Authority p)"
    and c: "parse_section DnsAnswer_FromWire DnsAnswer_default (Some d) n
       (unat (DnsHeader_Arcount (resp_Header p) False)) o3 [] = (True, o4, resp_Additional p)"
    by (rule response_FromWire_steps)
  have o: "o1 \<le> n" "o2 \<le> n" "o3 \<le> n"
    and len: "length (resp_Answers p) = unat (ReadUint16 d 6)" "length (resp_Authority p) = unat (ReadUint16 d 8)"
      "length (resp_Additional p) = unat (ReadUint16 d 10)"
    using question_codec.parse_section_bounds [OF q n] answer_codec.parse_section_bounds [OF a]
      answer_codec.parse_section_bounds [OF b] answer_codec.parse_section_bounds [OF c]
    by (simp_all add: h copied_counts)
  then have total: "unat (total_rr d) = unat (ReadUint16 d 6) + (unat (ReadUint16 d 8) + (unat (ReadUint16 d 10) + 0))"
    using assms(2) by (simp add: total_rr_def unat_total_rr response_records_def)
  have skip: "skip_questions d n (unat (ReadUint16 d 4)) 12 = Some o1"
    using skip_questions_parsed [OF q] by (simp add: h copied_counts)
  have walk: "min_ttl_loop d n (unat (total_rr d)) o1 UINT32_MAX = foldl record_min UINT32_MAX (response_records p)"
    using section_walk [of DnsAnswer_default d n _ o1 "[]" o2 "resp_Answers p"] a
      section_walk [of DnsAnswer_default d n _ o2 "[]" o3 "resp_Authority p"] b
      section_walk [of DnsAnswer_default d n _ o3 "[]" o4 "resp_Additional p"] c
    unfolding total by (simp only: h copied_counts append_Nil response_records_def foldl_append min_ttl_loop.simps)
  show ?thesis
  proof (cases "total_rr d = 0")
    case True
    then have "response_records p = []" using total len by (simp add: response_records_def)
    with True n show ?thesis by (simp add: ExtractMinTtl_def Let_def)
  next
    case False
    with n skip walk show ?thesis by (simp add: ExtractMinTtl_def Let_def)
  qed
qed

lemma UINT32_MAX_top: "w \<le> UINT32_MAX" for w :: u32
  using unsigned_less [of w, where ?'a = nat] by (simp add: UINT32_MAX_def word_le_nat_alt)

section \<open>Lemmas: rewriting a response\<close>

lemma WriteUint16_hit: "i = length xs \<Longrightarrow> WriteUint16 (xs @ mem16 w @ ys) i v = xs @ mem16 (HostToNetwork v) @ ys"
proof -
  have "(ucast (v AND 0xFF) :: byte) = ucast v"
    by (rule bit_word_eqI) (auto simp: bit_simps mask255)
  then show "i = length xs \<Longrightarrow> WriteUint16 (xs @ mem16 w @ ys) i v = xs @ mem16 (HostToNetwork v) @ ys"
    by (simp add: WriteUint16_def mem16_HostToNetwork) (simp add: mem16_def list_update_append)
qed

lemma ucast_and_255: "(ucast (v AND 0xFF :: u32) :: byte) = ucast v"
  by (rule bit_word_eqI) (auto simp: bit_simps mask255)

lemma WriteUint32_hit: "i = length xs \<Longrightarrow> WriteUint32 (xs @ mem32 w @ ys) i v = xs @ mem32 (HostToNetwork v) @ ys"
  by (simp add: WriteUint32_def mem32_HostToNetwork ucast_and_255 del: drop_bit_and)
    (simp add: mem32_def list_update_append)

text \<open>The effect on one record, on a packet, and of the transaction identifier.\<close>

definition adjusted :: "u32 \<Rightarrow> DnsAnswer \<Rightarrow> DnsAnswer" where
  "adjusted e a =
     (if DnsAnswer_Type a False \<noteq> 41
      then DnsAnswer_SetTtl (if DnsAnswer_Ttl a False > e then DnsAnswer_Ttl a False - e else 1) False a else a)"

definition adjusted_packet :: "u32 \<Rightarrow> DnsResponsePacket \<Rightarrow> DnsResponsePacket" where
  "adjusted_packet e p = p\<lparr>resp_Answers := map (adjusted e) (resp_Answers p),
     resp_Authority := map (adjusted e) (resp_Authority p), resp_Additional := map (adjusted e) (resp_Additional p)\<rparr>"

lemma adjusted_image:
  assumes "DnsAnswer_Type a False \<noteq> 41"
  shows "WriteUint32 (pre @ answer_image a @ post) (length pre + length (labels_image (m_Name a)) + 4)
      (if DnsAnswer_Ttl a False > e then DnsAnswer_Ttl a False - e else 1)
    = pre @ answer_image (adjusted e a) @ post"
proof -
  let ?t = "if DnsAnswer_Ttl a False > e then DnsAnswer_Ttl a False - e else 1"
  let ?pre = "pre @ labels_image (m_Name a) @ mem16 (m_Type a) @ mem16 (m_Class a)"
  let ?post = "mem16 (m_Rdlength a) @ m_Rdata a @ post"
  have "pre @ answer_image a @ post = ?pre @ mem32 (m_Ttl a) @ ?post"
    by (simp add: answer_image_def)
  moreover have "pre @ answer_image (adjusted e a) @ post = ?pre @ mem32 (HostToNetwork ?t) @ ?post"
    using assms by (simp add: answer_image_def adjusted_def DnsAnswer_SetTtl_def)
  ultimately show ?thesis
    using WriteUint32_hit [of "length pre + length (labels_image (m_Name a)) + 4" ?pre "m_Ttl a" ?post ?t]
    by simp
qed

lemma length_adjusted_image [simp]: "length (answer_image (adjusted e a)) = length (answer_image a)"
  by (simp add: answer_image_def adjusted_def DnsAnswer_SetTtl_def)

lemma adjust_loop_record:
  assumes "answer_wf a" and n: "length pre + length (answer_image a) \<le> n"
  shows "adjust_loop e n (Suc k) (length pre) (pre @ answer_image a @ post) =
    adjust_loop e n k (length pre + length (answer_image a)) (pre @ answer_image (adjusted e a) @ post)"
proof -
  let ?d = "pre @ answer_image a @ post"
  let ?o = "length pre + length (labels_image (m_Name a))"
  have d: "?d = pre @ labels_image (m_Name a) @ mem16 (m_Type a) @ mem16 (m_Class a) @ mem32 (m_Ttl a)
      @ mem16 (m_Rdlength a) @ m_Rdata a @ post" by (simp add: answer_image_def)
  have len: "length (answer_image a) = length (labels_image (m_Name a)) + 10 + length (m_Rdata a)"
    by (simp add: answer_image_def)
  have "labels_wf (m_Name a)" using assms(1) by (simp add: answer_wf_def)
  then have "ParseDomainName ?d n (length pre) [] = (True, ?o, m_Name a)"
    using ParseDomainName_image [of "m_Name a" pre n] n len by (simp add: d)
  from SkipDnsName_parsed [OF this] have skip: "SkipDnsName ?d n (length pre) = ?o" "?o \<noteq> 0" by blast+
  have "load16 ?d ?o = m_Type a" "load32 ?d (?o + 4) = m_Ttl a" "load16 ?d (?o + 8) = m_Rdlength a"
    by (simp_all add: d load16_skip load16_hit load32_skip load32_hit)
  then have reads: "ReadUint16 ?d ?o = DnsAnswer_Type a False" "ReadUint32 ?d (?o + 4) = DnsAnswer_Ttl a False"
    "ReadUint16 ?d (?o + 8) = NetworkToHost (m_Rdlength a)"
    by (simp_all add: ReadUint16_load ReadUint32_load DnsAnswer_Type_def DnsAnswer_Ttl_def)
  have rdlen: "unat (NetworkToHost (m_Rdlength a)) = length (m_Rdata a)"
    using assms(1) by (simp add: answer_wf_def rdlength_ok_def unat_of_nat_u16)
  have "answer_image (adjusted e a) = answer_image a" if "DnsAnswer_Type a False = 41"
    using that by (simp add: adjusted_def)
  then have "(if DnsAnswer_Type a False \<noteq> 41 then WriteUint32 ?d (?o + 4)
      (if DnsAnswer_Ttl a False > e then DnsAnswer_Ttl a False - e else 1) else ?d)
      = pre @ answer_image (adjusted e a) @ post"
    using adjusted_image [of a pre post e] by simp
  then show ?thesis
    using skip reads rdlen n len by (simp only: adjust_loop.simps Let_def) (simp add: add.assoc)
qed

lemma adjust_loop_records:
  "\<lbrakk>\<forall>a\<in>set as. answer_wf a; length pre + length (answers_image as) \<le> n\<rbrakk> \<Longrightarrow>
   adjust_loop e n (length as + k) (length pre) (pre @ answers_image as @ post) =
     adjust_loop e n k (length pre + length (answers_image as)) (pre @ answers_image (map (adjusted e) as) @ post)"
proof (induction as arbitrary: pre)
  case (Cons a as)
  have img: "answers_image (a # as) = answer_image a @ answers_image as" by (simp add: answers_image_def)
  have "adjust_loop e n (length (a # as) + k) (length pre) (pre @ answers_image (a # as) @ post) =
      adjust_loop e n (length as + k) (length pre + length (answer_image a))
        (pre @ answer_image (adjusted e a) @ answers_image as @ post)"
    using adjust_loop_record [of a pre n e "length as + k" "answers_image as @ post"] Cons.prems by (simp add: img)
  also have "\<dots> = adjust_loop e n k (length pre + length (answer_image a) + length (answers_image as))
        (pre @ answer_image (adjusted e a) @ answers_image (map (adjusted e) as) @ post)"
    using Cons.IH [of "pre @ answer_image (adjusted e a)"] Cons.prems by (simp add: img)
  finally show ?case by (simp add: answers_image_def add.assoc)
qed (simp add: answers_image_def)

lemma response_image_reads:
  "ReadUint16 (response_image p @ post) 4 = DnsHeader_Qdcount (resp_Header p) False"
  "total_rr (response_image p @ post) = DnsHeader_Ancount (resp_Header p) False
     + DnsHeader_Nscount (resp_Header p) False + DnsHeader_Arcount (resp_Header p) False"
proof -
  have "DnsHeader_copy_in (response_image p @ post) = resp_Header p"
    by (simp add: response_image_def copy_in_image)
  then show "ReadUint16 (response_image p @ post) 4 = DnsHeader_Qdcount (resp_Header p) False"
    "total_rr (response_image p @ post) = DnsHeader_Ancount (resp_Header p) False
       + DnsHeader_Nscount (resp_Header p) False + DnsHeader_Arcount (resp_Header p) False"
    by (metis copied_counts(1), metis total_rr_def copied_counts(2-4))
qed

text \<open>What it takes for a response to be written as it is: \<open>DnsResponsePacket_Valid\<close> of the source and records
  stored uncompressed.\<close>

definition response_wf :: "DnsResponsePacket \<Rightarrow> bool" where
  "response_wf p \<longleftrightarrow> DnsResponsePacket_Valid p \<and> list_all answer_wf (response_records p) \<and>
     length (response_records p) < 65536"

lemma response_wf_facts:
  assumes "response_wf p"
  shows "DnsHeader_Valid (resp_Header p)" "DnsHeader_IsResponse (resp_Header p)"
    "unat (DnsHeader_Qdcount (resp_Header p) False) = length (resp_Questions p)"
    "unat (DnsHeader_Ancount (resp_Header p) False) = length (resp_Answers p)"
    "unat (DnsHeader_Nscount (resp_Header p) False) = length (resp_Authority p)"
    "unat (DnsHeader_Arcount (resp_Header p) False) = length (resp_Additional p)"
    "\<forall>q\<in>set (resp_Questions p). labels_wf (m_Qname q)"
    "\<forall>a\<in>set (resp_Answers p). answer_wf a" "\<forall>a\<in>set (resp_Authority p). answer_wf a"
    "\<forall>a\<in>set (resp_Additional p). answer_wf a"
    "length (resp_Answers p) + length (resp_Authority p) + length (resp_Additional p) < 65536"
  using assms unfolding response_wf_def DnsResponsePacket_Valid_def
  by (auto simp: response_records_def list_all_iff intro: valid_labels_wf Valid_labels split: if_splits)

lemma response_wf_parses:
  "response_wf p \<Longrightarrow> DnsResponsePacket_FromWire (Some (response_image p)) (length (response_image p)) p0 = (True, p)"
  using response_FromWire_image [of p "length (response_image p)" "[]" p0] response_wf_facts [of p]
  by (simp add: length_response_image ball_Un)

lemma AdjustTtls_image:
  assumes wf: "response_wf p" and "e \<noteq> 0"
  shows "AdjustTtls (response_image p) e = (True, response_image (adjusted_packet e p))"
proof -
  let ?h = "DnsHeader_image (resp_Header p)" and ?q = "questions_image (resp_Questions p)"
  let ?an = "answers_image (resp_Answers p)" and ?ns = "answers_image (resp_Authority p)"
  let ?ar = "answers_image (resp_Additional p)"
  let ?an' = "answers_image (map (adjusted e) (resp_Answers p))"
  let ?ns' = "answers_image (map (adjusted e) (resp_Authority p))"
  let ?n = "length (response_image p)"
  note facts = response_wf_facts [OF wf]
  have len_adj: "length (answers_image (map (adjusted e) as)) = length (answers_image as)" for as
    by (induction as) (simp_all add: answers_image_def)
  have d: "response_image p = ?h @ ?q @ ?an @ ?ns @ ?ar" by (simp add: response_image_def)
  have n: "?n = 12 + length ?q + length ?an + length ?ns + length ?ar" by (simp add: d)
  have total: "total_rr (response_image p) = DnsHeader_Ancount (resp_Header p) False
     + DnsHeader_Nscount (resp_Header p) False + DnsHeader_Arcount (resp_Header p) False"
    using response_image_reads(2) [of p "[]"] by simp
  then have utotal: "unat (total_rr (response_image p)) =
      length (resp_Answers p) + (length (resp_Authority p) + (length (resp_Additional p) + 0))"
    using facts(4-6,11) by (simp add: unat_total_rr)
  have qd: "unat (ReadUint16 (response_image p) 4) = length (resp_Questions p)"
    using response_image_reads(1) [of p "[]"] facts(3) by simp
  have "parse_section DnsQuestion_FromWire DnsQuestion_default (Some (response_image p)) ?n
      (length (resp_Questions p)) 12 [] = (True, 12 + length ?q, resp_Questions p)"
    using parse_questions [of "resp_Questions p" ?h ?n DnsQuestion_default "?an @ ?ns @ ?ar" "[]"] facts(7) n
    by (simp add: d)
  then have skip: "skip_questions (response_image p) ?n (length (resp_Questions p)) 12 = Some (12 + length ?q)"
    by (rule skip_questions_parsed)
  have 1: "adjust_loop e ?n (length (resp_Answers p) + k) (12 + length ?q) (response_image p) =
      adjust_loop e ?n k (12 + length ?q + length ?an) (?h @ ?q @ ?an' @ ?ns @ ?ar)" for k
    using adjust_loop_records [of "resp_Answers p" "?h @ ?q" ?n e k "?ns @ ?ar"] facts(8) n by (simp add: d)
  have 2: "adjust_loop e ?n (length (resp_Authority p) + k) (12 + length ?q + length ?an) (?h @ ?q @ ?an' @ ?ns @ ?ar) =
      adjust_loop e ?n k (12 + length ?q + length ?an + length ?ns) (?h @ ?q @ ?an' @ ?ns' @ ?ar)" for k
    using adjust_loop_records [of "resp_Authority p" "?h @ ?q @ ?an'" ?n e k "?ar"] facts(9) n
    by (simp add: len_adj add.assoc)
  have 3: "adjust_loop e ?n (length (resp_Additional p) + k) (12 + length ?q + length ?an + length ?ns)
        (?h @ ?q @ ?an' @ ?ns' @ ?ar) =
      adjust_loop e ?n k (12 + length ?q + length ?an + length ?ns + length ?ar)
        (?h @ ?q @ ?an' @ ?ns' @ answers_image (map (adjusted e) (resp_Additional p)))" for k
    using adjust_loop_records [of "resp_Additional p" "?h @ ?q @ ?an' @ ?ns'" ?n e k "[]"] facts(10) n
    by (simp add: len_adj add.assoc)
  have adj: "?h @ ?q @ ?an' @ ?ns' @ answers_image (map (adjusted e) (resp_Additional p)) = response_image (adjusted_packet e p)"
    by (simp add: response_image_def adjusted_packet_def)
  have loop: "adjust_loop e ?n (unat (total_rr (response_image p))) (12 + length ?q) (response_image p)
      = (True, response_image (adjusted_packet e p))"
    unfolding utotal 1 2 3 by (simp add: adj)
  have "12 \<le> ?n" using n by simp
  show ?thesis
  proof (cases "total_rr (response_image p) = 0")
    case True
    with utotal have "adjusted_packet e p = p" by (cases p) (simp add: adjusted_packet_def)
    with True show ?thesis by (simp add: AdjustTtls_def Let_def)
  next
    case False
    with \<open>12 \<le> ?n\<close> assms(2) qd skip loop show ?thesis by (simp add: AdjustTtls_def Let_def)
  qed
qed

lemma AdjustTtls_length: "length (snd (AdjustTtls r e)) = length r"
proof -
  have "length (snd (adjust_loop e n k off r)) = length r" for n k off r
    by (induction k arbitrary: off r) (auto simp: Let_def WriteUint32_def)
  then show ?thesis by (auto simp: AdjustTtls_def Let_def split: option.split)
qed

lemma WriteId_image:
  "WriteUint16 (response_image p) 0 txid = response_image (p\<lparr>resp_Header := DnsHeader_SetId txid False (resp_Header p)\<rparr>)"
  using WriteUint16_hit [of 0 "[]" "m_Id (resp_Header p)" "drop 2 (response_image p)" txid]
  by (simp add: response_image_def DnsHeader_image_def DnsHeader_SetId_def)

lemma SetId_wf: "response_wf p \<Longrightarrow> response_wf (p\<lparr>resp_Header := DnsHeader_SetId txid False (resp_Header p)\<rparr>)"
proof -
  have "DnsHeader_Z h False = v_z (header_view h)" for h by (simp add: header_view_def)
  then show "response_wf p \<Longrightarrow> response_wf (p\<lparr>resp_Header := DnsHeader_SetId txid False (resp_Header p)\<rparr>)"
    by (simp add: response_wf_def response_records_def DnsResponsePacket_Valid_def DnsHeader_Valid_def
        DnsHeader_IsResponse_def header_of_view split: if_splits)
qed

section \<open>Lemmas: what is served\<close>

lemma ExtractMinTtl_image:
  assumes "response_wf p"
  shows "ExtractMinTtl (response_image p) (length (response_image p)) =
    (let m = foldl record_min UINT32_MAX (response_records p) in if m = UINT32_MAX then 0 else m)"
  using assms by (intro ExtractMinTtl_foldl [OF response_wf_parses]) (simp_all add: response_wf_def)

lemma foldl_record_min_le:
  "a \<in> set as \<Longrightarrow> DnsAnswer_Type a False \<noteq> 41 \<Longrightarrow> foldl record_min m as \<le> DnsAnswer_Ttl a False"
  by (subst foldl_record_min, rule Min_le) auto

lemma min_ttl_le_image:
  assumes "response_wf p" and "a \<in> set (timed_records p)"
  shows "ExtractMinTtl (response_image p) (length (response_image p)) \<le> DnsAnswer_Ttl a False"
  using foldl_record_min_le [of a "response_records p" UINT32_MAX] assms(2)
  by (auto simp: ExtractMinTtl_image [OF assms(1)] timed_records_def Let_def)

text \<open>The record a client is given: its TTL is what is left of the original one.\<close>

definition aged :: "u32 \<Rightarrow> DnsAnswer \<Rightarrow> DnsAnswer" where
  "aged e a = (if DnsAnswer_Type a False \<noteq> 41 then DnsAnswer_SetTtl (DnsAnswer_Ttl a False - e) False a else a)"

definition aged_packet :: "u16 \<Rightarrow> u32 \<Rightarrow> DnsResponsePacket \<Rightarrow> DnsResponsePacket" where
  "aged_packet txid e p =
     p\<lparr>resp_Header := DnsHeader_SetId txid False (resp_Header p), resp_Answers := map (aged e) (resp_Answers p),
       resp_Authority := map (aged e) (resp_Authority p), resp_Additional := map (aged e) (resp_Additional p)\<rparr>"

lemma aged_zero: "aged 0 a = a"
  by (cases a) (simp add: aged_def DnsAnswer_SetTtl_def DnsAnswer_Ttl_def)

lemma adjusted_aged:
  assumes "\<forall>a\<in>set (timed_records p). e < DnsAnswer_Ttl a False"
  shows "adjusted_packet e (p\<lparr>resp_Header := h\<rparr>) =
    p\<lparr>resp_Header := h, resp_Answers := map (aged e) (resp_Answers p),
      resp_Authority := map (aged e) (resp_Authority p), resp_Additional := map (aged e) (resp_Additional p)\<rparr>"
proof -
  have "adjusted e a = aged e a" if "a \<in> set (response_records p)" for a
    using assms that by (auto simp: adjusted_def aged_def timed_records_def)
  then show ?thesis by (simp add: adjusted_packet_def response_records_def)
qed

lemma serve_image:
  assumes wf: "response_wf p" and e: "\<forall>a\<in>set (timed_records p). e < DnsAnswer_Ttl a False"
  shows "snd (AdjustTtls (WriteUint16 (response_image p) 0 txid) e) = response_image (aged_packet txid e p)"
proof (cases "e = 0")
  case True
  then show ?thesis
    by (cases p) (simp add: AdjustTtls_def WriteId_image aged_packet_def aged_zero [abs_def] map_idI)
next
  case False
  have "snd (AdjustTtls (WriteUint16 (response_image p) 0 txid) e) =
      response_image (adjusted_packet e (p\<lparr>resp_Header := DnsHeader_SetId txid False (resp_Header p)\<rparr>))"
    using AdjustTtls_image [OF SetId_wf [OF wf] False] by (simp add: WriteId_image)
  then show ?thesis using adjusted_aged [OF e] by (simp add: aged_packet_def)
qed

lemma Insert_stores:
  assumes "0 < m_MaxEntries c" and "12 \<le> length r" and "ExtractMinTtl r (length r) \<noteq> 0"
  shows "\<exists>c'. DnsCache_Insert d t r te tn c = Some c' \<and> map_of (m_Cache c') (ToLower d, t) =
    Some \<lparr>ce_response = r, ce_insert_time = tn, ce_min_ttl = ExtractMinTtl r (length r)\<rparr>"
  using make_room_Some [OF assms(1), of "(ToLower d, t)" te] assms(2,3)
  by (auto simp: Insert_eq map_of_cache_assign)

lemma of_int_less_word:
  assumes "0 \<le> s" and "s < int (unat w)"
  shows "of_int s < (w :: u32)"
proof -
  obtain k where k: "s = int k" using assms(1) nonneg_int_cases by blast
  have "unat w < 4294967296" using unsigned_less [of w, where ?'a = nat] by simp
  moreover have "k < unat w" using assms(2) unfolding k of_nat_less_iff .
  ultimately show ?thesis by (simp add: k word_less_nat_alt unat_of_nat)
qed

section \<open>Lemmas: rewriting any response that the parser accepts\<close>

text \<open>Where the records of a response are, by the name parser: the offset behind \<open>k\<close> questions, and the offsets of the
  TYPE fields of \<open>k\<close> records.\<close>

primrec questions_end :: "bytes \<Rightarrow> nat \<Rightarrow> nat \<Rightarrow> nat" where
  "questions_end d 0 i = i"
| "questions_end d (Suc k) i = questions_end d k (fst (snd (ParseDomainName d (length d) i [])) + 4)"

primrec record_fields :: "bytes \<Rightarrow> nat \<Rightarrow> nat \<Rightarrow> nat list" where
  "record_fields d 0 i = []"
| "record_fields d (Suc k) i =
     (let j = fst (snd (ParseDomainName d (length d) i []))
      in j # record_fields d k (j + 10 + unat (ReadUint16 d (j + 8))))"

definition response_fields :: "bytes \<Rightarrow> DnsResponsePacket \<Rightarrow> nat list" where
  "response_fields d p =
     record_fields d (length (response_records p)) (questions_end d (length (resp_Questions p)) 12)"

text \<open>The octets of the TTLs that are rewritten.\<close>

definition ttl_octets :: "nat list \<Rightarrow> DnsAnswer list \<Rightarrow> nat set" where
  "ttl_octets js as = (\<Union>i\<in>{i. i < length js \<and> DnsAnswer_Type (as ! i) False \<noteq> 41}. {js ! i + 4..<js ! i + 8})"

lemma ttl_octets_simps [simp]:
  "ttl_octets [] as = {}"
  "ttl_octets (j # js) (a # as) =
     (if DnsAnswer_Type a False \<noteq> 41 then {j + 4..<j + 8} else {}) \<union> ttl_octets js as"
proof -
  have "{i. i < Suc (length js) \<and> DnsAnswer_Type ((a # as) ! i) False \<noteq> 41} =
      (if DnsAnswer_Type a False \<noteq> 41 then {0} else {}) \<union>
      Suc ` {i. i < length js \<and> DnsAnswer_Type (as ! i) False \<noteq> 41}"
  proof (intro set_eqI, goal_cases)
    case (1 i)
    then show ?case by (cases i) auto
  qed
  then show "ttl_octets (j # js) (a # as) =
     (if DnsAnswer_Type a False \<noteq> 41 then {j + 4..<j + 8} else {}) \<union> ttl_octets js as"
    by (simp add: ttl_octets_def)
qed (simp add: ttl_octets_def)

text \<open>The walk only looks ahead, so that it takes the same way in two buffers that agree from its position on.\<close>

definition agree_from :: "nat \<Rightarrow> bytes \<Rightarrow> bytes \<Rightarrow> bool" where
  "agree_from i d d' \<longleftrightarrow> length d = length d' \<and> (\<forall>j\<ge>i. j < length d \<longrightarrow> d ! j = d' ! j)"

lemma agree_from_mono: "agree_from i d d' \<Longrightarrow> i \<le> j \<Longrightarrow> agree_from j d d'"
  by (simp add: agree_from_def)

lemma agree_from_reads:
  "agree_from i d d' \<Longrightarrow> i \<le> j \<Longrightarrow> j + 1 < length d \<Longrightarrow> ReadUint16 d j = ReadUint16 d' j"
  "agree_from i d d' \<Longrightarrow> i \<le> j \<Longrightarrow> j + 3 < length d \<Longrightarrow> ReadUint32 d j = ReadUint32 d' j"
  by (simp_all add: agree_from_def ReadUint16_def ReadUint32_def)

lemma agree_from_SkipDnsName:
  "agree_from i d d' \<Longrightarrow> i \<le> j \<Longrightarrow> n \<le> length d \<Longrightarrow> SkipDnsName d n j = SkipDnsName d' n j"
proof (induction d n j rule: SkipDnsName.induct)
  case (1 d n j)
  show ?case
  proof (cases "j < n")
    case True
    with 1(2-4) have b: "d ! j = d' ! j" by (simp add: agree_from_def)
    show ?thesis
      using 1(1) [OF True refl] 1(2-4) True
      by (subst SkipDnsName.simps, subst (2) SkipDnsName.simps) (simp add: b Let_def)
  qed (simp add: SkipDnsName.simps [of d] SkipDnsName.simps [of d'])
qed

lemma agree_from_skip_questions:
  "agree_from i d d' \<Longrightarrow> i \<le> j \<Longrightarrow> n \<le> length d \<Longrightarrow> skip_questions d n k j = skip_questions d' n k j"
proof (induction k arbitrary: j)
  case (Suc k)
  then have "SkipDnsName d n j = SkipDnsName d' n j" by (simp add: agree_from_SkipDnsName)
  with Suc SkipDnsName_gt [of d' n j] show ?case by (auto simp: Let_def)
qed simp

lemma SkipDnsName_ParseDomainName:
  "ParseDomainName d n off [] = (True, off', ls) \<Longrightarrow> off < off'"
  using SkipDnsName_parsed [of d n off off' ls] SkipDnsName_gt [of d n off] by simp

text \<open>The octets of a TTL written, and those not touched.\<close>

lemma nth_WriteUint32:
  "j + 3 < length d \<Longrightarrow> i < j \<or> j + 4 \<le> i \<Longrightarrow> WriteUint32 d j v ! i = d ! i"
  by (auto simp: WriteUint32_def)

lemma ReadUint32_WriteUint32: "j + 3 < length d \<Longrightarrow> ReadUint32 (WriteUint32 d j v) j = v"
proof -
  have "push_bit 24 (ucast (ucast (drop_bit 24 v AND 0xFF) :: byte)) OR
      push_bit 16 (ucast (ucast (drop_bit 16 v AND 0xFF) :: byte)) OR
      push_bit 8 (ucast (ucast (drop_bit 8 v AND 0xFF) :: byte)) OR ucast (ucast (v AND 0xFF) :: byte) = v"
    apply (rule bit_word_eqI)
    apply (auto simp: bit_simps mask255)
    subgoal for n by (cases "16 \<le> n") simp_all
    subgoal for n by (cases "16 \<le> n"; cases "24 \<le> n") simp_all
    done
  then show "j + 3 < length d \<Longrightarrow> ReadUint32 (WriteUint32 d j v) j = v"
    by (simp add: ReadUint32_def WriteUint32_def)
qed

text \<open>What the rewriting of records \<open>as\<close> at \<open>js\<close> makes of a buffer.\<close>

definition ttls_rewritten :: "(u32 \<Rightarrow> u32) \<Rightarrow> nat list \<Rightarrow> DnsAnswer list \<Rightarrow> bytes \<Rightarrow> bytes \<Rightarrow> bool" where
  "ttls_rewritten f js as d d' \<longleftrightarrow> length js = length as \<and> length d' = length d \<and>
     (\<forall>i<length js. js ! i + 10 \<le> length d \<and> ReadUint16 d (js ! i) = DnsAnswer_Type (as ! i) False \<and>
        ReadUint32 d (js ! i + 4) = DnsAnswer_Ttl (as ! i) False \<and>
        (DnsAnswer_Type (as ! i) False \<noteq> 41 \<longrightarrow> ReadUint32 d' (js ! i + 4) = f (DnsAnswer_Ttl (as ! i) False))) \<and>
     (\<forall>j<length d. j \<notin> ttl_octets js as \<longrightarrow> d' ! j = d ! j)"

lemma ttl_octets_ge: "i \<in> ttl_octets js as \<Longrightarrow> \<forall>j\<in>set js. off \<le> j \<Longrightarrow> off + 4 \<le> i"
proof -
  assume "i \<in> ttl_octets js as" and ge: "\<forall>j\<in>set js. off \<le> j"
  then obtain k where "k < length js" "js ! k + 4 \<le> i" by (auto simp: ttl_octets_def)
  with ge show "off + 4 \<le> i" by (meson add_le_mono1 le_trans nth_mem)
qed

definition left_ttl :: "u32 \<Rightarrow> u32 \<Rightarrow> u32" where
  "left_ttl e t = (if t > e then t - e else 1)"

lemma adjust_walk_record:
  fixes e :: u32
  assumes "DnsAnswer_FromWire (Some d0) n off a0 = (True, off', a)" and "agree_from off d d0" and "length d0 = n"
  defines "j \<equiv> fst (snd (ParseDomainName d0 n off []))"
  defines "d1 \<equiv> if DnsAnswer_Type a False \<noteq> 41 then WriteUint32 d (j + 4) (left_ttl e (DnsAnswer_Ttl a False)) else d"
  shows "adjust_loop e n (Suc k) off d = adjust_loop e n k off' d1" and "agree_from off' d1 d0"
    and "off < j" and "j + 10 \<le> off'" and "off' \<le> n" and "off' = j + 10 + unat (ReadUint16 d0 (j + 8))"
    and "ReadUint16 d j = DnsAnswer_Type a False" and "ReadUint32 d (j + 4) = DnsAnswer_Ttl a False"
proof -
  obtain o1 ls where p: "ParseDomainName d0 n off [] = (True, o1, ls)" and o1: "o1 + 10 \<le> n"
    and fits: "o1 + 10 + unat (NetworkToHost (load16 d0 (o1 + 8))) \<le> n"
    and off': "off' = o1 + 10 + unat (NetworkToHost (load16 d0 (o1 + 8)))"
    and ty: "m_Type a = load16 d0 o1" and ttl: "m_Ttl a = load32 d0 (o1 + 4)"
    using assms(1) by (auto simp: DnsAnswer_FromWire_def DnsAnswer_UpdateRDLENGTH_def Let_def split: prod.splits if_splits)
  have j: "j = o1" by (simp add: j_def p)
  have len: "length d = n" using assms(2,3) by (simp add: agree_from_def)
  show "off < j" "j + 10 \<le> off'" "off' \<le> n" "off' = j + 10 + unat (ReadUint16 d0 (j + 8))"
    using SkipDnsName_ParseDomainName [OF p] off' fits by (simp_all add: j ReadUint16_load)
  have skip: "SkipDnsName d n off = j" "j \<noteq> 0"
    using SkipDnsName_parsed [OF p] agree_from_SkipDnsName [OF assms(2) order_refl, of n] len by (simp_all add: j)
  show rt: "ReadUint16 d j = DnsAnswer_Type a False" and rl: "ReadUint32 d (j + 4) = DnsAnswer_Ttl a False"
    using agree_from_reads [OF assms(2), of j] agree_from_reads [OF assms(2), of "j + 4"] \<open>off < j\<close> o1 len ty ttl
    by (simp_all add: j ReadUint16_load ReadUint32_load DnsAnswer_Type_def DnsAnswer_Ttl_def)
  have rr: "ReadUint16 d (j + 8) = ReadUint16 d0 (j + 8)"
    using agree_from_reads(1) [OF assms(2), of "j + 8"] \<open>off < j\<close> o1 len by (simp add: j)
  show "adjust_loop e n (Suc k) off d = adjust_loop e n k off' d1"
    using skip rt rl rr \<open>off' \<le> n\<close> \<open>off' = j + 10 + unat (ReadUint16 d0 (j + 8))\<close> o1
    by (simp add: Let_def d1_def left_ttl_def j add.assoc)
  show "agree_from off' d1 d0"
    using assms(2) \<open>off < j\<close> \<open>j + 10 \<le> off'\<close> o1 len
    by (auto simp: agree_from_def d1_def nth_WriteUint32 j)
qed

lemma adjust_walk:
  assumes "parse_section DnsAnswer_FromWire a0 (Some d0) n k off acc = (True, off', acc @ as)"
    and "agree_from off d d0" and "length d0 = n"
  shows "\<exists>d'. adjust_loop e n k off d = (True, d') \<and> (\<forall>j\<in>set (record_fields d0 k off). off \<le> j) \<and>
    ttls_rewritten (left_ttl e) (record_fields d0 k off) as d d'"
  using assms
proof (induction k arbitrary: off acc as d)
  case (Suc k)
  obtain ok o1 a where w: "DnsAnswer_FromWire (Some d0) n off a0 = (ok, o1, a)" by (metis prod_cases3)
  with Suc.prems have p: "parse_section DnsAnswer_FromWire a0 (Some d0) n k o1 (acc @ [a]) = (True, off', acc @ as)"
    and step: "DnsAnswer_FromWire (Some d0) n off a0 = (True, o1, a)" by (auto split: if_splits)
  have "take (length (acc @ [a])) (acc @ as) = acc @ [a]"
    using answer_codec.parse_section_bounds [OF p] answer_FromWire_bounds [OF step] by blast
  then obtain as' where as: "as = a # as'" by (cases as) simp_all
  note r1 = adjust_walk_record(1,2) [OF step Suc.prems(2,3), where e = e]
  note r2 = adjust_walk_record(3-8) [OF step Suc.prems(2,3)]
  define j where "j = fst (snd (ParseDomainName d0 n off []))"
  define d1 where "d1 = (if DnsAnswer_Type a False \<noteq> 41 then WriteUint32 d (j + 4) (left_ttl e (DnsAnswer_Ttl a False)) else d)"
  note r = r1 [folded j_def, folded d1_def] r2 [folded j_def]
  have p': "parse_section DnsAnswer_FromWire a0 (Some d0) n k o1 (acc @ [a]) = (True, off', (acc @ [a]) @ as')"
    using p by (simp add: as)
  from Suc.IH [OF p' r(2) Suc.prems(3)] obtain d' where l: "adjust_loop e n k o1 d1 = (True, d')"
    and ge: "\<forall>j\<in>set (record_fields d0 k o1). o1 \<le> j" and tr: "ttls_rewritten (left_ttl e) (record_fields d0 k o1) as' d1 d'"
    by blast
  let ?js = "record_fields d0 k o1"
  have js: "record_fields d0 (Suc k) off = j # ?js" using r(6) Suc.prems(3) by (simp add: j_def Let_def)
  have len: "length d = n" "length d1 = n" using Suc.prems(2,3) by (auto simp: agree_from_def d1_def)
  have d1: "d1 ! i = d ! i" if "i < j + 4 \<or> j + 8 \<le> i" for i
    using that r(4,5) len by (auto simp: d1_def nth_WriteUint32)
  have d': "d' ! i = d1 ! i" if "i < o1 + 4" "i < n" for i
    using that tr ge ttl_octets_ge [of i ?js as' o1] len by (fastforce simp: ttls_rewritten_def)
  have first: "ReadUint32 d' (j + 4) = left_ttl e (DnsAnswer_Ttl a False)" if "DnsAnswer_Type a False \<noteq> 41"
  proof -
    have "ReadUint32 d' (j + 4) = ReadUint32 d1 (j + 4)" using d' r(4,5) by (simp add: ReadUint32_def)
    then show ?thesis using that r(4,5) len by (simp add: d1_def ReadUint32_WriteUint32)
  qed
  have rest: "ReadUint16 d i = ReadUint16 d1 i" "ReadUint32 d (i + 4) = ReadUint32 d1 (i + 4)" if "o1 \<le> i" for i
    using that d1 r(4) by (simp_all add: ReadUint16_def ReadUint32_def)
  have fields: "\<forall>i<Suc k'. (j # xs) ! i + 10 \<le> length d \<and> P i"
    if "j + 10 \<le> length d" "P 0" "\<And>i. i < k' \<Longrightarrow> xs ! i + 10 \<le> length d \<and> P (Suc i)" for k' xs and P :: "nat \<Rightarrow> bool"
    using that by (auto simp: less_Suc_eq_0_disj)
  have "ttls_rewritten (left_ttl e) (j # ?js) as d d'"
    unfolding ttls_rewritten_def
  proof (intro conjI, goal_cases)
    case 3
    show ?case
    proof (intro allI impI, goal_cases)
      case (1 i)
      then show ?case
      proof (cases i)
        case 0
        then show ?thesis using r(4,5,7,8) first len by (simp add: as)
      next
        case (Suc i')
        with 1 have "i' < length ?js" by simp
        with tr ge have "?js ! i' + 10 \<le> length d1" "ReadUint16 d1 (?js ! i') = DnsAnswer_Type (as' ! i') False"
          "ReadUint32 d1 (?js ! i' + 4) = DnsAnswer_Ttl (as' ! i') False" "o1 \<le> ?js ! i'"
          "DnsAnswer_Type (as' ! i') False \<noteq> 41 \<longrightarrow> ReadUint32 d' (?js ! i' + 4) = left_ttl e (DnsAnswer_Ttl (as' ! i') False)"
          by (simp_all add: ttls_rewritten_def)
        then show ?thesis using Suc rest [of "?js ! i'"] len by (simp add: as)
      qed
    qed
  next
    case 4
    show ?case
    proof (intro allI impI, goal_cases)
      case (1 i)
      then have "d' ! i = d1 ! i" using tr len by (simp add: as ttls_rewritten_def)
      moreover have "d1 ! i = d ! i"
        using 1 d1 [of i] by (cases "DnsAnswer_Type a False = 41") (auto simp: as d1_def)
      ultimately show ?case by simp
    qed
  qed (use tr len in \<open>auto simp: ttls_rewritten_def as\<close>)
  moreover have "\<forall>i\<in>set (j # ?js). off \<le> i" using ge r(3,4) by auto
  ultimately show ?case using r(1) l js by simp
qed (simp add: ttls_rewritten_def)

lemma parse_section_prefix:
  "parse_section f a0 d n k off [] = (True, off', as) \<Longrightarrow> parse_section f a0 d n k off acc = (True, off', acc @ as)"
proof -
  have "parse_section f a0 d n k off (acc @ acc') =
      (case parse_section f a0 d n k off acc' of (ok, off', as) \<Rightarrow> (ok, off', acc @ as))" for acc'
    by (induction k arbitrary: off acc') (auto split: prod.split)
  from this [of "[]"] show "parse_section f a0 d n k off [] = (True, off', as) \<Longrightarrow>
      parse_section f a0 d n k off acc = (True, off', acc @ as)" by simp
qed

lemma parse_section_append:
  "parse_section f a0 d n k off acc = (True, off', acc') \<Longrightarrow>
   parse_section f a0 d n (k + k') off acc = parse_section f a0 d n k' off' acc'"
  by (induction k arbitrary: off acc) (auto split: prod.splits if_splits)

lemma parse_records:
  assumes "DnsResponsePacket_FromWire (Some d) n p0 = (True, p)"
  obtains o1 o4 where "12 \<le> n" "length (resp_Questions p) = unat (ReadUint16 d 4)"
    "parse_section DnsQuestion_FromWire DnsQuestion_default (Some d) n (length (resp_Questions p)) 12 [] = (True, o1, resp_Questions p)"
    "length (response_records p) = unat (ReadUint16 d 6) + unat (ReadUint16 d 8) + unat (ReadUint16 d 10)"
    "parse_section DnsAnswer_FromWire DnsAnswer_default (Some d) n (length (response_records p)) o1 [] =
       (True, o4, response_records p)"
proof -
  note h = response_FromWire_header [OF assms]
  from assms obtain o1 o2 o3 o4 where n: "12 \<le> n"
    and q: "parse_section DnsQuestion_FromWire DnsQuestion_default (Some d) n
       (unat (DnsHeader_Qdcount (resp_Header p) False)) 12 [] = (True, o1, resp_Questions p)"
    and a: "parse_section DnsAnswer_FromWire DnsAnswer_default (Some d) n
       (unat (DnsHeader_Ancount (resp_Header p) False)) o1 [] = (True, o2, resp_Answers p)"
    and b: "parse_section DnsAnswer_FromWire DnsAnswer_default (Some d) n
       (unat (DnsHeader_Nscount (resp_Header p) False)) o2 [] = (True, o3, resp_Authority p)"
    and c: "parse_section DnsAnswer_FromWire DnsAnswer_default (Some d) n
       (unat (DnsHeader_Arcount (resp_Header p) False)) o3 [] = (True, o4, resp_Additional p)"
    by (rule response_FromWire_steps)
  have "o1 \<le> n" "o2 \<le> n" "o3 \<le> n" and len: "length (resp_Questions p) = unat (ReadUint16 d 4)"
    "length (resp_Answers p) = unat (ReadUint16 d 6)" "length (resp_Authority p) = unat (ReadUint16 d 8)"
    "length (resp_Additional p) = unat (ReadUint16 d 10)"
    using question_codec.parse_section_bounds [OF q n] answer_codec.parse_section_bounds [OF a]
      answer_codec.parse_section_bounds [OF b] answer_codec.parse_section_bounds [OF c]
    by (simp_all add: h copied_counts)
  have "parse_section DnsAnswer_FromWire DnsAnswer_default (Some d) n (length (response_records p)) o1 [] =
       (True, o4, response_records p)"
    using parse_section_append [OF a, of "length (resp_Authority p) + length (resp_Additional p)"]
      parse_section_append [OF parse_section_prefix [OF b, of "resp_Answers p"], of "length (resp_Additional p)"]
      parse_section_prefix [OF c, of "resp_Answers p @ resp_Authority p"]
    by (simp add: response_records_def len h copied_counts add.assoc)
  with n len q show thesis by (intro that [of o1 o4]) (simp_all add: h copied_counts response_records_def)
qed

lemma questions_end_parsed:
  "parse_section DnsQuestion_FromWire q0 (Some d) (length d) k off acc = (True, off', qs) \<Longrightarrow> questions_end d k off = off'"
proof (induction k arbitrary: off acc)
  case (Suc k)
  obtain ok o1 q where w: "DnsQuestion_FromWire (Some d) (length d) off q0 = (ok, o1, q)" by (metis prod_cases3)
  with Suc.prems have "parse_section DnsQuestion_FromWire q0 (Some d) (length d) k o1 (acc @ [q]) = (True, off', qs)" "ok"
    by (auto split: if_splits)
  moreover have "fst (snd (ParseDomainName d (length d) off [])) + 4 = o1"
    using w \<open>ok\<close> by (auto simp: DnsQuestion_FromWire_def split: prod.splits if_splits)
  ultimately show ?case using Suc.IH by simp
qed simp

text \<open>On arbitrary bytes the walk over names and records only moves forward, so that no write reaches the
  header.\<close>

lemma WriteUint32_take: "k \<le> i \<Longrightarrow> take k (WriteUint32 d i v) = take k d"
  by (simp add: WriteUint32_def take_update_cancel)

lemma adjust_loop_take: "h \<le> off \<Longrightarrow> take h (snd (adjust_loop e n k off d)) = take h d"
proof (induction k arbitrary: off d)
  case (Suc k)
  then show ?case
    using SkipDnsName_gt [of d n off] WriteUint32_take [of h "SkipDnsName d n off + 4" d]
    by (auto simp: Let_def Suc.IH)
qed simp

lemma AdjustTtls_take: "take 12 (snd (AdjustTtls r e)) = take 12 r"
  by (auto simp: AdjustTtls_def Let_def adjust_loop_take dest!: skip_questions_ge split: option.split)

lemma nth_via_take: "take k xs = take k ys \<Longrightarrow> i < k \<Longrightarrow> xs ! i = ys ! i"
  by (metis nth_take)

lemma ttls_rewritten_same: "ttls_rewritten f js as d d' \<Longrightarrow> ttls_rewritten id js as d d"
  by (simp add: ttls_rewritten_def)

lemma ttls_rewritten_cong:
  "ttls_rewritten f js as d d' \<Longrightarrow> (\<And>a. a \<in> set as \<Longrightarrow> DnsAnswer_Type a False \<noteq> 41 \<Longrightarrow> f (DnsAnswer_Ttl a False) = g (DnsAnswer_Ttl a False))
    \<Longrightarrow> ttls_rewritten g js as d d'"
  by (simp add: ttls_rewritten_def)

lemma AdjustTtls_parsed:
  assumes "DnsResponsePacket_FromWire (Some r) (length r) p0 = (True, p)"
    and "length (response_records p) < 65536" and "response_records p \<noteq> []"
  shows "ttls_rewritten (if e = 0 then id else left_ttl e) (response_fields r p) (response_records p)
      (WriteUint16 r 0 txid) (snd (AdjustTtls (WriteUint16 r 0 txid) e))"
    and "\<forall>j\<in>set (response_fields r p). 12 \<le> j"
proof -
  let ?d = "WriteUint16 r 0 txid" and ?js = "response_fields r p" and ?as = "response_records p"
  obtain o1 o4 where n: "12 \<le> length r" and q: "length (resp_Questions p) = unat (ReadUint16 r 4)"
    and pq: "parse_section DnsQuestion_FromWire DnsQuestion_default (Some r) (length r) (length (resp_Questions p)) 12 [] =
       (True, o1, resp_Questions p)"
    and c: "length ?as = unat (ReadUint16 r 6) + unat (ReadUint16 r 8) + unat (ReadUint16 r 10)"
    and pr: "parse_section DnsAnswer_FromWire DnsAnswer_default (Some r) (length r) (length ?as) o1 [] = (True, o4, ?as)"
    using parse_records [OF assms(1)] .
  have agree: "agree_from 2 ?d r" by (simp add: agree_from_def WriteUint16_def)
  then have counts: "ReadUint16 ?d i = ReadUint16 r i" if "2 \<le> i" "i \<le> 10" for i
    using that n by (intro agree_from_reads(1)) simp_all
  have total: "unat (total_rr ?d) = length ?as" using c assms(2) by (simp add: total_rr_def counts unat_total_rr)
  have skip: "skip_questions ?d (length r) (unat (ReadUint16 ?d 4)) 12 = Some o1"
    using agree_from_skip_questions [OF agree, of 12 "length r"] skip_questions_parsed [OF pq] q by (simp add: counts)
  have o1: "12 \<le> o1" using skip_questions_ge [OF skip] .
  have js: "?js = record_fields r (length ?as) o1"
    using questions_end_parsed [OF pq] by (simp add: response_fields_def)
  have walk: "\<exists>d'. adjust_loop e (length r) (length ?as) o1 ?d = (True, d') \<and> (\<forall>j\<in>set ?js. o1 \<le> j) \<and>
      ttls_rewritten (left_ttl e) ?js ?as ?d d'" for e
    using adjust_walk [of DnsAnswer_default r "length r" "length ?as" o1 "[]" o4 ?as ?d e] pr
      agree_from_mono [OF agree, of o1] o1 by (simp add: js)
  from walk [of 0] o1 show "\<forall>j\<in>set ?js. 12 \<le> j" by force
  show "ttls_rewritten (if e = 0 then id else left_ttl e) ?js ?as ?d (snd (AdjustTtls ?d e))"
  proof (cases "e = 0")
    case True
    then show ?thesis using walk [of 0] ttls_rewritten_same by (auto simp: AdjustTtls_def)
  next
    case False
    have "total_rr ?d \<noteq> 0" using total assms(3) by auto
    with False show ?thesis using walk [of e] n skip total by (auto simp: AdjustTtls_def Let_def)
  qed
qed

lemma min_ttl_le_parsed:
  assumes "DnsResponsePacket_FromWire (Some r) n p0 = (True, p)" and "length (response_records p) < 65536"
    and "a \<in> set (timed_records p)"
  shows "ExtractMinTtl r n \<le> DnsAnswer_Ttl a False"
  using foldl_record_min_le [of a "response_records p" UINT32_MAX] assms(3)
  by (auto simp: ExtractMinTtl_foldl [OF assms(1,2)] timed_records_def Let_def)

lemma WriteUint16_id: "2 \<le> length d \<Longrightarrow> ReadUint16 (WriteUint16 d 0 x) 0 = x"
proof -
  have "push_bit 8 (ucast (ucast (drop_bit 8 x) :: byte)) OR ucast (ucast (x AND 0xFF) :: byte) = x"
    by (rule bit_word_eqI) (auto simp: bit_simps mask255)
  moreover assume "2 \<le> length d"
  then have "0 < length d" "1 < length d" by linarith+
  ultimately show "ReadUint16 (WriteUint16 d 0 x) 0 = x"
    unfolding ReadUint16_def WriteUint16_def by simp
qed

section \<open>Properties\<close>

text \<open>C11: for every response that the response parser accepts, compressed names included: while its smallest TTL has
  not run out, a lookup for the same name, in any letter case, and type serves the octets that were inserted, with
  the client's transaction identifier, and with the seconds elapsed subtracted from the TTL field of every
  record but OPT, which leaves each of them positive; no other octet differs. (A response written without
  compression is served as the image of the packet with these changes.) From then on the entry is not served and
  is removed.\<close>

theorem cached_response_served:
  assumes "DnsResponsePacket_FromWire (Some r) (length r) p0 = (True, p)" and "length (response_records p) < 65536"
    and "ttl = ExtractMinTtl r (length r)" and "ttl \<noteq> 0"
    and "0 < m_MaxEntries c" and "ToLower d' = ToLower d" and "0 \<le> elapsed_seconds now tn"
  shows "\<exists>c'. DnsCache_Insert d t r te tn c = Some c' \<and>
    (if elapsed_seconds now tn < int (unat ttl)
     then \<exists>served. DnsCache_Lookup d' t txid now out c' = Some (True, served, c') \<and>
          ReadUint16 served 0 = txid \<and>
          ttls_rewritten (\<lambda>ttl. ttl - of_int (elapsed_seconds now tn)) (response_fields r p) (response_records p)
            (WriteUint16 r 0 txid) served \<and>
          (\<forall>j\<in>set (response_fields r p). 12 \<le> j) \<and>
          (\<forall>a\<in>set (timed_records p). of_int (elapsed_seconds now tn) < DnsAnswer_Ttl a False) \<and>
          (response_wf p \<and> r = response_image p \<longrightarrow>
             served = response_image (aged_packet txid (of_int (elapsed_seconds now tn)) p))
     else \<exists>c''. DnsCache_Lookup d' t txid now out c' = Some (False, out, c'') \<and>
          map_of (m_Cache c'') (ToLower d, t) = None)"
proof -
  let ?s = "elapsed_seconds now tn" and ?d = "WriteUint16 r 0 txid"
  have len: "12 \<le> length r" using parse_records [OF assms(1)] by metis
  from Insert_stores [OF assms(5) len, of d t te tn] assms(3,4) obtain c' where
    c': "DnsCache_Insert d t r te tn c = Some c'"
    and "map_of (m_Cache c') (ToLower d, t) = Some \<lparr>ce_response = r, ce_insert_time = tn, ce_min_ttl = ttl\<rparr>"
    by auto
  then have key: "map_of (m_Cache c') (ToLower d', t) = Some \<lparr>ce_response = r, ce_insert_time = tn, ce_min_ttl = ttl\<rparr>"
    using assms(6) by simp
  have records: "response_records p \<noteq> []"
    using assms(3,4) ExtractMinTtl_foldl [OF assms(1,2)] by (auto simp: Let_def)
  show ?thesis
  proof (cases "?s < int (unat ttl)")
    case True
    let ?served = "snd (AdjustTtls ?d (of_int ?s))"
    have small: "\<forall>a\<in>set (timed_records p). (of_int ?s :: u32) < DnsAnswer_Ttl a False"
      using of_int_less_word [OF assms(7) True] min_ttl_le_parsed [OF assms(1,2)] assms(3) by force
    have look: "DnsCache_Lookup d' t txid now out c' = Some (True, ?served, c')"
      using True len by (simp add: Lookup_eq key Let_def entry_expired_def)
    have "ttls_rewritten (\<lambda>ttl. ttl - of_int ?s) (response_fields r p) (response_records p) ?d ?served"
      by (rule ttls_rewritten_cong [OF AdjustTtls_parsed(1) [OF assms(1,2) records]])
        (use small in \<open>auto simp: timed_records_def left_ttl_def\<close>)
    moreover have "ReadUint16 ?served 0 = txid"
      using AdjustTtls_take [of ?d "of_int ?s"] WriteUint16_id [of r txid] len
      by (simp add: ReadUint16_def nth_via_take [of 12 ?served ?d])
    moreover have "response_wf p \<and> r = response_image p \<longrightarrow> ?served = response_image (aged_packet txid (of_int ?s) p)"
      using serve_image [of p "of_int ?s" txid] small by simp
    ultimately show ?thesis
      using True c' look small AdjustTtls_parsed(2) [OF assms(1,2) records] by simp
  next
    case False
    then have "DnsCache_Lookup d' t txid now out c' =
        Some (False, out, c'\<lparr>m_Cache := cache_erase (ToLower d', t) (m_Cache c')\<rparr>)"
      by (simp add: Lookup_eq key Let_def entry_expired_def)
    then show ?thesis using c' False assms(6) by (simp add: map_of_cache_erase)
  qed
qed

text \<open>A response with one address record that lives for 300 seconds.\<close>

definition sample_response :: DnsResponsePacket where
  "sample_response =
     DnsResponsePacket_AddAnswer (DnsAnswer_ctor_labels [''a'', ''b''] 1 1 300 [192, 0, 2, 1])
       (DnsResponsePacket_MakeResponse (DnsRequestPacket_MakeAQuery 7 ''a.b'' True) 0 False True)"

lemma sample_response_wf: "response_wf sample_response"
proof -
  let ?a = "DnsAnswer_ctor_labels [''a'', ''b''] 1 1 300 [192, 0, 2, 1]"
  have "response_records sample_response = [?a]"
    by (simp add: sample_response_def response_records_def DnsResponsePacket_AddAnswer_def
        DnsResponsePacket_MakeResponse_def DnsResponsePacket_ctor_def DnsResponsePacket_UpdateHeaderCounts_def)
  moreover have "answer_wf ?a"
    by (simp add: DnsAnswer_ctor_labels_def DnsAnswer_SetTtl_def DnsAnswer_SetRclass_def DnsAnswer_SetType_def
        DnsAnswer_UpdateRDLENGTH_def answer_wf_def rdlength_ok_def rdata_canonical_def labels_wf_def)
  moreover have "DnsResponsePacket_Valid sample_response" by code_simp
  ultimately show ?thesis by (simp add: response_wf_def)
qed

lemma sample_response_ttl: "ExtractMinTtl (response_image sample_response) (length (response_image sample_response)) = 300"
  by code_simp

text \<open>The same with the name of the record compressed: a pointer to the question.\<close>

definition compressed_response :: bytes where
  "compressed_response =
     [0, 7, 0x81, 0x80, 0, 1, 0, 1, 0, 0, 0, 0] @ [1, 97, 1, 98, 0, 0, 1, 0, 1] @
     [0xC0, 12, 0, 1, 0, 1, 0, 0, 1, 0x2C, 0, 4, 192, 0, 2, 1]"

lemma compressed_response_parses:
  "fst (DnsResponsePacket_FromWire (Some compressed_response) (length compressed_response) DnsResponsePacket_default)"
  by code_simp

lemma compressed_response_facts:
  "length (response_records (snd (DnsResponsePacket_FromWire (Some compressed_response) (length compressed_response)
      DnsResponsePacket_default))) = 1"
  "ExtractMinTtl compressed_response (length compressed_response) = 300"
  "response_fields compressed_response (snd (DnsResponsePacket_FromWire (Some compressed_response)
      (length compressed_response) DnsResponsePacket_default)) = [23]"
  "map (\<lambda>a. (DnsAnswer_Type a False, DnsAnswer_Ttl a False)) (response_records (snd (DnsResponsePacket_FromWire
      (Some compressed_response) (length compressed_response) DnsResponsePacket_default))) = [(1, 300)]"
  by code_simp+

theorem cached_response_served_witness:
  "\<exists>c' served. DnsCache_Insert ''A.b'' 1 compressed_response 0 0 (DnsCache_ctor 4) = Some c' \<and>
    DnsCache_Lookup ''a.B'' 1 99 100000000000 [] c' = Some (True, served, c') \<and>
    ReadUint16 served 0 = 99 \<and> ReadUint32 served 27 = 200"
proof -
  let ?p = "snd (DnsResponsePacket_FromWire (Some compressed_response) (length compressed_response) DnsResponsePacket_default)"
  have p: "DnsResponsePacket_FromWire (Some compressed_response) (length compressed_response) DnsResponsePacket_default = (True, ?p)"
    using compressed_response_parses by (simp add: prod_eq_iff)
  note facts = compressed_response_facts
  have t: "elapsed_seconds 100000000000 0 = 100" by (simp add: elapsed_seconds_def)
  have l: "ToLower ''a.B'' = ToLower ''A.b''" by code_simp
  have c: "0 < m_MaxEntries (DnsCache_ctor 4)" by (simp add: DnsCache_ctor_def)
  have n: "300 \<noteq> (0 :: u32)" by simp
  have short: "length (response_records ?p) < 65536" unfolding facts(1) by simp
  obtain a where a: "response_records ?p = [a]" using facts(1) by (cases "response_records ?p") auto
  have "DnsAnswer_Type a False = 1" "DnsAnswer_Ttl a False = 300" using facts(4) a by simp_all
  then show ?thesis
    using cached_response_served [OF p short facts(2) [symmetric] n c l, where now = 100000000000 and tn = 0 and
        t = 1 and te = 0 and txid = 99 and out = "[]"]
    by (fastforce simp: t facts(3) a ttls_rewritten_def)
qed

text \<open>C12: provenance and capacity: starting from an empty cache with room for at least one entry, no sequence of
  insertions of arbitrary octets, lookups and clears reads or writes outside of a response, erases the end iterator or
  exceeds the capacity, nor does a lookup after them; and a lookup that hits
  serves the response of an earlier insertion for the same name (in any letter case) and the same type that has
  not expired, with the identifier and TTLs rewritten. Nothing is ever served under another name or type.\<close>

theorem cache_provenance:
  assumes "0 < cap"
  shows "\<exists>c hit served c'. run_ops cache_step ops (DnsCache_ctor cap) = Some c \<and> DnsCache_Size c \<le> cap \<and>
    DnsCache_Lookup d t txid now out c = Some (hit, served, c') \<and>
    (if hit then
       \<exists>d' r te tn. Op_Insert d' t r te tn \<in> set ops \<and> ToLower d' = ToLower d \<and>
         elapsed_seconds now tn < int (unat (ExtractMinTtl r (length r))) \<and>
         served = snd (AdjustTtls (WriteUint16 r 0 txid) (of_int (elapsed_seconds now tn))) \<and>
         length served = length r
     else served = out)"
proof -
  have init: "cache_inv (DnsCache_ctor cap) \<and> 0 < m_MaxEntries (DnsCache_ctor cap)"
    using assms by (simp add: DnsCache_ctor_def cache_inv_def)
  from cache_store.run_total [OF init] obtain c where c: "run_ops cache_step ops (DnsCache_ctor cap) = Some c"
    by blast
  from cache_store.run_inv [OF init c] have inv: "cache_inv c" by simp
  have cap: "m_MaxEntries c = cap"
  proof -
    have "run_ops cache_step ops s = Some s' \<Longrightarrow> cache_inv s \<Longrightarrow> m_MaxEntries s' = m_MaxEntries s" for s s'
      by (induction ops arbitrary: s) (auto split: option.splits dest: cache_step_inv)
    then show ?thesis using c init by (simp add: DnsCache_ctor_def)
  qed
  let ?from = "\<lambda>d' r te tn served. Op_Insert d' t r te tn \<in> set ops \<and> ToLower d' = ToLower d \<and>
      elapsed_seconds now tn < int (unat (ExtractMinTtl r (length r))) \<and>
      served = snd (AdjustTtls (WriteUint16 r 0 txid) (of_int (elapsed_seconds now tn))) \<and> length served = length r"
  have "\<exists>hit served c'. DnsCache_Lookup d t txid now out c = Some (hit, served, c') \<and>
      (if hit then \<exists>d' r te tn. ?from d' r te tn served else served = out)"
  proof (cases "map_of (m_Cache c) (ToLower d, t)")
    case None
    then show ?thesis by (auto simp: Lookup_eq intro: exI [of _ False])
  next
    case (Some e)
    then have "entry_ok e" using inv map_of_SomeD by (fastforce simp: cache_inv_def)
    from cache_store.run_provenance [OF init c Some]
    obtain op where op: "op \<in> set ops" "cache_wrote op = Some ((ToLower d, t), e)"
      by (auto simp: DnsCache_ctor_def)
    from op(2) obtain d' r te tn where "op = Op_Insert d' t r te tn" "ToLower d' = ToLower d"
      and e: "e = \<lparr>ce_response = r, ce_insert_time = tn, ce_min_ttl = ExtractMinTtl r (length r)\<rparr>"
      by (cases op) auto
    with op(1) have from_op: "Op_Insert d' t r te tn \<in> set ops" "ToLower d' = ToLower d" by simp_all
    have len: "2 \<le> length r" using \<open>entry_ok e\<close> by (simp add: e entry_ok_def)
    show ?thesis
    proof (cases "elapsed_seconds now tn < int (unat (ExtractMinTtl r (length r)))")
      case True
      let ?served = "snd (AdjustTtls (WriteUint16 r 0 txid) (of_int (elapsed_seconds now tn)))"
      have "DnsCache_Lookup d t txid now out c = Some (True, ?served, c)"
        using Some len True by (simp add: Lookup_eq Let_def e entry_expired_def)
      moreover have "?from d' r te tn ?served" using from_op True by (simp add: AdjustTtls_length)
      ultimately show ?thesis by (intro exI [of _ True] exI [of _ ?served] exI [of _ c]) auto
    next
      case False
      then show ?thesis using Some by (auto simp: Lookup_eq Let_def e entry_expired_def intro: exI [of _ False])
    qed
  qed
  moreover have "DnsCache_Size c \<le> cap" using inv cap by (simp add: cache_inv_def DnsCache_Size_def)
  ultimately show ?thesis using c by (intro exI [of _ c]) auto
qed

theorem cache_provenance_witness:
  "\<exists>c. run_ops cache_step [Op_Insert ''A.b'' 1 (response_image sample_response) 0 0, Op_Lookup ''x'' 1 5 9]
      (DnsCache_ctor 1) = Some c \<and> DnsCache_Size c \<le> 1"
  using cache_provenance [OF zero_less_one,
      of "[Op_Insert ''A.b'' 1 (response_image sample_response) 0 0, Op_Lookup ''x'' 1 5 9]"]
  by blast

text \<open>The lifetime of a cached response: for every message that the response parser accepts, compressed
  names included, \<^verbatim>\<open>ExtractMinTtl\<close> is the smallest TTL of its records other than OPT, or 0 (do not cache) when
  there is none or all of them carry the largest TTL.\<close>

theorem ExtractMinTtl_is_minimum:
  assumes "DnsResponsePacket_FromWire (Some data) n p0 = (True, p)" and "length (response_records p) < 65536"
  shows "ExtractMinTtl data n =
    (let ttls = map (\<lambda>a. DnsAnswer_Ttl a False) (timed_records p)
     in if ttls = [] \<or> Min (set ttls) = UINT32_MAX then 0 else Min (set ttls))"
proof -
  let ?ttls = "map (\<lambda>a. DnsAnswer_Ttl a False) (timed_records p)"
  have m: "foldl record_min UINT32_MAX (response_records p) = Min (insert UINT32_MAX (set ?ttls))"
    by (simp only: foldl_record_min timed_records_def)
  have "Min (insert UINT32_MAX (set ?ttls)) = Min (set ?ttls)" if "?ttls \<noteq> []"
  proof -
    have "Min (insert UINT32_MAX (set ?ttls)) = min UINT32_MAX (Min (set ?ttls))"
      using that by (intro Min_insert) simp_all
    then show ?thesis using UINT32_MAX_top [of "Min (set ?ttls)"] by (simp add: min_def)
  qed
  then show ?thesis
    unfolding ExtractMinTtl_foldl [OF assms] m by (cases "?ttls = []") (simp_all add: Let_def)
qed

theorem ExtractMinTtl_is_minimum_witness:
  "ExtractMinTtl (response_image sample_response) (length (response_image sample_response)) =
    (let ttls = map (\<lambda>a. DnsAnswer_Ttl a False) (timed_records sample_response)
     in if ttls = [] \<or> Min (set ttls) = UINT32_MAX then 0 else Min (set ttls))"
  using ExtractMinTtl_is_minimum [OF response_wf_parses [OF sample_response_wf, of DnsResponsePacket_default]]
    sample_response_wf by (simp add: response_wf_def)

text \<open>Rewriting the TTLs of an arbitrary, possibly malformed message neither changes its length nor touches
  its header.\<close>

theorem AdjustTtls_safe:
  "length (snd (AdjustTtls r e)) = length r \<and> take 12 (snd (AdjustTtls r e)) = take 12 r"
  by (simp add: AdjustTtls_take AdjustTtls_length)

end
