(* ===== verification/Json_Ops.thy ===== *)
theory Json_Ops
  imports Cpp_Strings "HOL-Library.AList"
begin

text \<open>
  The operations of \<^verbatim>\<open>nlohmann::json\<close> that the sources call, as a record over an arbitrary type \<open>'j\<close> of
  JSON values. The library is not part of the repository, so every definition that handles zone data
  takes this record as an argument. A conversion \<^verbatim>\<open>get<T>()\<close> that throws \<^verbatim>\<open>json::type_error\<close> is \<open>None\<close>.

  \<open>sample_json\<close> instantiates the record on plain JSON trees; the witnesses use it.
\<close>

record 'j json =
  json_is_object :: "'j \<Rightarrow> bool"
  json_is_array :: "'j \<Rightarrow> bool"
  json_is_string :: "'j \<Rightarrow> bool"
  json_contains :: "'j \<Rightarrow> string \<Rightarrow> bool"
  json_at :: "'j \<Rightarrow> string \<Rightarrow> 'j"
  json_elements :: "'j \<Rightarrow> 'j list"
  json_items :: "'j \<Rightarrow> (string \<times> 'j) list"
  json_string :: "'j \<Rightarrow> string option"
  json_u16 :: "'j \<Rightarrow> u16 option"
  json_u32 :: "'j \<Rightarrow> u32 option"
  json_of_string :: "string \<Rightarrow> 'j"
  json_bool :: "'j \<Rightarrow> bool option"
  json_is_integer :: "'j \<Rightarrow> bool"
  json_int :: "'j \<Rightarrow> int option"
  json_empty :: "'j \<Rightarrow> bool"
  json_dump :: "'j \<Rightarrow> string"
  json_parse :: "string \<Rightarrow> 'j option"
  json_object :: 'j
  json_array :: "'j list \<Rightarrow> 'j"
  json_set :: "'j \<Rightarrow> string \<Rightarrow> 'j \<Rightarrow> 'j"

text \<open>What a statement with an output parameter returns: an exception or a value, and the vector as it is then.\<close>

type_synonym 'a emit = "(cpp_error + 'a) \<times> bytes"

abbreviation give :: "'a \<Rightarrow> bytes \<Rightarrow> 'a emit" where
  "give v out \<equiv> (Inr v, out)"

definition raise_type_error :: "bytes \<Rightarrow> 'a emit" where
  "raise_type_error out = (Inl Json_type_error, out)"

lemma raise_type_error_neq [simp]: "raise_type_error out \<noteq> (Inr v, out')"
  by (simp add: raise_type_error_def)

section \<open>A concrete instance\<close>

datatype sample_value =
    S_Object "(string \<times> sample_value) list"
  | S_Array "sample_value list"
  | S_String string
  | S_Number nat
  | S_Bool bool

definition sample_json :: "sample_value json" where
  "sample_json =
     \<lparr>json_is_object = (\<lambda>v. case v of S_Object _ \<Rightarrow> True | _ \<Rightarrow> False),
      json_is_array = (\<lambda>v. case v of S_Array _ \<Rightarrow> True | _ \<Rightarrow> False),
      json_is_string = (\<lambda>v. case v of S_String _ \<Rightarrow> True | _ \<Rightarrow> False),
      json_contains = (\<lambda>v k. case v of S_Object kvs \<Rightarrow> k \<in> fst ` set kvs | _ \<Rightarrow> False),
      json_at = (\<lambda>v k. case v of S_Object kvs \<Rightarrow> (case map_of kvs k of Some w \<Rightarrow> w | None \<Rightarrow> S_Bool False) | _ \<Rightarrow> S_Bool False),
      json_elements = (\<lambda>v. case v of S_Array ws \<Rightarrow> ws | S_Object kvs \<Rightarrow> map snd kvs | _ \<Rightarrow> [v]),
      json_items = (\<lambda>v. case v of S_Object kvs \<Rightarrow> AList.clearjunk kvs
        | S_Array ws \<Rightarrow> zip (map (to_digits 10) [0..<length ws]) ws | _ \<Rightarrow> [([], v)]),
      json_string = (\<lambda>v. case v of S_String s \<Rightarrow> Some s | _ \<Rightarrow> None),
      json_u16 = (\<lambda>v. case v of S_Number n \<Rightarrow> Some (of_nat n) | _ \<Rightarrow> None),
      json_u32 = (\<lambda>v. case v of S_Number n \<Rightarrow> Some (of_nat n) | _ \<Rightarrow> None),
      json_of_string = S_String,
      json_bool = (\<lambda>v. case v of S_Bool b \<Rightarrow> Some b | _ \<Rightarrow> None),
      json_is_integer = (\<lambda>v. case v of S_Number _ \<Rightarrow> True | _ \<Rightarrow> False),
      json_int = (\<lambda>v. case v of S_Number n \<Rightarrow> Some (int n) | _ \<Rightarrow> None),
      json_empty = (\<lambda>v. case v of S_Object kvs \<Rightarrow> kvs = [] | S_Array ws \<Rightarrow> ws = [] | _ \<Rightarrow> False),
      json_dump = (\<lambda>v. ''...''),
      json_parse = (\<lambda>s. None),
      json_object = S_Object [],
      json_array = S_Array,
      json_set = (\<lambda>v k w. case v of S_Object kvs \<Rightarrow> S_Object (AList.update k w kvs) | _ \<Rightarrow> v)\<rparr>"

end
