(* ===== verification/Dns_Response.thy ===== *)
theory Dns_Response
  imports Dns_Cache Json_Ops
begin

unbundle bit_operations_syntax

text \<open>
  \<^verbatim>\<open>namespace DnsResponse\<close> (\<^verbatim>\<open>include/dns_response.h\<close>, \<^verbatim>\<open>src/dns_response.cc\<close>): the responses the server writes
  itself, one function per record type and error code, the multi-answer builder and the OPT record.

  A function with the output parameter \<^verbatim>\<open>p_Output\<close> takes the vector and returns it with its return value,
  also when it fails or throws: callers that ignore the return value send what is left in it.
  \<open>ttl\<close> is \<^verbatim>\<open>g_Config.DefaultTtl()\<close>, an \<^verbatim>\<open>int32_t\<close>; \<open>js\<close> holds the JSON operations.
\<close>

section \<open>Writing integers\<close>

definition Response_WriteUint16 :: "bytes \<Rightarrow> nat \<Rightarrow> u16 \<Rightarrow> bytes" where
  "Response_WriteUint16 p_Output p_Offset p_Value =
     (let s_NetworkValue = mem16 (HostToNetwork p_Value)
      in (p_Output[p_Offset := s_NetworkValue ! 0])[p_Offset + 1 := s_NetworkValue ! 1])"

definition AppendUint16 :: "bytes \<Rightarrow> u16 \<Rightarrow> bytes" where
  "AppendUint16 p_Output p_Value = p_Output @ mem16 (HostToNetwork p_Value)"

definition AppendUint32 :: "bytes \<Rightarrow> u32 \<Rightarrow> bytes" where
  "AppendUint32 p_Output p_Value = p_Output @ mem32 (HostToNetwork p_Value)"

section \<open>Names\<close>

definition MAX_DNS_LABEL_LENGTH :: nat where "MAX_DNS_LABEL_LENGTH = 63"
definition MAX_DNS_NAME_LENGTH :: nat where "MAX_DNS_NAME_LENGTH = 253"
definition MAX_TXT_STRING_LENGTH :: nat where "MAX_TXT_STRING_LENGTH = 255"
definition DNS_QUESTION_POINTER :: u16 where "DNS_QUESTION_POINTER = 0xC00C"

definition IsValidDnsName :: "string \<Rightarrow> bool" where
  "IsValidDnsName p_Name \<longleftrightarrow> \<not> (p_Name = [] \<or> length p_Name > MAX_DNS_NAME_LENGTH)"

text \<open>The first loop of \<^verbatim>\<open>DomainToQuestion\<close>: the size, or \<open>None\<close> at a label that is empty or too long.\<close>

primrec question_name_size :: "string list \<Rightarrow> nat \<Rightarrow> nat option" where
  "question_name_size [] total_size = Some total_size"
| "question_name_size (l_Entry # ls) total_size =
     (if l_Entry = [] then None
      else if length l_Entry > MAX_DNS_LABEL_LENGTH then None
      else question_name_size ls (total_size + (length l_Entry + 1)))"

primrec push_labels :: "string list \<Rightarrow> bytes \<Rightarrow> bytes" where
  "push_labels [] p_Output = p_Output"
| "push_labels (l_Entry # ls) p_Output =
     push_labels ls (p_Output @ [of_nat (length l_Entry)] @ bytes_of_string l_Entry)"

definition DomainToQuestion_labels :: "string list \<Rightarrow> bytes \<Rightarrow> int \<times> bytes" where
  "DomainToQuestion_labels p_Input p_Output =
     (case question_name_size p_Input 1 of
        None \<Rightarrow> (-1, p_Output)
      | Some total_size \<Rightarrow>
          if total_size > 255 then (-1, p_Output) else (0, push_labels p_Input p_Output @ [0]))"

definition domain_parts :: "string \<Rightarrow> string list" where
  "domain_parts p_Input =
     (let (segs, rest) = split_on CHR ''.'' p_Input
      in filter (\<lambda>s. s \<noteq> []) segs @ (if rest \<noteq> [] then [rest] else []))"

definition DomainToQuestion :: "string \<Rightarrow> bytes \<Rightarrow> int \<times> bytes" where
  "DomainToQuestion p_Input p_Output =
     (if p_Input = [] then (0, p_Output @ [0])
      else if \<not> IsValidDnsName p_Input then (-1, p_Output)
      else DomainToQuestion_labels (domain_parts p_Input) p_Output)"

section \<open>Header and question\<close>

definition response_flags :: "DnsRequestPacket \<Rightarrow> u16 \<Rightarrow> bool \<Rightarrow> u16" where
  "response_flags p_Packet p_Rcode p_Authoritative =
     (let flags = 0x8000 OR 0x0080 OR (p_Rcode AND 0x000F);
          flags = (if DnsHeader_Rd (req_Header p_Packet) False then flags OR 0x0100 else flags)
      in if p_Authoritative then flags OR 0x0400 else flags)"

text \<open>The vector is cleared first, so its old contents play no part.\<close>

definition WriteStandardHeader :: "DnsRequestPacket \<Rightarrow> u16 \<Rightarrow> u16 \<Rightarrow> u16 \<Rightarrow> u16 \<Rightarrow> bool \<Rightarrow> bytes" where
  "WriteStandardHeader p_Packet p_Rcode p_Ancount p_Nscount p_Arcount p_Authoritative =
     (let p_Output = replicate DnsHeader_HeaderSize 0;
          p_Output = Response_WriteUint16 p_Output 0 (DnsHeader_Id (req_Header p_Packet) False);
          p_Output = Response_WriteUint16 p_Output 2 (response_flags p_Packet p_Rcode p_Authoritative);
          p_Output = Response_WriteUint16 p_Output 4 1;
          p_Output = Response_WriteUint16 p_Output 6 p_Ancount;
          p_Output = Response_WriteUint16 p_Output 8 p_Nscount
      in Response_WriteUint16 p_Output 10 p_Arcount)"

definition WriteQuestion :: "bytes \<Rightarrow> DnsRequestPacket \<Rightarrow> bool \<times> bytes" where
  "WriteQuestion p_Output p_Packet =
     (case req_Questions p_Packet of
        [] \<Rightarrow> (False, p_Output)
      | q # _ \<Rightarrow>
          (let (s_Ret, s_Domain) = DomainToQuestion_labels (DnsQuestion_Qname q) []
           in if s_Ret = -1 then (False, p_Output)
              else (True, AppendUint16 (AppendUint16 (p_Output @ s_Domain) (DnsQuestion_Qtype q False))
                            (DnsQuestion_Qclass q False))))"

definition question_class :: "DnsRequestPacket \<Rightarrow> u16" where
  "question_class p_Packet = DnsQuestion_Qclass (hd (req_Questions p_Packet)) False"

section \<open>One answer record\<close>

definition WriteAnswerName :: "bytes \<Rightarrow> string \<Rightarrow> int \<times> bytes" where
  "WriteAnswerName p_Output p_Name =
     (if p_Name = [] then (0, AppendUint16 p_Output DNS_QUESTION_POINTER)
      else let (s_Ret, s_NameWire) = DomainToQuestion p_Name []
           in if s_Ret = -1 then (-1, p_Output) else (0, p_Output @ s_NameWire))"

text \<open>TYPE, CLASS, TTL and RDLENGTH, which every builder appends in this order.\<close>

definition append_fixed :: "int \<Rightarrow> bytes \<Rightarrow> u16 \<Rightarrow> u16 \<Rightarrow> u16 \<Rightarrow> bytes" where
  "append_fixed ttl p_Output p_Type p_Qclass s_Length =
     (let p_Output = AppendUint16 p_Output p_Type;
          p_Output = AppendUint16 p_Output p_Qclass;
          p_Output = AppendUint32 p_Output (of_int ttl)
      in AppendUint16 p_Output s_Length)"

definition AppendAnswerA :: "int \<Rightarrow> bytes \<Rightarrow> u16 \<Rightarrow> string \<Rightarrow> string \<Rightarrow> int emit" where
  "AppendAnswerA ttl p_Output p_Qclass p_Ipv4Hex p_Name =
     (if length p_Ipv4Hex \<noteq> 4 then give (-1) p_Output
      else let (s_Ret, p_Output) = WriteAnswerName p_Output p_Name in
           if s_Ret \<noteq> 0 then give (-1) p_Output
           else give 0 (append_fixed ttl p_Output 1 p_Qclass 4 @ bytes_of_string p_Ipv4Hex))"

definition AppendAnswerAAAA :: "int \<Rightarrow> bytes \<Rightarrow> u16 \<Rightarrow> string \<Rightarrow> string \<Rightarrow> int emit" where
  "AppendAnswerAAAA ttl p_Output p_Qclass p_Ipv6Hex p_Name =
     (if length p_Ipv6Hex \<noteq> 16 then give (-1) p_Output
      else let (s_Ret, p_Output) = WriteAnswerName p_Output p_Name in
           if s_Ret \<noteq> 0 then give (-1) p_Output
           else give 0 (append_fixed ttl p_Output 28 p_Qclass 16 @ bytes_of_string p_Ipv6Hex))"

definition AppendAnswerDomain :: "int \<Rightarrow> bytes \<Rightarrow> u16 \<Rightarrow> u16 \<Rightarrow> string \<Rightarrow> string \<Rightarrow> int emit" where
  "AppendAnswerDomain ttl p_Output p_Qclass p_Type p_Domain p_Name =
     (if p_Domain = [] \<or> \<not> IsValidDnsName p_Domain then give (-1) p_Output
      else let (s_Ret, s_Wire) = DomainToQuestion p_Domain [] in
           if s_Ret = -1 then give (-1) p_Output
           else if length s_Wire > 65535 then give (-1) p_Output
           else let (s_Ret, p_Output) = WriteAnswerName p_Output p_Name in
                if s_Ret \<noteq> 0 then give (-1) p_Output
                else give 0 (append_fixed ttl p_Output p_Type p_Qclass (of_nat (length s_Wire)) @ s_Wire))"

text \<open>A run of \<^verbatim>\<open>AppendUint32(p_Output, p_Data["..."].get<uint32_t>())\<close>, which may throw at any of them.\<close>

primrec append_u32_fields :: "'j json \<Rightarrow> 'j \<Rightarrow> string list \<Rightarrow> bytes \<Rightarrow> int emit" where
  "append_u32_fields js p_Data [] p_Output = give 0 p_Output"
| "append_u32_fields js p_Data (f # fs) p_Output =
     (case json_u32 js (json_at js p_Data f) of
        None \<Rightarrow> raise_type_error p_Output
      | Some v \<Rightarrow> append_u32_fields js p_Data fs (AppendUint32 p_Output v))"

primrec append_u16_fields :: "'j json \<Rightarrow> 'j \<Rightarrow> string list \<Rightarrow> bytes \<Rightarrow> int emit" where
  "append_u16_fields js p_Data [] p_Output = give 0 p_Output"
| "append_u16_fields js p_Data (f # fs) p_Output =
     (case json_u16 js (json_at js p_Data f) of
        None \<Rightarrow> raise_type_error p_Output
      | Some v \<Rightarrow> append_u16_fields js p_Data fs (AppendUint16 p_Output v))"

definition soa_required :: "string list" where
  "soa_required = [''primary'', ''admin'', ''serial'', ''refresh'', ''retry'', ''expire'', ''minimum'']"

definition soa_numbers :: "string list" where
  "soa_numbers = [''serial'', ''refresh'', ''retry'', ''expire'', ''minimum'']"

text \<open>The part of the SOA builders before the first write: the encoded MNAME and RNAME, or the way out.\<close>

definition soa_names :: "'j json \<Rightarrow> 'j \<Rightarrow> bytes \<Rightarrow> (bytes \<times> bytes) option emit" where
  "soa_names js p_Data p_Output =
     (if \<not> json_is_object js p_Data then give None p_Output
      else if \<not> list_all (json_contains js p_Data) soa_required then give None p_Output
      else case (json_string js (json_at js p_Data ''primary''), json_string js (json_at js p_Data ''admin'')) of
        (Some s_Primary, Some s_Admin) \<Rightarrow>
          (if \<not> IsValidDnsName s_Primary \<or> \<not> IsValidDnsName s_Admin then give None p_Output
           else let (s_Ret, s_PrimaryWire) = DomainToQuestion s_Primary [] in
                if s_Ret = -1 then give None p_Output
                else let (s_Ret, s_AdminWire) = DomainToQuestion s_Admin [] in
                     if s_Ret = -1 then give None p_Output
                     else if length s_PrimaryWire + length s_AdminWire + 20 > 65535 then give None p_Output
                     else give (Some (s_PrimaryWire, s_AdminWire)) p_Output)
      | _ \<Rightarrow> raise_type_error p_Output)"

definition AppendAnswerSOA :: "'j json \<Rightarrow> int \<Rightarrow> bytes \<Rightarrow> u16 \<Rightarrow> 'j \<Rightarrow> string \<Rightarrow> int emit" where
  "AppendAnswerSOA js ttl p_Output p_Qclass p_Data p_Name =
     (case soa_names js p_Data p_Output of
        (Inl e, p_Output) \<Rightarrow> (Inl e, p_Output)
      | (Inr None, p_Output) \<Rightarrow> give (-1) p_Output
      | (Inr (Some (s_PrimaryWire, s_AdminWire)), p_Output) \<Rightarrow>
          (let s_RdataLen = length s_PrimaryWire + length s_AdminWire + 20;
               (s_Ret, p_Output) = WriteAnswerName p_Output p_Name
           in if s_Ret \<noteq> 0 then give (-1) p_Output
              else append_u32_fields js p_Data soa_numbers
                     (append_fixed ttl p_Output 6 p_Qclass (of_nat s_RdataLen) @ s_PrimaryWire @ s_AdminWire)))"

text \<open>The same for MX (one name, 2 bytes before it) and SRV (6 bytes).\<close>

definition target_name :: "'j json \<Rightarrow> 'j \<Rightarrow> string list \<Rightarrow> string \<Rightarrow> nat \<Rightarrow> bytes \<Rightarrow> bytes option emit" where
  "target_name js p_Data required f extra p_Output =
     (if \<not> json_is_object js p_Data then give None p_Output
      else if \<not> list_all (json_contains js p_Data) required then give None p_Output
      else case json_string js (json_at js p_Data f) of
        None \<Rightarrow> raise_type_error p_Output
      | Some s_Target \<Rightarrow>
          (if \<not> IsValidDnsName s_Target then give None p_Output
           else let (s_Ret, s_Wire) = DomainToQuestion s_Target [] in
                if s_Ret = -1 then give None p_Output
                else if extra + length s_Wire > 65535 then give None p_Output
                else give (Some s_Wire) p_Output))"

definition mx_required :: "string list" where "mx_required = [''preference'', ''exchange'']"
definition srv_required :: "string list" where "srv_required = [''priority'', ''weight'', ''port'', ''target'']"

definition append_numbers_then :: "'j json \<Rightarrow> 'j \<Rightarrow> string list \<Rightarrow> bytes \<Rightarrow> bytes \<Rightarrow> int emit" where
  "append_numbers_then js p_Data fs s_Wire p_Output =
     (case append_u16_fields js p_Data fs p_Output of
        (Inl e, p_Output) \<Rightarrow> (Inl e, p_Output)
      | (Inr _, p_Output) \<Rightarrow> give 0 (p_Output @ s_Wire))"

definition AppendAnswerMX :: "'j json \<Rightarrow> int \<Rightarrow> bytes \<Rightarrow> u16 \<Rightarrow> 'j \<Rightarrow> string \<Rightarrow> int emit" where
  "AppendAnswerMX js ttl p_Output p_Qclass p_Data p_Name =
     (case target_name js p_Data mx_required ''exchange'' 2 p_Output of
        (Inl e, p_Output) \<Rightarrow> (Inl e, p_Output)
      | (Inr None, p_Output) \<Rightarrow> give (-1) p_Output
      | (Inr (Some s_Wire), p_Output) \<Rightarrow>
          (let s_RdataLen = 2 + length s_Wire;
               (s_Ret, p_Output) = WriteAnswerName p_Output p_Name
           in if s_Ret \<noteq> 0 then give (-1) p_Output
              else append_numbers_then js p_Data [''preference''] s_Wire
                     (append_fixed ttl p_Output 15 p_Qclass (of_nat s_RdataLen))))"

definition AppendAnswerSRV :: "'j json \<Rightarrow> int \<Rightarrow> bytes \<Rightarrow> u16 \<Rightarrow> 'j \<Rightarrow> string \<Rightarrow> int emit" where
  "AppendAnswerSRV js ttl p_Output p_Qclass p_Data p_Name =
     (case target_name js p_Data srv_required ''target'' 6 p_Output of
        (Inl e, p_Output) \<Rightarrow> (Inl e, p_Output)
      | (Inr None, p_Output) \<Rightarrow> give (-1) p_Output
      | (Inr (Some s_Wire), p_Output) \<Rightarrow>
          (let s_RdataLen = 6 + length s_Wire;
               (s_Ret, p_Output) = WriteAnswerName p_Output p_Name
           in if s_Ret \<noteq> 0 then give (-1) p_Output
              else append_numbers_then js p_Data [''priority'', ''weight'', ''port''] s_Wire
                     (append_fixed ttl p_Output 33 p_Qclass (of_nat s_RdataLen))))"

text \<open>The character strings of a TXT record; \<open>None\<close> at an entry that is no string or is too long.\<close>

primrec txt_rdata :: "'j json \<Rightarrow> 'j list \<Rightarrow> bytes \<Rightarrow> bytes option" where
  "txt_rdata js [] s_Rdata = Some s_Rdata"
| "txt_rdata js (e # es) s_Rdata =
     (if \<not> json_is_string js e then None
      else case json_string js e of
        None \<Rightarrow> None
      | Some s \<Rightarrow>
          if length s > MAX_TXT_STRING_LENGTH then None
          else txt_rdata js es (s_Rdata @ [of_nat (length s)] @ bytes_of_string s))"

definition txt_checked :: "'j json \<Rightarrow> 'j \<Rightarrow> bytes option" where
  "txt_checked js p_Data =
     (if \<not> json_is_array js p_Data \<or> json_elements js p_Data = [] then None
      else case txt_rdata js (json_elements js p_Data) [] of
        None \<Rightarrow> None
      | Some s_Rdata \<Rightarrow> if length s_Rdata > 65535 then None else Some s_Rdata)"

definition AppendAnswerTXT :: "'j json \<Rightarrow> int \<Rightarrow> bytes \<Rightarrow> u16 \<Rightarrow> 'j \<Rightarrow> string \<Rightarrow> int emit" where
  "AppendAnswerTXT js ttl p_Output p_Qclass p_Data p_Name =
     (case txt_checked js p_Data of
        None \<Rightarrow> give (-1) p_Output
      | Some s_Rdata \<Rightarrow>
          (let (s_Ret, p_Output) = WriteAnswerName p_Output p_Name
           in if s_Ret \<noteq> 0 then give (-1) p_Output
              else give 0 (append_fixed ttl p_Output 16 p_Qclass (of_nat (length s_Rdata)) @ s_Rdata)))"

definition with_string :: "'j json \<Rightarrow> 'j \<Rightarrow> bytes \<Rightarrow> (string \<Rightarrow> int emit) \<Rightarrow> int emit" where
  "with_string js p_Data p_Output f =
     (case json_string js p_Data of None \<Rightarrow> raise_type_error p_Output | Some s \<Rightarrow> f s)"

definition DispatchAppendAnswer :: "'j json \<Rightarrow> int \<Rightarrow> string \<Rightarrow> u16 \<Rightarrow> 'j \<Rightarrow> bytes \<Rightarrow> string \<Rightarrow> int emit" where
  "DispatchAppendAnswer js ttl p_Type p_Qclass p_Data p_Output p_Name =
     (if p_Type = ''A'' then
        with_string js p_Data p_Output (\<lambda>s. AppendAnswerA ttl p_Output p_Qclass s p_Name)
      else if p_Type = ''AAAA'' then
        with_string js p_Data p_Output (\<lambda>s. AppendAnswerAAAA ttl p_Output p_Qclass s p_Name)
      else if p_Type = ''CNAME'' then
        with_string js p_Data p_Output (\<lambda>s. AppendAnswerDomain ttl p_Output p_Qclass 5 s p_Name)
      else if p_Type = ''NS'' then
        with_string js p_Data p_Output (\<lambda>s. AppendAnswerDomain ttl p_Output p_Qclass 2 s p_Name)
      else if p_Type = ''PTR'' then
        with_string js p_Data p_Output (\<lambda>s. AppendAnswerDomain ttl p_Output p_Qclass 12 s p_Name)
      else if p_Type = ''SOA'' then AppendAnswerSOA js ttl p_Output p_Qclass p_Data p_Name
      else if p_Type = ''MX'' then AppendAnswerMX js ttl p_Output p_Qclass p_Data p_Name
      else if p_Type = ''TXT'' then AppendAnswerTXT js ttl p_Output p_Qclass p_Data p_Name
      else if p_Type = ''SRV'' then AppendAnswerSRV js ttl p_Output p_Qclass p_Data p_Name
      else give (-1) p_Output)"

section \<open>Error responses\<close>

definition DnsResponse_FORMERR :: "DnsRequestPacket \<Rightarrow> int \<times> bytes" where
  "DnsResponse_FORMERR p_Packet =
     (let qdcount = (if DnsHeader_Qdcount (req_Header p_Packet) False > 0 \<and> req_Questions p_Packet \<noteq> [] then 1 else 0 :: u16);
          p_Output = WriteStandardHeader p_Packet 1 0 0 0 False;
          p_Output = Response_WriteUint16 p_Output 4 qdcount
      in if qdcount > 0 then
           (let (ok, p_Output) = WriteQuestion p_Output p_Packet
            in (0, if \<not> ok then Response_WriteUint16 p_Output 4 0 else p_Output))
         else (0, p_Output))"

text \<open>The FORMERR for bytes that did not parse. The vector is resized, not cleared.\<close>

definition DnsResponse_FORMERR_raw :: "bytes option \<Rightarrow> nat \<Rightarrow> bytes \<Rightarrow> int \<times> bytes" where
  "DnsResponse_FORMERR_raw p_RawData p_DataSize p_Output =
     (let p_Output = take DnsHeader_HeaderSize p_Output @ replicate (DnsHeader_HeaderSize - length p_Output) 0;
          transaction_id = (case p_RawData of
             Some s_Src \<Rightarrow> if p_DataSize \<ge> 2 then NetworkToHost (load16 s_Src 0) else 0
           | None \<Rightarrow> 0);
          p_Output = Response_WriteUint16 p_Output 0 transaction_id;
          flags = 0x8001 OR 0x0080 :: u16;
          flags = (case p_RawData of
             Some s_Src \<Rightarrow>
               if p_DataSize \<ge> 4 \<and> NetworkToHost (load16 s_Src 2) AND 0x0100 \<noteq> 0 then flags OR 0x0100 else flags
           | None \<Rightarrow> flags);
          p_Output = Response_WriteUint16 p_Output 2 flags;
          p_Output = Response_WriteUint16 p_Output 4 0;
          p_Output = Response_WriteUint16 p_Output 6 0;
          p_Output = Response_WriteUint16 p_Output 8 0
      in (0, Response_WriteUint16 p_Output 10 0))"

text \<open>The authority record of a negative answer for a blocked zone (RFC 2308).\<close>

definition nxdomain_soa :: "int \<Rightarrow> u16 \<Rightarrow> string \<Rightarrow> bytes \<Rightarrow> bytes" where
  "nxdomain_soa ttl p_Qclass p_Zone p_Output =
     (let s_Mname = ''ns.'' @ p_Zone @ ''.'';
          s_Rname = ''hostmaster.'' @ p_Zone @ ''.'';
          (z, s_ZoneWire) = DomainToQuestion p_Zone [];
          (m, s_MnameWire) = DomainToQuestion s_Mname [];
          (r, s_RnameWire) = DomainToQuestion s_Rname []
      in if z = -1 \<or> m = -1 \<or> r = -1 then Response_WriteUint16 p_Output 8 0
         else
           let s_RdataLen = length s_MnameWire + length s_RnameWire + 20 in
           if s_RdataLen > 65535 then Response_WriteUint16 p_Output 8 0
           else
             let p_Output = append_fixed ttl (p_Output @ s_ZoneWire) 6 p_Qclass (of_nat s_RdataLen);
                 p_Output = p_Output @ s_MnameWire @ s_RnameWire;
                 p_Output = AppendUint32 p_Output 1;
                 p_Output = AppendUint32 p_Output 86400;
                 p_Output = AppendUint32 p_Output 3600;
                 p_Output = AppendUint32 p_Output 604800
             in AppendUint32 p_Output (of_int ttl))"

definition DnsResponse_NXDOMAIN :: "int \<Rightarrow> DnsRequestPacket \<Rightarrow> string \<Rightarrow> int \<times> bytes" where
  "DnsResponse_NXDOMAIN ttl p_Packet p_Zone =
     (let s_Nscount = (if p_Zone = [] then 0 else 1);
          (ok, p_Output) = WriteQuestion (WriteStandardHeader p_Packet 3 0 s_Nscount 0 True) p_Packet
      in if \<not> ok then (-1, p_Output)
         else if p_Zone \<noteq> [] \<and> req_Questions p_Packet \<noteq> [] then
           (0, nxdomain_soa ttl (question_class p_Packet) p_Zone p_Output)
         else (0, p_Output))"

text \<open>A header with the given RCODE and no records, then the question.\<close>

definition bare_response :: "DnsRequestPacket \<Rightarrow> u16 \<Rightarrow> int \<times> bytes" where
  "bare_response p_Packet p_Rcode =
     (let (ok, p_Output) = WriteQuestion (WriteStandardHeader p_Packet p_Rcode 0 0 0 False) p_Packet
      in if \<not> ok then (-1, p_Output) else (0, p_Output))"

definition DnsResponse_NOTIMP :: "DnsRequestPacket \<Rightarrow> int \<times> bytes" where
  "DnsResponse_NOTIMP p_Packet = bare_response p_Packet 4"

definition DnsResponse_SERVFAIL :: "DnsRequestPacket \<Rightarrow> int \<times> bytes" where
  "DnsResponse_SERVFAIL p_Packet = bare_response p_Packet 2"

definition DnsResponse_REFUSED :: "DnsRequestPacket \<Rightarrow> int \<times> bytes" where
  "DnsResponse_REFUSED p_Packet = bare_response p_Packet 5"

section \<open>Responses with one record\<close>

text \<open>The prefix the record builders share: the authoritative header, the question, and the answer's owner name.\<close>

definition begin_answer :: "DnsRequestPacket \<Rightarrow> (bytes \<Rightarrow> int emit) \<Rightarrow> int emit" where
  "begin_answer p_Packet rest =
     (let (ok, p_Output) = WriteQuestion (WriteStandardHeader p_Packet 0 1 0 0 True) p_Packet
      in if \<not> ok then give (-1) p_Output else rest (AppendUint16 p_Output DNS_QUESTION_POINTER))"

definition DnsResponse_A :: "int \<Rightarrow> DnsRequestPacket \<Rightarrow> string \<Rightarrow> bytes \<Rightarrow> int emit" where
  "DnsResponse_A ttl p_Packet p_Ipv4Hex p_Output =
     (if length p_Ipv4Hex \<noteq> 4 then give (-1) p_Output
      else begin_answer p_Packet (\<lambda>p_Output.
        give 0 (append_fixed ttl p_Output 1 (question_class p_Packet) 4 @ bytes_of_string p_Ipv4Hex)))"

definition DnsResponse_AAAA :: "int \<Rightarrow> DnsRequestPacket \<Rightarrow> string \<Rightarrow> bytes \<Rightarrow> int emit" where
  "DnsResponse_AAAA ttl p_Packet p_Ipv6Hex p_Output =
     (if length p_Ipv6Hex \<noteq> 16 then give (-1) p_Output
      else begin_answer p_Packet (\<lambda>p_Output.
        give 0 (append_fixed ttl p_Output 28 (question_class p_Packet) 16 @ bytes_of_string p_Ipv6Hex)))"

text \<open>NS, CNAME and PTR encode the target after TYPE, CLASS and TTL are written.\<close>

definition domain_response :: "int \<Rightarrow> u16 \<Rightarrow> DnsRequestPacket \<Rightarrow> string \<Rightarrow> bytes \<Rightarrow> int emit" where
  "domain_response ttl p_Type p_Packet p_Domain p_Output =
     (if p_Domain = [] then give (-1) p_Output
      else if \<not> IsValidDnsName p_Domain then give (-1) p_Output
      else begin_answer p_Packet (\<lambda>p_Output.
        let p_Output = AppendUint16 p_Output p_Type;
            p_Output = AppendUint16 p_Output (question_class p_Packet);
            p_Output = AppendUint32 p_Output (of_int ttl);
            (s_Ret, s_Domain) = DomainToQuestion p_Domain []
        in if s_Ret = -1 then give (-1) p_Output
           else if length s_Domain > 65535 then give (-1) p_Output
           else give 0 (AppendUint16 p_Output (of_nat (length s_Domain)) @ s_Domain)))"

definition DnsResponse_NS :: "int \<Rightarrow> DnsRequestPacket \<Rightarrow> string \<Rightarrow> bytes \<Rightarrow> int emit" where
  "DnsResponse_NS ttl = domain_response ttl 2"

definition DnsResponse_CNAME :: "int \<Rightarrow> DnsRequestPacket \<Rightarrow> string \<Rightarrow> bytes \<Rightarrow> int emit" where
  "DnsResponse_CNAME ttl = domain_response ttl 5"

definition DnsResponse_PTR :: "int \<Rightarrow> DnsRequestPacket \<Rightarrow> string \<Rightarrow> bytes \<Rightarrow> int emit" where
  "DnsResponse_PTR ttl = domain_response ttl 12"

definition DnsResponse_SOA :: "'j json \<Rightarrow> int \<Rightarrow> DnsRequestPacket \<Rightarrow> 'j \<Rightarrow> bytes \<Rightarrow> int emit" where
  "DnsResponse_SOA js ttl p_Packet p_Data p_Output =
     (case soa_names js p_Data p_Output of
        (Inl e, p_Output) \<Rightarrow> (Inl e, p_Output)
      | (Inr None, p_Output) \<Rightarrow> give (-1) p_Output
      | (Inr (Some (s_PrimaryWire, s_AdminWire)), p_Output) \<Rightarrow>
          begin_answer p_Packet (\<lambda>p_Output.
            append_u32_fields js p_Data soa_numbers
              (append_fixed ttl p_Output 6 (question_class p_Packet)
                 (of_nat (length s_PrimaryWire + length s_AdminWire + 20)) @ s_PrimaryWire @ s_AdminWire)))"

definition DnsResponse_MX :: "'j json \<Rightarrow> int \<Rightarrow> DnsRequestPacket \<Rightarrow> 'j \<Rightarrow> bytes \<Rightarrow> int emit" where
  "DnsResponse_MX js ttl p_Packet p_Data p_Output =
     (case target_name js p_Data mx_required ''exchange'' 2 p_Output of
        (Inl e, p_Output) \<Rightarrow> (Inl e, p_Output)
      | (Inr None, p_Output) \<Rightarrow> give (-1) p_Output
      | (Inr (Some s_ExchangeWire), p_Output) \<Rightarrow>
          begin_answer p_Packet (\<lambda>p_Output.
            append_numbers_then js p_Data [''preference''] s_ExchangeWire
              (append_fixed ttl p_Output 15 (question_class p_Packet) (of_nat (2 + length s_ExchangeWire)))))"

definition DnsResponse_TXT :: "'j json \<Rightarrow> int \<Rightarrow> DnsRequestPacket \<Rightarrow> 'j \<Rightarrow> bytes \<Rightarrow> int emit" where
  "DnsResponse_TXT js ttl p_Packet p_Data p_Output =
     (case txt_checked js p_Data of
        None \<Rightarrow> give (-1) p_Output
      | Some s_Rdata \<Rightarrow>
          begin_answer p_Packet (\<lambda>p_Output.
            give 0 (append_fixed ttl p_Output 16 (question_class p_Packet) (of_nat (length s_Rdata)) @ s_Rdata)))"

definition DnsResponse_SRV :: "'j json \<Rightarrow> int \<Rightarrow> DnsRequestPacket \<Rightarrow> 'j \<Rightarrow> bytes \<Rightarrow> int emit" where
  "DnsResponse_SRV js ttl p_Packet p_Data p_Output =
     (case target_name js p_Data srv_required ''target'' 6 p_Output of
        (Inl e, p_Output) \<Rightarrow> (Inl e, p_Output)
      | (Inr None, p_Output) \<Rightarrow> give (-1) p_Output
      | (Inr (Some s_TargetWire), p_Output) \<Rightarrow>
          begin_answer p_Packet (\<lambda>p_Output.
            append_numbers_then js p_Data [''priority'', ''weight'', ''port''] s_TargetWire
              (append_fixed ttl p_Output 33 (question_class p_Packet) (of_nat (6 + length s_TargetWire)))))"

section \<open>Several records, and dispatch by type\<close>

record 'j AnswerRecord =
  ans_Type :: string
  ans_Data :: 'j
  ans_Name :: string

definition DnsResponse_AppendAnswer ::
  "'j json \<Rightarrow> int \<Rightarrow> string \<Rightarrow> DnsRequestPacket \<Rightarrow> 'j \<Rightarrow> bytes \<Rightarrow> string \<Rightarrow> int emit" where
  "DnsResponse_AppendAnswer js ttl p_RecordType p_Packet p_Data p_Output p_Name =
     (if req_Questions p_Packet = [] then give (-1) p_Output
      else DispatchAppendAnswer js ttl p_RecordType (question_class p_Packet) p_Data p_Output p_Name)"

primrec append_answers :: "'j json \<Rightarrow> int \<Rightarrow> u16 \<Rightarrow> 'j AnswerRecord list \<Rightarrow> bytes \<Rightarrow> int emit" where
  "append_answers js ttl s_Qclass [] p_Output = give 0 p_Output"
| "append_answers js ttl s_Qclass (l_Record # rs) p_Output =
     (case DispatchAppendAnswer js ttl (ans_Type l_Record) s_Qclass (ans_Data l_Record) p_Output (ans_Name l_Record) of
        (Inl e, p_Output) \<Rightarrow> (Inl e, p_Output)
      | (Inr s_Ret, p_Output) \<Rightarrow>
          if s_Ret \<noteq> 0 then give (-1) p_Output else append_answers js ttl s_Qclass rs p_Output)"

definition DnsResponse_MultiAnswer ::
  "'j json \<Rightarrow> int \<Rightarrow> DnsRequestPacket \<Rightarrow> 'j AnswerRecord list \<Rightarrow> bytes \<Rightarrow> int emit" where
  "DnsResponse_MultiAnswer js ttl p_Packet p_Records p_Output =
     (if p_Records = [] \<or> length p_Records > 65535 then give (-1) p_Output
      else
        let (ok, p_Output) = WriteQuestion
              (WriteStandardHeader p_Packet 0 (of_nat (length p_Records)) 0 0 True) p_Packet
        in if \<not> ok then give (-1) p_Output
           else append_answers js ttl (question_class p_Packet) p_Records p_Output)"

definition DnsResponse_CallResponseFunction ::
  "'j json \<Rightarrow> int \<Rightarrow> string \<Rightarrow> DnsRequestPacket \<Rightarrow> 'j \<Rightarrow> bytes \<Rightarrow> int emit" where
  "DnsResponse_CallResponseFunction js ttl p_RecordType p_Packet p_Data p_Output =
     (if p_RecordType = ''PTR'' then
        with_string js p_Data p_Output (\<lambda>s. DnsResponse_PTR ttl p_Packet s p_Output)
      else if p_RecordType = ''CNAME'' then
        with_string js p_Data p_Output (\<lambda>s. DnsResponse_CNAME ttl p_Packet s p_Output)
      else if p_RecordType = ''A'' then
        with_string js p_Data p_Output (\<lambda>s. DnsResponse_A ttl p_Packet s p_Output)
      else if p_RecordType = ''AAAA'' then
        with_string js p_Data p_Output (\<lambda>s. DnsResponse_AAAA ttl p_Packet s p_Output)
      else if p_RecordType = ''NS'' then
        with_string js p_Data p_Output (\<lambda>s. DnsResponse_NS ttl p_Packet s p_Output)
      else if p_RecordType = ''SOA'' then DnsResponse_SOA js ttl p_Packet p_Data p_Output
      else if p_RecordType = ''MX'' then DnsResponse_MX js ttl p_Packet p_Data p_Output
      else if p_RecordType = ''TXT'' then DnsResponse_TXT js ttl p_Packet p_Data p_Output
      else if p_RecordType = ''SRV'' then DnsResponse_SRV js ttl p_Packet p_Data p_Output
      else if p_RecordType = ''NXDOMAIN'' then
        (let s_Zone = (if json_is_string js p_Data then (case json_string js p_Data of Some s \<Rightarrow> s | None \<Rightarrow> []) else []);
             (s_Ret, p_Output) = DnsResponse_NXDOMAIN ttl p_Packet s_Zone
         in give s_Ret p_Output)
      else if p_RecordType = ''NOTIMP'' then apfst Inr (DnsResponse_NOTIMP p_Packet)
      else if p_RecordType = ''FORMERR'' then apfst Inr (DnsResponse_FORMERR p_Packet)
      else if p_RecordType = ''SERVFAIL'' then apfst Inr (DnsResponse_SERVFAIL p_Packet)
      else if p_RecordType = ''REFUSED'' then apfst Inr (DnsResponse_REFUSED p_Packet)
      else give (-1) p_Output)"

definition DnsResponse_CallResponseFunction_raw ::
  "string \<Rightarrow> bytes option \<Rightarrow> nat \<Rightarrow> bytes \<Rightarrow> int \<times> bytes" where
  "DnsResponse_CallResponseFunction_raw p_RecordType p_RawData p_DataSize p_Output =
     (if p_RecordType = ''FORMERR'' then DnsResponse_FORMERR_raw p_RawData p_DataSize p_Output
      else (-1, p_Output))"

section \<open>The OPT record\<close>

definition EDNS_OPTION_CODE_COOKIE :: u16 where "EDNS_OPTION_CODE_COOKIE = 10"
definition EDNS_COOKIE_MIN_LENGTH :: nat where "EDNS_COOKIE_MIN_LENGTH = 8"
definition EDNS_COOKIE_MAX_LENGTH :: nat where "EDNS_COOKIE_MAX_LENGTH = 40"
definition DEFAULT_EDNS_PACKET_SIZE :: u16 where "DEFAULT_EDNS_PACKET_SIZE = 1232"

primrec opt_rdata :: "EdnsOption list \<Rightarrow> bytes \<Rightarrow> bytes" where
  "opt_rdata [] s_Rdata = s_Rdata"
| "opt_rdata (l_Opt # os) s_Rdata =
     (if m_Code l_Opt = EDNS_OPTION_CODE_COOKIE \<and> length (m_Data l_Opt) \<ge> EDNS_COOKIE_MIN_LENGTH
         \<and> length (m_Data l_Opt) \<le> EDNS_COOKIE_MAX_LENGTH
      then opt_rdata os
             (AppendUint16 (AppendUint16 s_Rdata (m_Code l_Opt)) (of_nat (length (m_Data l_Opt))) @ m_Data l_Opt)
      else opt_rdata os s_Rdata)"

definition increment_arcount :: "bytes \<Rightarrow> bytes" where
  "increment_arcount p_Output =
     (if length p_Output \<ge> DnsHeader_HeaderSize then
        (let s_Arcount = NetworkToHost (load16 p_Output 10);
             s_Arcount = s_Arcount + 1
         in Response_WriteUint16 p_Output 10 s_Arcount)
      else p_Output)"

definition DnsResponse_AppendOpt :: "bytes \<Rightarrow> u8 \<Rightarrow> EdnsData option \<Rightarrow> bytes" where
  "DnsResponse_AppendOpt p_Output p_ExtendedRcode p_RequestEdns =
     (let s_Rdata = (case p_RequestEdns of None \<Rightarrow> [] | Some e \<Rightarrow> opt_rdata (m_Options e) []);
          p_Output = p_Output @ [0];
          p_Output = AppendUint16 p_Output 41;
          p_Output = AppendUint16 p_Output DEFAULT_EDNS_PACKET_SIZE;
          s_Ttl = push_bit 24 (ucast p_ExtendedRcode);
          p_Output = AppendUint32 p_Output s_Ttl;
          p_Output = (if length s_Rdata > 65535 then AppendUint16 p_Output 0
                      else AppendUint16 p_Output (of_nat (length s_Rdata)) @ s_Rdata)
      in increment_arcount p_Output)"

definition DnsResponse_FORMERR_OPT :: "DnsRequestPacket \<Rightarrow> EdnsData option \<Rightarrow> int \<times> bytes" where
  "DnsResponse_FORMERR_OPT p_Packet p_RequestEdns =
     (let (s_Ret, p_Output) = DnsResponse_FORMERR p_Packet
      in (s_Ret, if s_Ret = 0 then DnsResponse_AppendOpt p_Output 0 p_RequestEdns else p_Output))"

definition DnsResponse_FORMERR_OPT_raw :: "bytes option \<Rightarrow> nat \<Rightarrow> bytes \<Rightarrow> EdnsData option \<Rightarrow> int \<times> bytes" where
  "DnsResponse_FORMERR_OPT_raw p_RawData p_DataSize p_Output p_RequestEdns =
     (let (s_Ret, p_Output) = DnsResponse_FORMERR_raw p_RawData p_DataSize p_Output
      in (s_Ret, if s_Ret = 0 then DnsResponse_AppendOpt p_Output 0 p_RequestEdns else p_Output))"

definition DnsResponse_BADVERS :: "DnsRequestPacket \<Rightarrow> EdnsData option \<Rightarrow> int \<times> bytes" where
  "DnsResponse_BADVERS p_Packet p_RequestEdns =
     (let (ok, p_Output) = WriteQuestion (WriteStandardHeader p_Packet 0 0 0 0 False) p_Packet
      in if \<not> ok then (-1, p_Output) else (0, DnsResponse_AppendOpt p_Output 1 p_RequestEdns))"

section \<open>Lemmas: names\<close>

definition name_ok :: "string \<Rightarrow> bool" where
  "name_ok s \<longleftrightarrow> length s \<le> 253 \<and> labels_wf (domain_parts s) \<and> length (labels_image (domain_parts s)) \<le> 255"

definition labels_ok :: "string list \<Rightarrow> bool" where
  "labels_ok ls \<longleftrightarrow> labels_wf ls \<and> length (labels_image ls) \<le> 255"

lemma question_name_size_eq:
  "question_name_size ls n = (if labels_wf ls then Some (n + length (concat (map label_image ls))) else None)"
  by (induction ls arbitrary: n) (auto simp: labels_wf_def MAX_DNS_LABEL_LENGTH_def)

lemma push_labels_eq: "push_labels ls out = out @ concat (map label_image ls)"
  by (induction ls arbitrary: out) (simp_all add: label_image_def)

lemma labels_image_wf: "labels_wf ls \<Longrightarrow> labels_image ls = concat (map label_image ls) @ [0]"
  by (simp add: labels_image_def labels_wf_def list_all_iff filter_id_conv [THEN iffD2])

lemma DomainToQuestion_labels_eq:
  "DomainToQuestion_labels ls out = (if labels_ok ls then (0, out @ labels_image ls) else (-1, out))"
  by (auto simp: DomainToQuestion_labels_def question_name_size_eq push_labels_eq labels_ok_def labels_image_wf)

lemma domain_parts_Nil [simp]: "domain_parts [] = []"
  by (simp add: domain_parts_def)

lemma labels_image_Nil [simp]: "labels_image [] = [0]"
  by (simp add: labels_image_def)

lemma DomainToQuestion_eq:
  "DomainToQuestion s out = (if name_ok s then (0, out @ labels_image (domain_parts s)) else (-1, out))"
  by (auto simp: DomainToQuestion_def IsValidDnsName_def MAX_DNS_NAME_LENGTH_def DomainToQuestion_labels_eq
      name_ok_def labels_ok_def labels_wf_def)

lemma IsValidDnsName_Nil [simp]: "\<not> IsValidDnsName []"
  by (simp add: IsValidDnsName_def)

lemma name_ok_valid [simp]: "name_ok s \<Longrightarrow> IsValidDnsName s \<longleftrightarrow> s \<noteq> []"
  by (simp add: name_ok_def IsValidDnsName_def MAX_DNS_NAME_LENGTH_def)

lemma name_ok_length: "name_ok s \<Longrightarrow> length (labels_image (domain_parts s)) \<le> 255"
  by (simp add: name_ok_def)

section \<open>Lemmas: header and question\<close>

text \<open>The header that \<^verbatim>\<open>WriteStandardHeader\<close> writes.\<close>

definition standard_header :: "DnsRequestPacket \<Rightarrow> u16 \<Rightarrow> u16 \<Rightarrow> u16 \<Rightarrow> u16 \<Rightarrow> bool \<Rightarrow> DnsHeader" where
  "standard_header p rc an ns ar aa =
     \<lparr>m_Id = m_Id (req_Header p), m_Flags = HostToNetwork (response_flags p rc aa), m_Qdcount = HostToNetwork 1,
      m_Ancount = HostToNetwork an, m_Nscount = HostToNetwork ns, m_Arcount = HostToNetwork ar\<rparr>"

lemma Response_WriteUint16_eq:
  "i + 2 \<le> length out \<Longrightarrow> Response_WriteUint16 out i v = overwrite out i (mem16 (HostToNetwork v))"
  by (simp add: Response_WriteUint16_def mem16_def overwrite_def list_update_append upd_conv_take_nth_drop
      Suc_le_eq take_Suc_conv_app_nth min_def)

lemma WriteStandardHeader_image:
  "WriteStandardHeader p rc an ns ar aa = DnsHeader_image (standard_header p rc an ns ar aa)"
proof -
  have r: "replicate DnsHeader_HeaderSize 0 = ([0,0,0,0,0,0,0,0,0,0,0,0] :: bytes)"
    by (simp add: DnsHeader_HeaderSize_def numeral_nat)
  show ?thesis
    unfolding WriteStandardHeader_def Let_def r
    by (simp add: Response_WriteUint16_def mem16_def DnsHeader_image_def standard_header_def DnsHeader_Id_def)
qed

lemma WriteQuestion_eq:
  "WriteQuestion out p =
     (case req_Questions p of
        [] \<Rightarrow> (False, out)
      | q # _ \<Rightarrow> if labels_ok (m_Qname q) then (True, out @ question_image q) else (False, out))"
  by (auto simp: WriteQuestion_def DomainToQuestion_labels_eq DnsQuestion_Qname_def AppendUint16_def
      DnsQuestion_Qtype_def DnsQuestion_Qclass_def question_image_def split: list.split)

section \<open>Lemmas: one record\<close>

definition name_image :: "string \<Rightarrow> bytes" where
  "name_image nm = (if nm = [] then [0xC0, 0x0C] else labels_image (domain_parts nm))"

text \<open>The record as an object, for the lemmas about its image.\<close>

definition new_record :: "string list \<Rightarrow> u16 \<Rightarrow> u16 \<Rightarrow> int \<Rightarrow> bytes \<Rightarrow> DnsAnswer" where
  "new_record ls t c ttl rd = DnsAnswer_ctor_labels ls t c (of_int ttl) rd"

lemma new_record_fields:
  "new_record ls t c ttl rd =
     \<lparr>m_Name = ls, m_Type = HostToNetwork t, m_Class = HostToNetwork c, m_Ttl = HostToNetwork (of_int ttl),
      m_Rdlength = HostToNetwork (of_nat (length rd)), m_Rdata = rd\<rparr>"
  by (simp add: new_record_def DnsAnswer_ctor_labels_def DnsAnswer_SetTtl_def DnsAnswer_SetRclass_def
      DnsAnswer_SetType_def DnsAnswer_UpdateRDLENGTH_def DnsAnswer_default_def)

lemma question_pointer_bytes: "mem16 (HostToNetwork DNS_QUESTION_POINTER) = [0xC0, 0x0C]"
  by (simp add: mem16_HostToNetwork DNS_QUESTION_POINTER_def)

lemma WriteAnswerName_eq:
  "WriteAnswerName out nm = (if name_ok nm then (0, out @ name_image nm) else (-1, out))"
  by (auto simp: WriteAnswerName_def DomainToQuestion_eq AppendUint16_def question_pointer_bytes name_image_def
      name_ok_def labels_wf_def)

text \<open>The fixed fields and the RDATA: the tail of the record, whatever its owner name.\<close>

definition record_tail :: "int \<Rightarrow> u16 \<Rightarrow> u16 \<Rightarrow> bytes \<Rightarrow> bytes" where
  "record_tail ttl t c rd = answer_tail (new_record [] t c ttl rd)"

lemma record_tail_eq: "answer_tail (new_record ls t c ttl rd) = record_tail ttl t c rd"
  by (simp add: record_tail_def answer_tail_def new_record_fields)

lemma append_fixed_tail:
  "append_fixed ttl out t c (of_nat (length rd)) @ rd = out @ record_tail ttl t c rd"
  "length rd = 4 \<Longrightarrow> append_fixed ttl out t c 4 @ rd = out @ record_tail ttl t c rd"
  "length rd = 16 \<Longrightarrow> append_fixed ttl out t c 16 @ rd = out @ record_tail ttl t c rd"
  by (simp_all add: append_fixed_def Let_def AppendUint16_def AppendUint32_def record_tail_def answer_tail_def new_record_fields)

text \<open>The RDATA that a record type and its zone data stand for.\<close>

definition txt_strings :: "'j json \<Rightarrow> 'j list \<Rightarrow> bytes" where
  "txt_strings js es = concat (map (\<lambda>e. label_image (the (json_string js e))) es)"

primrec numbers16 :: "'j json \<Rightarrow> 'j \<Rightarrow> string list \<Rightarrow> bytes option" where
  "numbers16 js d [] = Some []"
| "numbers16 js d (f # fs) =
     (case (json_u16 js (json_at js d f), numbers16 js d fs) of
        (Some v, Some bs) \<Rightarrow> Some (mem16 (HostToNetwork v) @ bs) | _ \<Rightarrow> None)"

primrec numbers32 :: "'j json \<Rightarrow> 'j \<Rightarrow> string list \<Rightarrow> bytes option" where
  "numbers32 js d [] = Some []"
| "numbers32 js d (f # fs) =
     (case (json_u32 js (json_at js d f), numbers32 js d fs) of
        (Some v, Some bs) \<Rightarrow> Some (mem32 (HostToNetwork v) @ bs) | _ \<Rightarrow> None)"

definition fields_present :: "'j json \<Rightarrow> 'j \<Rightarrow> string list \<Rightarrow> bool" where
  "fields_present js d fs \<longleftrightarrow> json_is_object js d \<and> (\<forall>f\<in>set fs. json_contains js d f)"

definition name_field :: "'j json \<Rightarrow> 'j \<Rightarrow> string \<Rightarrow> string list option" where
  "name_field js d f =
     (case json_string js (json_at js d f) of
        Some s \<Rightarrow> if s \<noteq> [] \<and> name_ok s then Some (domain_parts s) else None
      | None \<Rightarrow> None)"

definition record_rdata :: "'j json \<Rightarrow> string \<Rightarrow> 'j \<Rightarrow> (u16 \<times> bytes) option" where
  "record_rdata js t d =
     (let address = (\<lambda>ty n. case json_string js d of
            Some s \<Rightarrow> if length s = n then Some (ty, bytes_of_string s) else None | None \<Rightarrow> None);
          target = (\<lambda>ty. case json_string js d of
            Some s \<Rightarrow> if s \<noteq> [] \<and> name_ok s then Some (ty, labels_image (domain_parts s)) else None | None \<Rightarrow> None);
          with_numbers = (\<lambda>ty fs f.
            if fields_present js d (fs @ [f]) then
              (case (numbers16 js d fs, name_field js d f) of
                 (Some ns, Some ls) \<Rightarrow> Some (ty, ns @ labels_image ls) | _ \<Rightarrow> None)
            else None)
      in if t = ''A'' then address 1 4
         else if t = ''AAAA'' then address 28 16
         else if t = ''CNAME'' then target 5
         else if t = ''NS'' then target 2
         else if t = ''PTR'' then target 12
         else if t = ''SOA'' then
           (if fields_present js d ([''primary'', ''admin''] @ soa_numbers) then
              (case (name_field js d ''primary'', name_field js d ''admin'', numbers32 js d soa_numbers) of
                 (Some ms, Some rs, Some ns) \<Rightarrow> Some (6, labels_image ms @ labels_image rs @ ns) | _ \<Rightarrow> None)
            else None)
         else if t = ''MX'' then with_numbers 15 [''preference''] ''exchange''
         else if t = ''SRV'' then with_numbers 33 [''priority'', ''weight'', ''port''] ''target''
         else if t = ''TXT'' then
           (let es = json_elements js d in
            if json_is_array js d \<and> es \<noteq> [] \<and>
               (\<forall>e\<in>set es. json_is_string js e \<and> (case json_string js e of Some s \<Rightarrow> length s \<le> 255 | None \<Rightarrow> False)) \<and>
               length (txt_strings js es) \<le> 65535
            then Some (16, txt_strings js es) else None)
         else None)"

section \<open>Lemmas: the record builders append exactly their RDATA\<close>

lemma append_u32_fields_eq:
  "case numbers32 js d fs of
     Some ns \<Rightarrow> append_u32_fields js d fs out = (Inr 0, out @ ns)
   | None \<Rightarrow> fst (append_u32_fields js d fs out) = Inl Json_type_error"
  by (induction fs arbitrary: out)
     (auto simp: AppendUint32_def raise_type_error_def split: option.split)

lemma append_u16_fields_eq:
  "case numbers16 js d fs of
     Some ns \<Rightarrow> append_u16_fields js d fs out = (Inr 0, out @ ns)
   | None \<Rightarrow> fst (append_u16_fields js d fs out) = Inl Json_type_error"
  by (induction fs arbitrary: out)
     (auto simp: AppendUint16_def raise_type_error_def split: option.split)

lemma append_u32_fields_ok:
  "append_u32_fields js d fs out = (Inr 0, out') \<longleftrightarrow> (\<exists>ns. numbers32 js d fs = Some ns \<and> out' = out @ ns)"
  using append_u32_fields_eq [of js d fs out] by (auto split: option.splits)

lemma append_numbers_then_ok:
  "append_numbers_then js d fs w out = (Inr 0, out') \<longleftrightarrow> (\<exists>ns. numbers16 js d fs = Some ns \<and> out' = out @ ns @ w)"
  using append_u16_fields_eq [of js d fs out]
  by (cases "append_u16_fields js d fs out") (auto simp: append_numbers_then_def split: option.splits)

lemma name_field_Some:
  "name_field js d f = Some ls \<longleftrightarrow>
   (\<exists>s. json_string js (json_at js d f) = Some s \<and> s \<noteq> [] \<and> name_ok s \<and> ls = domain_parts s)"
  by (auto simp: name_field_def split: option.split)

lemma rdata_room [simp]:
  "name_ok s \<Longrightarrow> name_ok t \<Longrightarrow>
   \<not> 65515 < length (labels_image (domain_parts s)) + length (labels_image (domain_parts t))"
  "name_ok s \<Longrightarrow> k \<le> 6 \<Longrightarrow> \<not> 65535 < k + length (labels_image (domain_parts s))"
  using name_ok_length [of s] name_ok_length [of t] by simp_all

lemma soa_names_ok:
  "soa_names js d out = (Inr (Some (pw, aw)), out') \<longleftrightarrow>
   fields_present js d ([''primary'', ''admin''] @ soa_numbers) \<and> out' = out \<and>
   (\<exists>ms rs. name_field js d ''primary'' = Some ms \<and> pw = labels_image ms \<and>
            name_field js d ''admin'' = Some rs \<and> aw = labels_image rs)"
proof (cases "fields_present js d ([''primary'', ''admin''] @ soa_numbers)")
  case True
  then have "json_is_object js d" "list_all (json_contains js d) soa_required"
    by (auto simp: fields_present_def soa_required_def soa_numbers_def)
  with True show ?thesis
    by (auto simp: soa_names_def name_field_Some DomainToQuestion_eq Let_def
        split: option.split)
next
  case False
  then have "\<not> (json_is_object js d \<and> list_all (json_contains js d) soa_required)"
    by (auto simp: fields_present_def soa_required_def soa_numbers_def)
  with False show ?thesis by (auto simp: soa_names_def)
qed

lemma target_name_ok:
  assumes "extra \<le> 6"
  shows "target_name js d req f extra out = (Inr (Some w), out') \<longleftrightarrow>
   fields_present js d req \<and> out' = out \<and> (\<exists>ls. name_field js d f = Some ls \<and> w = labels_image ls)"
proof (cases "fields_present js d req")
  case True
  then have "json_is_object js d" "list_all (json_contains js d) req"
    by (auto simp: fields_present_def list_all_iff)
  with True assms show ?thesis
    by (auto simp: target_name_def name_field_Some DomainToQuestion_eq Let_def
        split: option.split)
next
  case False
  then show ?thesis by (auto simp: target_name_def fields_present_def list_all_iff)
qed

definition txt_ok :: "'j json \<Rightarrow> 'j \<Rightarrow> bool" where
  "txt_ok js e \<longleftrightarrow> json_is_string js e \<and> (case json_string js e of Some s \<Rightarrow> length s \<le> 255 | None \<Rightarrow> False)"

lemma txt_rdata_eq:
  "txt_rdata js es acc = (if \<forall>e\<in>set es. txt_ok js e then Some (acc @ txt_strings js es) else None)"
  by (induction es arbitrary: acc)
     (auto simp: txt_strings_def MAX_TXT_STRING_LENGTH_def label_image_def txt_ok_def split: option.splits)

lemma txt_checked_ok: "txt_checked js d = Some rd \<longleftrightarrow> record_rdata js ''TXT'' d = Some (16, rd)"
  by (simp add: txt_checked_def txt_rdata_eq record_rdata_def Let_def txt_ok_def [symmetric] linorder_not_less)

lemma AppendAnswerA_ok:
  "AppendAnswerA ttl out c s nm = (Inr 0, out') \<longleftrightarrow>
   length s = 4 \<and> name_ok nm \<and> out' = out @ name_image nm @ record_tail ttl 1 c (bytes_of_string s)"
  by (auto simp: AppendAnswerA_def WriteAnswerName_eq append_fixed_tail)

lemma AppendAnswerAAAA_ok:
  "AppendAnswerAAAA ttl out c s nm = (Inr 0, out') \<longleftrightarrow>
   length s = 16 \<and> name_ok nm \<and> out' = out @ name_image nm @ record_tail ttl 28 c (bytes_of_string s)"
  by (auto simp: AppendAnswerAAAA_def WriteAnswerName_eq append_fixed_tail)

lemma AppendAnswerDomain_ok:
  "AppendAnswerDomain ttl out c t s nm = (Inr 0, out') \<longleftrightarrow>
   s \<noteq> [] \<and> name_ok s \<and> name_ok nm \<and>
   out' = out @ name_image nm @ record_tail ttl t c (labels_image (domain_parts s))"
proof -
  have "length (labels_image (domain_parts s)) \<le> 65535" if "name_ok s"
    using name_ok_length [OF that] by simp
  then show ?thesis
    by (auto simp: AppendAnswerDomain_def WriteAnswerName_eq DomainToQuestion_eq append_fixed_tail)
qed

lemma AppendAnswerSOA_ok:
  "AppendAnswerSOA js ttl out c d nm = (Inr 0, out') \<longleftrightarrow>
   (\<exists>rd. record_rdata js ''SOA'' d = Some (6, rd) \<and> name_ok nm \<and> out' = out @ name_image nm @ record_tail ttl 6 c rd)"
proof (cases "soa_names js d out")
  case (Pair res o1)
  show ?thesis
  proof (cases "\<exists>pw aw. res = Inr (Some (pw, aw))")
    case True
    then obtain pw aw where res: "res = Inr (Some (pw, aw))" by blast
    with Pair obtain ms rs where f: "fields_present js d ([''primary'', ''admin''] @ soa_numbers)" "o1 = out"
      "name_field js d ''primary'' = Some ms" "name_field js d ''admin'' = Some rs"
      "pw = labels_image ms" "aw = labels_image rs"
      by (auto simp: soa_names_ok)
    have len: "length ns = 20" if "numbers32 js d soa_numbers = Some ns" for ns
      using that by (auto simp: soa_numbers_def split: option.splits)
    have tail: "append_fixed ttl x 6 c (of_nat (length pw + length aw + 20)) @ pw @ aw @ ns =
        x @ record_tail ttl 6 c (labels_image ms @ labels_image rs @ ns)"
      if "numbers32 js d soa_numbers = Some ns" for ns x
      using append_fixed_tail(1) [of ttl x 6 c "pw @ aw @ ns"] len [OF that] f by (simp add: add.assoc)
    show ?thesis
      using f tail
      by (auto simp: AppendAnswerSOA_def Pair res WriteAnswerName_eq append_u32_fields_ok record_rdata_def
          split: option.splits)
  next
    case False
    then have "record_rdata js ''SOA'' d = None"
      using soa_names_ok [of js d out _ _ out] Pair
      by (fastforce simp: record_rdata_def split: option.splits)
    moreover have "AppendAnswerSOA js ttl out c d nm \<noteq> (Inr 0, out')"
      using False Pair by (auto simp: AppendAnswerSOA_def split: sum.splits option.splits)
    ultimately show ?thesis by simp
  qed
qed

lemma numbers16_length: "numbers16 js d fs = Some ns \<Longrightarrow> length ns = 2 * length fs"
  by (induction fs arbitrary: ns) (auto split: option.splits)

lemma numbers32_length: "numbers32 js d fs = Some ns \<Longrightarrow> length ns = 4 * length fs"
  by (induction fs arbitrary: ns) (auto split: option.splits)

text \<open>MX and SRV share their shape: some 16-bit numbers, then a name.\<close>

lemma numbered_target_ok:
  assumes req: "fields_present js d req \<longleftrightarrow> fields_present js d (fs @ [f])" and k: "k = 2 * length fs" "k \<le> 6"
  shows "(case target_name js d req f k out of
            (Inl e, p_Output) \<Rightarrow> (Inl e, p_Output)
          | (Inr None, p_Output) \<Rightarrow> give (-1) p_Output
          | (Inr (Some w), p_Output) \<Rightarrow>
              let s_RdataLen = k + length w; (s_Ret, p_Output) = WriteAnswerName p_Output nm
              in if s_Ret \<noteq> 0 then give (-1) p_Output
                 else append_numbers_then js d fs w (append_fixed ttl p_Output t c (of_nat s_RdataLen))) = (Inr 0, out') \<longleftrightarrow>
    (\<exists>ns ls. fields_present js d (fs @ [f]) \<and> numbers16 js d fs = Some ns \<and> name_field js d f = Some ls \<and> name_ok nm \<and>
       out' = out @ name_image nm @ record_tail ttl t c (ns @ labels_image ls))"
proof (cases "target_name js d req f k out")
  case (Pair res o1)
  have tail: "append_fixed ttl x t c (of_nat (k + length w)) @ ns @ w = x @ record_tail ttl t c (ns @ w)"
    if "numbers16 js d fs = Some ns" for ns w x
    using append_fixed_tail(1) [of ttl x t c "ns @ w"] numbers16_length [OF that] k by simp
  show ?thesis
  proof (cases "\<exists>w. res = Inr (Some w)")
    case True
    then obtain w where res: "res = Inr (Some w)" by blast
    with Pair k obtain ls where "fields_present js d (fs @ [f])" "o1 = out" "name_field js d f = Some ls" "w = labels_image ls"
      by (auto simp: target_name_ok req)
    with tail show ?thesis
      by (auto simp: Pair res WriteAnswerName_eq append_numbers_then_ok simp del: of_nat_add)
  next
    case False
    have "target_name js d req f k out \<noteq> (Inr (Some (labels_image (the (name_field js d f)))), out)"
      using False Pair by auto
    then have "\<not> (fields_present js d (fs @ [f]) \<and> name_field js d f \<noteq> None)"
      using k by (auto simp: target_name_ok req)
    moreover have "res = Inr None \<or> (\<exists>e. res = Inl e)" using False by (cases res) auto
    ultimately show ?thesis using Pair by auto
  qed
qed

lemma record_rdata_numbered:
  "record_rdata js ''MX'' d = Some (ty, rd) \<longleftrightarrow>
   (\<exists>ns ls. fields_present js d [''preference'', ''exchange''] \<and> numbers16 js d [''preference''] = Some ns \<and>
      name_field js d ''exchange'' = Some ls \<and> ty = 15 \<and> rd = ns @ labels_image ls)"
  "record_rdata js ''SRV'' d = Some (ty, rd) \<longleftrightarrow>
   (\<exists>ns ls. fields_present js d [''priority'', ''weight'', ''port'', ''target''] \<and>
      numbers16 js d [''priority'', ''weight'', ''port''] = Some ns \<and>
      name_field js d ''target'' = Some ls \<and> ty = 33 \<and> rd = ns @ labels_image ls)"
  by (auto simp: record_rdata_def split: option.split)

lemma AppendAnswerMX_ok:
  "AppendAnswerMX js ttl out c d nm = (Inr 0, out') \<longleftrightarrow>
   (\<exists>rd. record_rdata js ''MX'' d = Some (15, rd) \<and> name_ok nm \<and> out' = out @ name_image nm @ record_tail ttl 15 c rd)"
  using numbered_target_ok [where js = js and d = d and req = mx_required and fs = "[''preference'']" and f = "''exchange''"
      and k = 2 and out = out and nm = nm and ttl = ttl and t = 15 and c = c and out' = out']
  by (auto simp: AppendAnswerMX_def record_rdata_numbered mx_required_def)

lemma AppendAnswerSRV_ok:
  "AppendAnswerSRV js ttl out c d nm = (Inr 0, out') \<longleftrightarrow>
   (\<exists>rd. record_rdata js ''SRV'' d = Some (33, rd) \<and> name_ok nm \<and> out' = out @ name_image nm @ record_tail ttl 33 c rd)"
  using numbered_target_ok [where js = js and d = d and req = srv_required and fs = "[''priority'', ''weight'', ''port'']"
      and f = "''target''" and k = 6 and out = out and nm = nm and ttl = ttl and t = 33 and c = c and out' = out']
  by (auto simp: AppendAnswerSRV_def record_rdata_numbered srv_required_def)

lemma AppendAnswerTXT_ok:
  "AppendAnswerTXT js ttl out c d nm = (Inr 0, out') \<longleftrightarrow>
   (\<exists>rd. record_rdata js ''TXT'' d = Some (16, rd) \<and> name_ok nm \<and> out' = out @ name_image nm @ record_tail ttl 16 c rd)"
  unfolding txt_checked_ok [symmetric]
  by (auto simp: AppendAnswerTXT_def WriteAnswerName_eq append_fixed_tail split: option.splits)

lemma with_string_ok:
  "with_string js d out f = (Inr 0, out') \<longleftrightarrow> (\<exists>s. json_string js d = Some s \<and> f s = (Inr 0, out'))"
  by (auto simp: with_string_def split: option.split)

lemmas append_answer_ok =
  AppendAnswerA_ok AppendAnswerAAAA_ok AppendAnswerDomain_ok AppendAnswerSOA_ok AppendAnswerMX_ok
  AppendAnswerTXT_ok AppendAnswerSRV_ok with_string_ok

definition record_types :: "string list" where
  "record_types = [''A'', ''AAAA'', ''CNAME'', ''NS'', ''PTR'', ''SOA'', ''MX'', ''TXT'', ''SRV'']"

lemma record_rdata_plain:
  "record_rdata js ''A'' d = Some (ty, rd) \<longleftrightarrow>
     (\<exists>s. json_string js d = Some s \<and> length s = 4 \<and> ty = 1 \<and> rd = bytes_of_string s)"
  "record_rdata js ''AAAA'' d = Some (ty, rd) \<longleftrightarrow>
     (\<exists>s. json_string js d = Some s \<and> length s = 16 \<and> ty = 28 \<and> rd = bytes_of_string s)"
  "record_rdata js ''CNAME'' d = Some (ty, rd) \<longleftrightarrow>
     (\<exists>s. json_string js d = Some s \<and> s \<noteq> [] \<and> name_ok s \<and> ty = 5 \<and> rd = labels_image (domain_parts s))"
  "record_rdata js ''NS'' d = Some (ty, rd) \<longleftrightarrow>
     (\<exists>s. json_string js d = Some s \<and> s \<noteq> [] \<and> name_ok s \<and> ty = 2 \<and> rd = labels_image (domain_parts s))"
  "record_rdata js ''PTR'' d = Some (ty, rd) \<longleftrightarrow>
     (\<exists>s. json_string js d = Some s \<and> s \<noteq> [] \<and> name_ok s \<and> ty = 12 \<and> rd = labels_image (domain_parts s))"
  by (auto simp: record_rdata_def split: option.split)

lemma record_rdata_type:
  "record_rdata js ''SOA'' d = Some (ty, rd) \<Longrightarrow> ty = 6"
  "record_rdata js ''TXT'' d = Some (ty, rd) \<Longrightarrow> ty = 16"
  "record_rdata js ''MX'' d = Some (ty, rd) \<Longrightarrow> ty = 15"
  "record_rdata js ''SRV'' d = Some (ty, rd) \<Longrightarrow> ty = 33"
  by (auto simp: record_rdata_def Let_def split: option.splits if_splits)

lemma record_rdata_known: "record_rdata js t d = Some (ty, rd) \<Longrightarrow> t \<in> set record_types"
  by (rule ccontr) (simp add: record_rdata_def record_types_def)

lemma nine_cases:
  assumes "x \<in> set [a1, a2, a3, a4, a5, a6, a7, a8, a9]"
  obtains "x = a1" | "x = a2" | "x = a3" | "x = a4" | "x = a5" | "x = a6" | "x = a7" | "x = a8" | "x = a9"
  using assms by auto

lemma DispatchAppendAnswer_ok:
  "DispatchAppendAnswer js ttl t c d out nm = (Inr 0, out') \<longleftrightarrow>
   (\<exists>ty rd. record_rdata js t d = Some (ty, rd) \<and> name_ok nm \<and> out' = out @ name_image nm @ record_tail ttl ty c rd)"
proof (cases "t \<in> set record_types")
  case False
  then show ?thesis
    using record_rdata_known [of js t d] by (auto simp: DispatchAppendAnswer_def record_types_def)
next
  case True
  then consider "t = ''A''" | "t = ''AAAA''" | "t = ''CNAME''" | "t = ''NS''" | "t = ''PTR''" | "t = ''SOA''"
    | "t = ''MX''" | "t = ''TXT''" | "t = ''SRV''"
    unfolding record_types_def by (rule nine_cases)
  then show ?thesis
  proof cases
    case 6
    have "DispatchAppendAnswer js ttl t c d out nm = AppendAnswerSOA js ttl out c d nm"
      by (simp add: DispatchAppendAnswer_def 6)
    then show ?thesis using record_rdata_type(1) by (fastforce simp only: AppendAnswerSOA_ok 6)
  next
    case 7
    have "DispatchAppendAnswer js ttl t c d out nm = AppendAnswerMX js ttl out c d nm"
      by (simp add: DispatchAppendAnswer_def 7)
    then show ?thesis using record_rdata_type(3) by (fastforce simp only: AppendAnswerMX_ok 7)
  next
    case 8
    have "DispatchAppendAnswer js ttl t c d out nm = AppendAnswerTXT js ttl out c d nm"
      by (simp add: DispatchAppendAnswer_def 8)
    then show ?thesis using record_rdata_type(2) by (fastforce simp only: AppendAnswerTXT_ok 8)
  next
    case 9
    have "DispatchAppendAnswer js ttl t c d out nm = AppendAnswerSRV js ttl out c d nm"
      by (simp add: DispatchAppendAnswer_def 9)
    then show ?thesis using record_rdata_type(4) by (fastforce simp only: AppendAnswerSRV_ok 9)
  qed (auto simp: DispatchAppendAnswer_def append_answer_ok record_rdata_plain)
qed

section \<open>Lemmas: the single-record builders and the multi-answer builder\<close>

definition question_ok :: "DnsRequestPacket \<Rightarrow> bool" where
  "question_ok p \<longleftrightarrow> req_Questions p \<noteq> [] \<and> labels_ok (m_Qname (hd (req_Questions p)))"

definition answer_start :: "DnsRequestPacket \<Rightarrow> u16 \<Rightarrow> bytes" where
  "answer_start p an = DnsHeader_image (standard_header p 0 an 0 0 True) @ question_image (hd (req_Questions p))"

lemma WriteQuestion_ok:
  "WriteQuestion out p = (if question_ok p then (True, out @ question_image (hd (req_Questions p))) else (False, out))"
  by (auto simp: WriteQuestion_eq question_ok_def split: list.split)

lemma begin_answer_ok:
  "begin_answer p rest = (Inr 0, out') \<longleftrightarrow>
   question_ok p \<and> rest (answer_start p 1 @ [0xC0, 0x0C]) = (Inr 0, out')"
  by (simp add: begin_answer_def WriteQuestion_ok WriteStandardHeader_image answer_start_def AppendUint16_def
      question_pointer_bytes)

lemma WriteAnswerName_pointer: "WriteAnswerName out [] = (0, out @ [0xC0, 0x0C])"
  by (simp add: WriteAnswerName_def AppendUint16_def question_pointer_bytes)

lemma soa_names_out: "soa_names js d out = (fst (soa_names js d []), out)"
  by (simp add: soa_names_def raise_type_error_def Let_def split: option.split prod.split)

lemma target_name_out: "target_name js d req f k out = (fst (target_name js d req f k []), out)"
  by (simp add: target_name_def raise_type_error_def Let_def split: option.split prod.split)

text \<open>On success a single-record builder writes what the appending builder writes after the question.\<close>

lemma single_via_append:
  "DnsResponse_A ttl p s out = (Inr 0, out') \<longleftrightarrow>
     question_ok p \<and> AppendAnswerA ttl (answer_start p 1) (question_class p) s [] = (Inr 0, out')"
  "DnsResponse_AAAA ttl p s out = (Inr 0, out') \<longleftrightarrow>
     question_ok p \<and> AppendAnswerAAAA ttl (answer_start p 1) (question_class p) s [] = (Inr 0, out')"
  "domain_response ttl ty p s out = (Inr 0, out') \<longleftrightarrow>
     question_ok p \<and> AppendAnswerDomain ttl (answer_start p 1) (question_class p) ty s [] = (Inr 0, out')"
  "DnsResponse_TXT js ttl p d out = (Inr 0, out') \<longleftrightarrow>
     question_ok p \<and> AppendAnswerTXT js ttl (answer_start p 1) (question_class p) d [] = (Inr 0, out')"
  by (auto simp: DnsResponse_A_def AppendAnswerA_def DnsResponse_AAAA_def AppendAnswerAAAA_def
      domain_response_def AppendAnswerDomain_def DnsResponse_TXT_def AppendAnswerTXT_def begin_answer_ok
      WriteAnswerName_pointer append_fixed_def Let_def split: option.split prod.split)

lemma single_via_append_numbered:
  "DnsResponse_SOA js ttl p d out = (Inr 0, out') \<longleftrightarrow>
     question_ok p \<and> AppendAnswerSOA js ttl (answer_start p 1) (question_class p) d [] = (Inr 0, out')"
  "DnsResponse_MX js ttl p d out = (Inr 0, out') \<longleftrightarrow>
     question_ok p \<and> AppendAnswerMX js ttl (answer_start p 1) (question_class p) d [] = (Inr 0, out')"
  "DnsResponse_SRV js ttl p d out = (Inr 0, out') \<longleftrightarrow>
     question_ok p \<and> AppendAnswerSRV js ttl (answer_start p 1) (question_class p) d [] = (Inr 0, out')"
  unfolding DnsResponse_SOA_def AppendAnswerSOA_def soa_names_out [of js d out] soa_names_out [of js d "answer_start p 1"]
    DnsResponse_MX_def AppendAnswerMX_def DnsResponse_SRV_def AppendAnswerSRV_def
    target_name_out [of js d _ _ _ out] target_name_out [of js d _ _ _ "answer_start p 1"]
  by (auto simp: begin_answer_ok WriteAnswerName_pointer split: sum.split option.split)

lemma CallResponseFunction_ok:
  assumes "t \<in> set record_types"
  shows "DnsResponse_CallResponseFunction js ttl t p d out = (Inr 0, out') \<longleftrightarrow>
    question_ok p \<and> DispatchAppendAnswer js ttl t (question_class p) d (answer_start p 1) [] = (Inr 0, out')"
  using assms unfolding record_types_def
  by (rule nine_cases)
     (auto simp: DnsResponse_CallResponseFunction_def DispatchAppendAnswer_def with_string_ok single_via_append
        single_via_append_numbered DnsResponse_NS_def DnsResponse_CNAME_def DnsResponse_PTR_def)

text \<open>What the record loop of the multi-answer builder appends.\<close>

definition record_image :: "'j json \<Rightarrow> int \<Rightarrow> u16 \<Rightarrow> 'j AnswerRecord \<Rightarrow> bytes option" where
  "record_image js ttl c r =
     (case record_rdata js (ans_Type r) (ans_Data r) of
        Some (ty, rd) \<Rightarrow> if name_ok (ans_Name r) then Some (name_image (ans_Name r) @ record_tail ttl ty c rd) else None
      | None \<Rightarrow> None)"

lemma DispatchAppendAnswer_image:
  "DispatchAppendAnswer js ttl (ans_Type r) c (ans_Data r) out (ans_Name r) = (Inr 0, out') \<longleftrightarrow>
   (\<exists>img. record_image js ttl c r = Some img \<and> out' = out @ img)"
  by (auto simp: DispatchAppendAnswer_ok record_image_def split: option.split)

lemma append_answers_ok:
  "append_answers js ttl c rs out = (Inr 0, out') \<longleftrightarrow>
   (\<forall>r\<in>set rs. record_image js ttl c r \<noteq> None) \<and>
   out' = out @ concat (map (\<lambda>r. the (record_image js ttl c r)) rs)"
proof (induction rs arbitrary: out)
  case (Cons r rs)
  show ?case
  proof (cases "record_image js ttl c r")
    case None
    then have "DispatchAppendAnswer js ttl (ans_Type r) c (ans_Data r) out (ans_Name r) \<noteq> (Inr 0, o')" for o'
      by (simp add: DispatchAppendAnswer_image)
    then show ?thesis using None by (auto split: prod.split sum.split)
  next
    case (Some img)
    then have "DispatchAppendAnswer js ttl (ans_Type r) c (ans_Data r) out (ans_Name r) = (Inr 0, out @ img)"
      by (simp add: DispatchAppendAnswer_image)
    then show ?thesis using Some Cons.IH by simp
  qed
qed auto

lemma MultiAnswer_ok:
  "DnsResponse_MultiAnswer js ttl p rs out = (Inr 0, out') \<longleftrightarrow>
   rs \<noteq> [] \<and> length rs \<le> 65535 \<and> question_ok p \<and>
   append_answers js ttl (question_class p) rs (answer_start p (of_nat (length rs))) = (Inr 0, out')"
  by (auto simp: DnsResponse_MultiAnswer_def WriteQuestion_ok WriteStandardHeader_image answer_start_def)


end
