(* ===== verification/Response_Parse.thy ===== *)
theory Response_Parse
  imports Dns_Response
begin

unbundle bit_operations_syntax

text \<open>
  What the builders of \<^verbatim>\<open>src/dns_response.cc\<close> write, read by the response parser of \<^verbatim>\<open>src/dns_packet.cc\<close>. The relation
  \<open>built\<close> says that a byte string is a given message with some owner names replaced by the pointer to the
  question; \<open>built_parses\<close> is the one proof about parsing, and each builder is shown to write such a string.
\<close>

section \<open>Lemmas: what is built parses back\<close>

text \<open>
  A record of a built message is its object and a flag: whether its owner name is the pointer to the question.
  \<open>built out p\<close>: the bytes \<open>out\<close> are the message \<open>p\<close> with some of its owner names compressed that way.
\<close>

definition item_image :: "bool \<times> DnsAnswer \<Rightarrow> bytes" where
  "item_image x = (if fst x then [0xC0, 0x0C] else labels_image (m_Name (snd x))) @ answer_tail (snd x)"

definition items_image :: "(bool \<times> DnsAnswer) list \<Rightarrow> bytes" where
  "items_image xs = concat (map item_image xs)"

definition built :: "bytes \<Rightarrow> DnsResponsePacket \<Rightarrow> bool" where
  "built out p \<longleftrightarrow>
     DnsHeader_Valid (resp_Header p) \<and> DnsHeader_IsResponse (resp_Header p) \<and>
     unat (DnsHeader_Qdcount (resp_Header p) False) = length (resp_Questions p) \<and>
     unat (DnsHeader_Ancount (resp_Header p) False) = length (resp_Answers p) \<and>
     unat (DnsHeader_Nscount (resp_Header p) False) = length (resp_Authority p) \<and>
     unat (DnsHeader_Arcount (resp_Header p) False) = length (resp_Additional p) \<and>
     (\<forall>q\<in>set (resp_Questions p). labels_wf (m_Qname q)) \<and>
     (\<exists>an ns ar. map snd an = resp_Answers p \<and> map snd ns = resp_Authority p \<and> map snd ar = resp_Additional p \<and>
        (\<forall>x\<in>set (an @ ns @ ar). answer_wf (snd x) \<and>
           (fst x \<longrightarrow> resp_Questions p \<noteq> [] \<and> m_Name (snd x) = m_Qname (hd (resp_Questions p)))) \<and>
        out = DnsHeader_image (resp_Header p) @ questions_image (resp_Questions p)
                @ items_image an @ items_image ns @ items_image ar)"

lemma pointer_at_question:
  assumes "length h = 12" and "labels_wf ls" and "length pre + 2 \<le> n" and "pre = h @ labels_image ls @ rest"
  shows "ParseDomainName (pre @ [0xC0, 0x0C] @ post) n (length pre) [] = (True, length pre + 2, ls)"
proof -
  let ?d = "pre @ [0xC0, 0x0C] @ post"
  have "?d = h @ labels_image ls @ (rest @ [0xC0, 0x0C] @ post)" by (simp add: assms(4))
  then have "name_at ?d n 12 ls (12 + length (labels_image ls)) 0"
    using name_at_image [of ls h n "rest @ [0xC0, 0x0C] @ post"] assms by simp
  moreover have "?d ! length pre = 0xC0" "?d ! (length pre + 1) = 0x0C" by (simp_all add: nth_append)
  moreover have "pointer_target 0xC0 0x0C = 12" by (simp add: pointer_target_def)
  ultimately have "name_at ?d n (length pre) ls (length pre + 2) (Suc 0)"
    using assms(3) by (intro name_at.pointer) simp_all
  then show ?thesis by (auto simp: ParseDomainName_iff DNS_MAX_POINTER_HOPS_def)
qed

lemma item_FromWire:
  assumes wf: "answer_wf (snd x)" and n: "length pre + length (item_image x) \<le> n"
    and c: "fst x \<Longrightarrow> \<exists>h rest. length h = 12 \<and> pre = h @ labels_image (m_Name (snd x)) @ rest"
  shows "DnsAnswer_FromWire (Some (pre @ item_image x @ post)) n (length pre) a0 =
    (True, length pre + length (item_image x), snd x)"
proof (cases "fst x")
  case False
  then show ?thesis
    using answer_FromWire_image [OF wf, of pre n post a0] n by (simp add: item_image_def answer_image_tail)
next
  case True
  with c obtain h rest where h: "length h = 12" "pre = h @ labels_image (m_Name (snd x)) @ rest" by blast
  have img: "item_image x = [0xC0, 0x0C] @ answer_tail (snd x)" using True by (simp add: item_image_def)
  have "ParseDomainName (pre @ [0xC0, 0x0C] @ answer_tail (snd x) @ post) n (length pre) [] =
      (True, length pre + 2, m_Name (snd x))"
    using wf n img by (intro pointer_at_question [OF h(1) _ _ h(2)]) (simp_all add: answer_wf_def)
  then show ?thesis
    using answer_FromWire_named [OF wf, of pre "[0xC0, 0x0C]" post n a0] n img by simp
qed

lemma items_FromWire:
  assumes "\<forall>x\<in>set xs. answer_wf (snd x) \<and>
      (fst x \<longrightarrow> (\<exists>h rest. length h = 12 \<and> pre = h @ labels_image (m_Name (snd x)) @ rest))"
    and "length pre + length (items_image xs) \<le> n"
  shows "parse_section DnsAnswer_FromWire DnsAnswer_default (Some (pre @ items_image xs @ post)) n (length xs)
      (length pre) acc = (True, length pre + length (items_image xs), acc @ map snd xs)"
  using assms
proof (induction xs arbitrary: pre acc)
  case (Cons x xs)
  have step: "DnsAnswer_FromWire (Some (pre @ item_image x @ items_image xs @ post)) n (length pre) DnsAnswer_default =
      (True, length pre + length (item_image x), snd x)"
    using Cons.prems by (intro item_FromWire) (auto simp: items_image_def)
  have "\<forall>y\<in>set xs. answer_wf (snd y) \<and>
      (fst y \<longrightarrow> (\<exists>h rest. length h = 12 \<and> pre @ item_image x = h @ labels_image (m_Name (snd y)) @ rest))"
    using Cons.prems(1) by fastforce
  from Cons.IH [OF this, of "acc @ [snd x]"] step show ?case
    using Cons.prems(2) by (simp add: items_image_def)
qed (simp add: items_image_def)

theorem built_parses:
  assumes "built out p"
  shows "DnsResponsePacket_FromWire (Some out) (length out) p0 = (True, p)"
proof -
  from assms obtain an ns ar where m: "map snd an = resp_Answers p" "map snd ns = resp_Authority p"
      "map snd ar = resp_Additional p"
    and wf: "\<forall>x\<in>set (an @ ns @ ar). answer_wf (snd x) \<and>
           (fst x \<longrightarrow> resp_Questions p \<noteq> [] \<and> m_Name (snd x) = m_Qname (hd (resp_Questions p)))"
    and out: "out = DnsHeader_image (resp_Header p) @ questions_image (resp_Questions p)
                @ items_image an @ items_image ns @ items_image ar"
    unfolding built_def by blast
  let ?h = "DnsHeader_image (resp_Header p)" and ?q = "questions_image (resp_Questions p)"
  let ?n = "length out"
  have lens: "length an = length (resp_Answers p)" "length ns = length (resp_Authority p)"
    "length ar = length (resp_Additional p)"
    using m by (metis length_map)+
  have c: "\<exists>h rest. length h = 12 \<and> ?h @ ?q @ more = h @ labels_image (m_Name a) @ rest"
    if "resp_Questions p \<noteq> []" "m_Name a = m_Qname (hd (resp_Questions p))" for a more
  proof -
    from that(1) obtain q qs where "resp_Questions p = q # qs" by (cases "resp_Questions p") auto
    with that(2) have "?h @ ?q @ more = ?h @ labels_image (m_Name a) @ (mem16 (m_Qtype q) @ mem16 (m_Qclass q)
        @ questions_image qs @ more)"
      by (simp add: questions_image_def question_image_def)
    then show ?thesis using length_header_image by blast
  qed
  have sect: "\<forall>x\<in>set xs. answer_wf (snd x) \<and>
      (fst x \<longrightarrow> (\<exists>h rest. length h = 12 \<and> ?h @ ?q @ more = h @ labels_image (m_Name (snd x)) @ rest))"
    if "xs = an \<or> xs = ns \<or> xs = ar" for xs more
  proof (intro ballI conjI impI)
    fix x assume "x \<in> set xs"
    with that have "x \<in> set (an @ ns @ ar)" by auto
    with wf have *: "answer_wf (snd x)"
      "fst x \<Longrightarrow> resp_Questions p \<noteq> [] \<and> m_Name (snd x) = m_Qname (hd (resp_Questions p))" by auto
    show "answer_wf (snd x)" by (rule *)
    assume "fst x"
    then show "\<exists>h rest. length h = 12 \<and> ?h @ ?q @ more = h @ labels_image (m_Name (snd x)) @ rest"
      using * c by blast
  qed
  have q: "parse_section DnsQuestion_FromWire DnsQuestion_default (Some out) ?n (length (resp_Questions p)) 12 [] =
      (True, 12 + length ?q, resp_Questions p)"
    using parse_questions [of "resp_Questions p" ?h ?n _ "items_image an @ items_image ns @ items_image ar" "[]"] assms
    by (simp add: out built_def)
  have a: "parse_section DnsAnswer_FromWire DnsAnswer_default (Some out) ?n (length (resp_Answers p)) (12 + length ?q) []
      = (True, 12 + length ?q + length (items_image an), resp_Answers p)"
    using items_FromWire [of an "?h @ ?q" ?n "items_image ns @ items_image ar" "[]"] sect [of an "[]"] m lens
    by (simp add: out)
  have b: "parse_section DnsAnswer_FromWire DnsAnswer_default (Some out) ?n (length (resp_Authority p))
      (12 + length ?q + length (items_image an)) []
      = (True, 12 + length ?q + length (items_image an) + length (items_image ns), resp_Authority p)"
    using items_FromWire [of ns "?h @ ?q @ items_image an" ?n "items_image ar" "[]"] sect [of ns "items_image an"] m lens
    by (simp add: out add.assoc)
  have d: "parse_section DnsAnswer_FromWire DnsAnswer_default (Some out) ?n (length (resp_Additional p))
      (12 + length ?q + length (items_image an) + length (items_image ns)) []
      = (True, 12 + length ?q + length (items_image an) + length (items_image ns) + length (items_image ar),
         resp_Additional p)"
    using items_FromWire [of ar "?h @ ?q @ items_image an @ items_image ns" ?n "[]" "[]"]
      sect [of ar "items_image an @ items_image ns"] m lens
    by (simp add: out add.assoc)
  have h: "DnsHeader_FromWire (Some out) 12 h0 = (True, resp_Header p)" for h0
    using assms FromWire_image [of 12 "resp_Header p" _ h0] by (simp add: out built_def)
  have "12 \<le> ?n" by (simp add: out)
  with assms q a b d h show ?thesis
    by (simp add: built_def DnsResponsePacket_FromWire_def DnsHeader_HeaderSize_def)
qed

section \<open>Lemmas: the messages the builders write\<close>

text \<open>The abstract header of a response: what every builder sets, and the fields that differ.\<close>

definition reply_view :: "DnsRequestPacket \<Rightarrow> bool \<Rightarrow> u8 \<Rightarrow> u16 \<Rightarrow> u16 \<Rightarrow> u16 \<Rightarrow> u16 \<Rightarrow> header_view" where
  "reply_view p aa rc qd an ns ar =
     \<lparr>v_id = DnsHeader_Id (req_Header p) False, v_qr = True, v_opcode = 0, v_aa = aa, v_tc = False,
      v_rd = DnsHeader_Rd (req_Header p) False, v_ra = True, v_z = False, v_ad = False, v_cd = False, v_rcode = rc,
      v_qdcount = qd, v_ancount = an, v_nscount = ns, v_arcount = ar\<rparr>"

lemma flags_of_response_flags:
  fixes p rc aa
  defines "w \<equiv> response_flags p rc aa"
  shows "bit w 15" "bit w 10 = aa" "\<not> bit w 9" "bit w 8 = DnsHeader_Rd (req_Header p) False" "bit w 7" "\<not> bit w 6"
    "\<not> bit w 5" "\<not> bit w 4" "ucast (w AND 0xF) = (ucast (rc AND 0xF) :: u8)"
    "ucast (drop_bit 11 w AND 0xF) = (0 :: u8)"
proof -
  have mask: "0x000F = (mask 4 :: u16)" "0x8000 = (push_bit 15 1 :: u16)" "0x0080 = (push_bit 7 1 :: u16)"
    "0x0100 = (push_bit 8 1 :: u16)" "0x0400 = (push_bit 10 1 :: u16)"
    by (simp_all add: mask_eq_exp_minus_1)
  show "bit w 15" "bit w 10 = aa" "\<not> bit w 9" "bit w 8 = DnsHeader_Rd (req_Header p) False" "bit w 7" "\<not> bit w 6"
    "\<not> bit w 5" "\<not> bit w 4"
    unfolding w_def response_flags_def mask Let_def by (auto simp: bit_simps)
  have low: "\<not> bit v n" if "take_bit 4 v = 0" "n < 4" for v :: u16 and n
    using that by (metis bit_take_bit_iff bit_0_eq bot_apply bot_bool_def)
  have "\<not> bit (0x8000 :: u16) n" "\<not> bit (0x80 :: u16) n" "\<not> bit (0x100 :: u16) n" "\<not> bit (0x400 :: u16) n"
    if "n < 4" for n by (rule low, simp, rule that)+
  then show "ucast (w AND 0xF) = (ucast (rc AND 0xF) :: u8)"
    unfolding w_def response_flags_def mask(1) Let_def by (intro bit_word_eqI) (auto simp: bit_simps)
  have high: "\<not> bit v (11 + n)" if "take_bit 4 (drop_bit 11 v) = 0" "n < 4" for v :: u16 and n
    using low [OF that] by (simp add: bit_drop_bit_eq)
  have "\<not> bit (0x8000 :: u16) (11 + n)" "\<not> bit (0x80 :: u16) (11 + n)" "\<not> bit (0x100 :: u16) (11 + n)"
    "\<not> bit (0x400 :: u16) (11 + n)" if "n < 4" for n by (rule high, simp, rule that)+
  then show "ucast (drop_bit 11 w AND 0xF) = (0 :: u8)"
    unfolding w_def response_flags_def mask(1) Let_def by (intro bit_word_eqI) (auto simp: bit_simps)
qed

lemma standard_header_view:
  "header_view (standard_header p rc an ns ar aa) = reply_view p aa (ucast (rc AND 0xF)) 1 an ns ar"
  by (simp add: header_view_def standard_header_def reply_view_def DnsHeader_flag_getters DnsHeader_field_getters
      flag_bit flags_of_response_flags [unfolded DnsHeader_Rd_def DnsHeader_Flags_def])

lemma reply_header_ok:
  assumes "header_view h = reply_view p aa rc qd an ns ar"
  shows "DnsHeader_Valid h" "DnsHeader_IsResponse h" "DnsHeader_Qdcount h False = qd" "DnsHeader_Ancount h False = an"
    "DnsHeader_Nscount h False = ns" "DnsHeader_Arcount h False = ar"
  using assms by (simp_all add: header_view_def reply_view_def DnsHeader_Valid_def DnsHeader_IsResponse_def)

lemma question_ok_wf: "question_ok p \<Longrightarrow> labels_wf (m_Qname (hd (req_Questions p)))"
  by (simp add: question_ok_def labels_ok_def)

lemma questions_image_one: "questions_image [q] = question_image q"
  by (simp add: questions_image_def)

text \<open>A reply to \<open>p\<close>: the header, the question of \<open>p\<close>, and sections of items.\<close>

definition reply_packet ::
  "DnsRequestPacket \<Rightarrow> DnsHeader \<Rightarrow> DnsAnswer list \<Rightarrow> DnsAnswer list \<Rightarrow> DnsAnswer list \<Rightarrow> DnsResponsePacket" where
  "reply_packet p h an ns ar =
     \<lparr>resp_Header = h, resp_Questions = [hd (req_Questions p)], resp_Answers = an, resp_Authority = ns,
      resp_Additional = ar\<rparr>"

lemma built_reply:
  assumes "question_ok p"
    and "header_view h = reply_view p aa rc 1 (of_nat (length an)) (of_nat (length ns)) (of_nat (length ar))"
    and "length an \<le> 65535" "length ns \<le> 65535" "length ar \<le> 65535"
    and "\<forall>x\<in>set (an @ ns @ ar). answer_wf (snd x) \<and> (fst x \<longrightarrow> m_Name (snd x) = m_Qname (hd (req_Questions p)))"
    and "out = DnsHeader_image h @ question_image (hd (req_Questions p)) @ items_image an @ items_image ns @ items_image ar"
  shows "built out (reply_packet p h (map snd an) (map snd ns) (map snd ar))"
  using assms reply_header_ok [OF assms(2)] question_ok_wf [OF assms(1)]
  unfolding built_def reply_packet_def
  by (simp add: questions_image_one unat_of_nat_u16) blast

lemma record_rdata_wf:
  assumes "record_rdata js t d = Some (ty, rd)"
  shows "rdata_canonical ty rd \<and> length rd \<le> 65535"
proof -
  have t: "t \<in> set record_types" by (rule record_rdata_known [OF assms])
  have wf: "labels_wf (domain_parts s) \<and> length (labels_image (domain_parts s)) \<le> 255" if "name_ok s" for s
    using that by (simp add: name_ok_def)
  have field: "labels_wf ls \<and> length (labels_image ls) \<le> 255" if "name_field js d f = Some ls" for f ls
    using that wf by (auto simp: name_field_Some)
  have numbered: "rdata_canonical ty' (ns @ labels_image ls) \<and> length (ns @ labels_image ls) \<le> 65535"
    if "numbers16 js d fs = Some ns" "name_field js d f = Some ls" "ty' = 15 \<and> length fs = 1 \<or> ty' = 33 \<and> length fs = 3"
    for ty' ns ls fs f
    using numbers16_length [OF that(1)] field [OF that(2)] that(3)
    by (force simp: rdata_canonical_def)
  have name: "rdata_canonical ty' (labels_image (domain_parts s)) \<and> length (labels_image (domain_parts s)) \<le> 65535"
    if "name_ok s" "ty' = 2 \<or> ty' = 5 \<or> ty' = 12" for s ty'
    using wf [OF that(1)] that(2) by (auto simp: rdata_canonical_def)
  have addr: "rdata_canonical 1 x" "rdata_canonical 28 x" for x by (simp_all add: rdata_canonical_def)
  from t show ?thesis unfolding record_types_def
  proof (rule nine_cases)
    assume "t = ''SOA''"
    with assms obtain ms rs ns where r: "name_field js d ''primary'' = Some ms" "name_field js d ''admin'' = Some rs"
      "numbers32 js d soa_numbers = Some ns" "ty = 6" "rd = labels_image ms @ labels_image rs @ ns"
      by (auto simp: record_rdata_def split: option.splits if_splits)
    moreover have "length ns = 20" using numbers32_length [OF r(3)] by (simp add: soa_numbers_def)
    moreover have "rdata_canonical 6 (labels_image ms @ labels_image rs @ ns)"
    proof -
      have "\<exists>ms' rs' tail. labels_wf ms' \<and> labels_wf rs' \<and> length tail = 20 \<and>
          labels_image ms @ labels_image rs @ ns = labels_image ms' @ labels_image rs' @ tail"
        by (rule exI [of _ ms], rule exI [of _ rs], rule exI [of _ ns])
           (use field [OF r(1)] field [OF r(2)] \<open>length ns = 20\<close> in simp)
      then show ?thesis unfolding rdata_canonical_def by simp
    qed
    ultimately show ?thesis using field [OF r(1)] field [OF r(2)] by simp
  next
    assume "t = ''TXT''"
    with assms show ?thesis by (auto simp: record_rdata_def rdata_canonical_def Let_def split: if_splits)
  next
    assume "t = ''MX''"
    with assms show ?thesis using numbered [of "[''preference'']"] by (auto simp: record_rdata_numbered)
  next
    assume "t = ''SRV''"
    with assms show ?thesis
      using numbered [of "[''priority'', ''weight'', ''port'']"] by (auto simp: record_rdata_numbered)
  next
    assume "t = ''A''"
    with assms show ?thesis using addr by (auto simp: record_rdata_plain)
  next
    assume "t = ''AAAA''"
    with assms show ?thesis using addr by (auto simp: record_rdata_plain)
  next
    assume "t = ''CNAME''"
    with assms show ?thesis using name by (auto simp: record_rdata_plain)
  next
    assume "t = ''NS''"
    with assms show ?thesis using name by (auto simp: record_rdata_plain)
  next
    assume "t = ''PTR''"
    with assms show ?thesis using name by (auto simp: record_rdata_plain)
  qed
qed

lemma new_record_wf:
  "labels_wf ls \<Longrightarrow> rdata_canonical ty rd \<Longrightarrow> length rd \<le> 65535 \<Longrightarrow> answer_wf (new_record ls ty c ttl rd)"
  by (simp add: answer_wf_def new_record_fields rdlength_ok_def)

lemma new_record_name [simp]: "m_Name (new_record ls t c ttl rd) = ls"
  by (simp add: new_record_fields)

text \<open>The record an \<^verbatim>\<open>AnswerRecord\<close> becomes.\<close>

definition answer_for :: "'j json \<Rightarrow> int \<Rightarrow> DnsRequestPacket \<Rightarrow> 'j AnswerRecord \<Rightarrow> DnsAnswer" where
  "answer_for js ttl p r =
     (case record_rdata js (ans_Type r) (ans_Data r) of
        Some (ty, rd) \<Rightarrow>
          new_record (if ans_Name r = [] then m_Qname (hd (req_Questions p)) else domain_parts (ans_Name r))
            ty (question_class p) ttl rd
      | None \<Rightarrow> DnsAnswer_default)"

lemma record_image_item:
  "record_image js ttl (question_class p) r = Some img \<Longrightarrow>
   img = item_image (ans_Name r = [], answer_for js ttl p r) \<and> name_ok (ans_Name r) \<and>
   record_rdata js (ans_Type r) (ans_Data r) \<noteq> None"
  by (auto simp: record_image_def answer_for_def item_image_def name_image_def record_tail_eq
      split: option.splits if_splits prod.splits)

lemma answer_for_wf:
  assumes "record_rdata js (ans_Type r) (ans_Data r) \<noteq> None" and "name_ok (ans_Name r)" and "question_ok p"
  shows "answer_wf (answer_for js ttl p r) \<and> (ans_Name r = [] \<longrightarrow> m_Name (answer_for js ttl p r) = m_Qname (hd (req_Questions p)))"
proof -
  from assms(1) obtain ty rd where rd: "record_rdata js (ans_Type r) (ans_Data r) = Some (ty, rd)" by auto
  have "labels_wf (if ans_Name r = [] then m_Qname (hd (req_Questions p)) else domain_parts (ans_Name r))"
    using assms question_ok_wf by (auto simp: name_ok_def)
  with record_rdata_wf [OF rd] show ?thesis
    by (simp add: answer_for_def rd new_record_wf)
qed

lemma MultiAnswer_built:
  assumes "DnsResponse_MultiAnswer js ttl p rs out0 = (Inr 0, out)"
  shows "built out (reply_packet p (standard_header p 0 (of_nat (length rs)) 0 0 True) (map (answer_for js ttl p) rs) [] [])"
proof -
  let ?none = "[] :: (bool \<times> DnsAnswer) list"
  let ?items = "map (\<lambda>r. (ans_Name r = [], answer_for js ttl p r)) rs"
  from assms have ok: "rs \<noteq> []" "length rs \<le> 65535" "question_ok p"
    "\<forall>r\<in>set rs. record_image js ttl (question_class p) r \<noteq> None"
    "out = answer_start p (of_nat (length rs)) @ concat (map (\<lambda>r. the (record_image js ttl (question_class p) r)) rs)"
    by (auto simp: MultiAnswer_ok append_answers_ok)
  have img: "the (record_image js ttl (question_class p) r) = item_image (ans_Name r = [], answer_for js ttl p r)"
    "answer_wf (answer_for js ttl p r)"
    "ans_Name r = [] \<longrightarrow> m_Name (answer_for js ttl p r) = m_Qname (hd (req_Questions p))" if "r \<in> set rs" for r
  proof -
    from ok(4) that obtain i where i: "record_image js ttl (question_class p) r = Some i" by auto
    from record_image_item [OF i] answer_for_wf [of js r p ttl] ok(3) i
    show "the (record_image js ttl (question_class p) r) = item_image (ans_Name r = [], answer_for js ttl p r)"
      "answer_wf (answer_for js ttl p r)"
      "ans_Name r = [] \<longrightarrow> m_Name (answer_for js ttl p r) = m_Qname (hd (req_Questions p))" by simp_all
  qed
  have "concat (map (\<lambda>r. the (record_image js ttl (question_class p) r)) rs) = items_image ?items"
    using img(1) by (simp add: items_image_def comp_def cong: map_cong)
  then have out: "out = DnsHeader_image (standard_header p 0 (of_nat (length rs)) 0 0 True)
      @ question_image (hd (req_Questions p)) @ items_image ?items @ items_image [] @ items_image []"
    using ok(5) by (simp add: answer_start_def items_image_def)
  have "built out (reply_packet p (standard_header p 0 (of_nat (length rs)) 0 0 True) (map snd ?items) (map snd ?none) (map snd ?none))"
    using img ok(2) by (intro built_reply [OF ok(3) _ _ _ _ _ out]) (auto simp: standard_header_view)
  then show ?thesis by (simp add: comp_def)
qed

lemma bare_response_built:
  assumes "question_ok p"
  shows "\<exists>out. bare_response p rc = (0, out) \<and> built out (reply_packet p (standard_header p rc 0 0 0 False) [] [] [])"
proof -
  let ?none = "[] :: (bool \<times> DnsAnswer) list"
  let ?out = "DnsHeader_image (standard_header p rc 0 0 0 False) @ question_image (hd (req_Questions p))"
  have "built ?out (reply_packet p (standard_header p rc 0 0 0 False) (map snd ?none) (map snd ?none) (map snd ?none))"
    using built_reply [OF assms, of "standard_header p rc 0 0 0 False" False "ucast (rc AND 0xF)" ?none ?none ?none ?out]
    by (simp add: standard_header_view items_image_def)
  moreover have "bare_response p rc = (0, ?out)"
    using assms by (simp add: bare_response_def WriteQuestion_ok WriteStandardHeader_image)
  ultimately show ?thesis by simp
qed

section \<open>Properties\<close>

text \<open>A query for \<^verbatim>\<open>a.b\<close> and two records for it: a CNAME and the address of its target.\<close>

definition sample_query :: DnsRequestPacket where
  "sample_query = DnsRequestPacket_MakeAQuery 7 ''a.b'' True"

definition sample_records :: "sample_value AnswerRecord list" where
  "sample_records =
     [\<lparr>ans_Type = ''CNAME'', ans_Data = S_String ''c.d'', ans_Name = []\<rparr>,
      \<lparr>ans_Type = ''A'', ans_Data = S_String ''1234'', ans_Name = ''c.d''\<rparr>]"

definition sample_message :: bytes where
  "sample_message = snd (DnsResponse_MultiAnswer sample_json 300 sample_query sample_records [])"

lemma sample_question_ok: "question_ok sample_query"
  by code_simp

lemma sample_multi: "DnsResponse_MultiAnswer sample_json 300 sample_query sample_records [] = (Inr 0, sample_message)"
proof -
  have "name_ok ''c.d''" by code_simp
  then have "\<exists>out. DnsResponse_MultiAnswer sample_json 300 sample_query sample_records [] = (Inr 0, out)"
    using sample_question_ok
    by (simp add: MultiAnswer_ok append_answers_ok record_image_def record_rdata_def sample_records_def sample_json_def
        name_ok_def [of "[]"] labels_wf_def del: append_answers.simps)
  then show ?thesis unfolding sample_message_def by auto
qed

text \<open>C14: what the multi-answer builder writes is a message that the response parser reads back as intended: the
  identifier and RD bit of the query, AA and RA set, NOERROR, the question of the query, and in order one answer
  per record, owned by the question's name (through a compression pointer) or by the given name, with the type
  code, the class of the question, the configured TTL and the RDATA that the zone data describes.\<close>

theorem MultiAnswer_parses:
  assumes "DnsResponse_MultiAnswer js ttl p rs out0 = (Inr 0, out)"
  shows "\<exists>r. DnsResponsePacket_FromWire (Some out) (length out) r0 = (True, r) \<and>
    header_view (resp_Header r) = reply_view p True 0 1 (of_nat (length rs)) 0 0 \<and>
    resp_Questions r = [hd (req_Questions p)] \<and> resp_Authority r = [] \<and> resp_Additional r = [] \<and>
    list_all2 (\<lambda>x a. \<exists>ty rd. record_rdata js (ans_Type x) (ans_Data x) = Some (ty, rd) \<and>
        a = new_record (if ans_Name x = [] then m_Qname (hd (req_Questions p)) else domain_parts (ans_Name x))
              ty (question_class p) ttl rd) rs (resp_Answers r)"
proof -
  from assms have "\<forall>r\<in>set rs. record_image js ttl (question_class p) r \<noteq> None"
    by (auto simp: MultiAnswer_ok append_answers_ok)
  then have "record_rdata js (ans_Type x) (ans_Data x) \<noteq> None" if "x \<in> set rs" for x
    using that record_image_item by fastforce
  then have "list_all2 (\<lambda>x a. \<exists>ty rd. record_rdata js (ans_Type x) (ans_Data x) = Some (ty, rd) \<and>
        a = new_record (if ans_Name x = [] then m_Qname (hd (req_Questions p)) else domain_parts (ans_Name x))
              ty (question_class p) ttl rd) rs (map (answer_for js ttl p) rs)"
    unfolding list.rel_map by (intro list.rel_refl_strong) (auto simp: answer_for_def split: option.splits)
  then show ?thesis
    using built_parses [OF MultiAnswer_built [OF assms], of r0]
    by (intro exI [of _ "reply_packet p (standard_header p 0 (of_nat (length rs)) 0 0 True) (map (answer_for js ttl p) rs) [] []"])
       (simp add: reply_packet_def standard_header_view)
qed

theorem MultiAnswer_parses_witness:
  "\<exists>r. DnsResponsePacket_FromWire (Some sample_message) (length sample_message) DnsResponsePacket_default = (True, r) \<and>
    length (resp_Answers r) = 2 \<and> resp_Questions r = [hd (req_Questions sample_query)]"
  using MultiAnswer_parses [OF sample_multi, of DnsResponsePacket_default]
  by (auto simp: sample_records_def list_all2_Cons1)

text \<open>The multi-answer builder succeeds exactly when there is at least one record and at most 65535, the
  question's name fits the 255 octets, every record's data has the shape its type asks for, and every owner
  name can be encoded.\<close>

theorem MultiAnswer_accepts:
  "(\<exists>out. DnsResponse_MultiAnswer js ttl p rs out0 = (Inr 0, out)) \<longleftrightarrow>
   rs \<noteq> [] \<and> length rs \<le> 65535 \<and> question_ok p \<and>
   list_all (\<lambda>r. record_rdata js (ans_Type r) (ans_Data r) \<noteq> None \<and> name_ok (ans_Name r)) rs"
proof -
  have "record_image js ttl c r \<noteq> None \<longleftrightarrow> record_rdata js (ans_Type r) (ans_Data r) \<noteq> None \<and> name_ok (ans_Name r)"
    for c r by (simp add: record_image_def split: option.split)
  then show ?thesis
    by (simp add: MultiAnswer_ok append_answers_ok list_all_iff)
qed

text \<open>C39: for every record type, the builder for a single record and the multi-answer builder given that record
  alone succeed on the same data and write the same bytes.\<close>

theorem single_answer_equals_multi:
  assumes "t \<in> set record_types"
  shows "DnsResponse_CallResponseFunction js ttl t p d out0 = (Inr 0, out) \<longleftrightarrow>
    DnsResponse_MultiAnswer js ttl p [\<lparr>ans_Type = t, ans_Data = d, ans_Name = []\<rparr>] out1 = (Inr 0, out)"
  by (auto simp: CallResponseFunction_ok [OF assms] MultiAnswer_ok append_answers_ok DispatchAppendAnswer_ok
      record_image_def simp del: append_answers.simps split: option.splits)

theorem single_answer_equals_multi_witness:
  "\<forall>out. DnsResponse_CallResponseFunction sample_json 300 ''A'' sample_query (S_String ''1234'') [] = (Inr 0, out) \<longleftrightarrow>
    DnsResponse_MultiAnswer sample_json 300 sample_query
      [\<lparr>ans_Type = ''A'', ans_Data = S_String ''1234'', ans_Name = []\<rparr>] [] = (Inr 0, out)"
  by (intro allI, rule single_answer_equals_multi) (simp add: record_types_def)

text \<open>A well-formed query gets error responses that parse: NOTIMP, SERVFAIL and REFUSED echo the identifier,
  the RD bit and the question, carry their code, and hold no records.\<close>

theorem error_responses_parse:
  assumes "question_ok p"
  shows "list_all (\<lambda>(res, rc). fst res = 0 \<and>
      (\<exists>r. DnsResponsePacket_FromWire (Some (snd res)) (length (snd res)) r0 = (True, r) \<and>
         header_view (resp_Header r) = reply_view p False rc 1 0 0 0 \<and> resp_Questions r = [hd (req_Questions p)] \<and>
         response_records r = []))
    [(DnsResponse_NOTIMP p, 4), (DnsResponse_SERVFAIL p, 2), (DnsResponse_REFUSED p, 5)]"
proof -
  have "fst (bare_response p rc) = 0 \<and>
      (\<exists>r. DnsResponsePacket_FromWire (Some (snd (bare_response p rc))) (length (snd (bare_response p rc))) r0 = (True, r) \<and>
         header_view (resp_Header r) = reply_view p False (ucast (rc AND 0xF)) 1 0 0 0 \<and>
         resp_Questions r = [hd (req_Questions p)] \<and> response_records r = [])" for rc
  proof -
    obtain out where o: "bare_response p rc = (0, out)"
      and b: "built out (reply_packet p (standard_header p rc 0 0 0 False) [] [] [])"
      using bare_response_built [OF assms] by blast
    show ?thesis
      using built_parses [OF b, of r0]
      by (simp add: o) (simp add: reply_packet_def standard_header_view response_records_def)
  qed
  from this [of 4] this [of 2] this [of 5] show ?thesis
    by (simp add: DnsResponse_NOTIMP_def DnsResponse_SERVFAIL_def DnsResponse_REFUSED_def)
qed

theorem error_responses_parse_witness:
  "fst (DnsResponse_SERVFAIL sample_query) = 0"
  using error_responses_parse [OF sample_question_ok, of DnsResponsePacket_default] by simp

text \<open>When the question cannot be encoded, because its name is longer than 255 octets, these builders fail and
  leave a bare header that announces one question and holds none, which no parser accepts.\<close>

theorem error_response_without_question:
  assumes "\<not> question_ok p"
  shows "list_all (\<lambda>res. fst res = -1 \<and> length (snd res) = 12 \<and>
      fst (DnsResponsePacket_FromWire (Some (snd res)) (length (snd res)) r0) = False)
    [DnsResponse_NOTIMP p, DnsResponse_SERVFAIL p, DnsResponse_REFUSED p, DnsResponse_NXDOMAIN ttl p zone,
     DnsResponse_BADVERS p edns]"
proof -
  have bad: "fst (DnsResponsePacket_FromWire (Some (DnsHeader_image h)) 12 r0) = False"
    if v: "header_view h = reply_view p aa rc 1 an ns ar" for h aa rc an ns ar
  proof (rule ccontr)
    assume "fst (DnsResponsePacket_FromWire (Some (DnsHeader_image h)) 12 r0) \<noteq> False"
    then obtain r where r: "DnsResponsePacket_FromWire (Some (DnsHeader_image h)) 12 r0 = (True, r)"
      by (cases "DnsResponsePacket_FromWire (Some (DnsHeader_image h)) 12 r0") auto
    have "DnsHeader_FromWire (Some (DnsHeader_image h)) 12 h0 = (DnsHeader_Valid h, h)" for h0
      using FromWire_image [of 12 h "[]" h0] by simp
    with r have "resp_Header r = h"
      by (auto simp: DnsResponsePacket_FromWire_def DnsHeader_HeaderSize_def Let_def split: if_splits prod.splits)
    with r reply_header_ok(3) [OF v] obtain o1 qs where
      "parse_section DnsQuestion_FromWire DnsQuestion_default (Some (DnsHeader_image h)) 12 (unat (1 :: u16)) 12 [] =
        (True, o1, qs)"
      by (metis response_FromWire_steps)
    from question_codec.parse_section_bounds [OF this] show False by auto
  qed
  show ?thesis
    using assms
    by (simp add: DnsResponse_NOTIMP_def DnsResponse_SERVFAIL_def DnsResponse_REFUSED_def DnsResponse_NXDOMAIN_def
        DnsResponse_BADVERS_def bare_response_def WriteQuestion_ok WriteStandardHeader_image
        bad [OF standard_header_view])
qed

text \<open>A query whose name has four labels of 63 characters: 257 octets.\<close>

definition long_query :: DnsRequestPacket where
  "long_query = sample_query\<lparr>req_Questions :=
     [DnsQuestion_ctor_labels (replicate 4 (replicate 63 CHR ''a'')) 1 1]\<rparr>"

lemma long_question: "\<not> question_ok long_query"
  by (simp add: long_query_def question_ok_def labels_ok_def DnsQuestion_ctor_labels_def DnsQuestion_SetQtype_def
      DnsQuestion_SetQclass_def DnsQuestion_SetQname_def DnsQuestion_default_def length_labels_image labels_WireSize_def
      numeral_eq_Suc)

theorem error_response_without_question_witness:
  "fst (DnsResponse_SERVFAIL long_query) = -1 \<and> length (snd (DnsResponse_SERVFAIL long_query)) = 12"
  using error_response_without_question [OF long_question, of DnsResponsePacket_default 300 "[]" None] by simp

text \<open>The FORMERR builder never fails: with an encodable question it echoes it, otherwise it announces none; in
  both cases the result parses, with RCODE 1 and no records.\<close>

theorem FORMERR_always_parses:
  "let res = DnsResponse_FORMERR p;
       with_question = DnsHeader_Qdcount (req_Header p) False > 0 \<and> question_ok p
   in fst res = 0 \<and>
      (\<exists>r. DnsResponsePacket_FromWire (Some (snd res)) (length (snd res)) r0 = (True, r) \<and>
         header_view (resp_Header r) = reply_view p False 1 (if with_question then 1 else 0) 0 0 0 \<and>
         resp_Questions r = (if with_question then [hd (req_Questions p)] else []) \<and> response_records r = [])"
proof -
  let ?w = "DnsHeader_Qdcount (req_Header p) False > 0 \<and> question_ok p"
  let ?h = "standard_header p 1 0 0 0 False"
  let ?hz = "?h\<lparr>m_Qdcount := HostToNetwork 0\<rparr>"
  have set0: "Response_WriteUint16 (DnsHeader_image h) 4 v = DnsHeader_image (h\<lparr>m_Qdcount := HostToNetwork v\<rparr>)"
    for h v by (simp add: Response_WriteUint16_eq DnsHeader_image_def overwrite_def mem16_def)
  have h1: "?h\<lparr>m_Qdcount := HostToNetwork 1\<rparr> = ?h" by (simp add: standard_header_def)
  have view0: "header_view ?hz = reply_view p False 1 0 0 0 0"
  proof -
    have "?hz = DnsHeader_SetQdcount 0 False ?h" by (simp add: DnsHeader_SetQdcount_def)
    then show ?thesis by (simp add: standard_header_view) (simp add: reply_view_def)
  qed
  show ?thesis
  proof (cases ?w)
    case True
    then have res: "DnsResponse_FORMERR p = bare_response p 1"
      by (simp add: DnsResponse_FORMERR_def bare_response_def WriteQuestion_ok WriteStandardHeader_image set0 h1
          question_ok_def)
    obtain out where o: "bare_response p 1 = (0, out)" and b: "built out (reply_packet p ?h [] [] [])"
      using bare_response_built [of p 1] True by blast
    show ?thesis
      using True built_parses [OF b, of r0]
      by (simp add: res o) (simp add: reply_packet_def standard_header_view response_records_def)
  next
    case False
    then have res: "DnsResponse_FORMERR p = (0, DnsHeader_image ?hz)"
      by (auto simp: DnsResponse_FORMERR_def WriteQuestion_ok WriteStandardHeader_image set0 Let_def question_ok_def)
    have "built (DnsHeader_image ?hz)
        \<lparr>resp_Header = ?hz, resp_Questions = [], resp_Answers = [], resp_Authority = [], resp_Additional = []\<rparr>"
      using reply_header_ok [OF view0] by (simp add: built_def questions_image_def items_image_def)
    from built_parses [OF this, of r0] False view0 show ?thesis
      by (auto simp: res response_records_def)
  qed
qed

section \<open>Negative answers\<close>

lemma single_item_wf: "answer_wf a \<Longrightarrow> items_image [(False, a)] = answer_image a"
  by (simp add: items_image_def item_image_def answer_image_tail)

text \<open>The SOA record of a blocked zone.\<close>

definition zone_soa_rdata :: "int \<Rightarrow> string \<Rightarrow> bytes" where
  "zone_soa_rdata ttl zone =
     labels_image (domain_parts (''ns.'' @ zone @ ''.'')) @ labels_image (domain_parts (''hostmaster.'' @ zone @ ''.''))
     @ concat (map (\<lambda>n. mem32 (HostToNetwork n)) [1, 86400, 3600, 604800, of_int ttl])"

definition zone_encodable :: "string \<Rightarrow> bool" where
  "zone_encodable zone \<longleftrightarrow> zone \<noteq> [] \<and> name_ok zone \<and> name_ok (''ns.'' @ zone @ ''.'') \<and> name_ok (''hostmaster.'' @ zone @ ''.'')"

lemma nxdomain_soa_eq:
  assumes "name_ok zone" "name_ok (''ns.'' @ zone @ ''.'')" "name_ok (''hostmaster.'' @ zone @ ''.'')"
  shows "nxdomain_soa ttl c zone out =
    out @ labels_image (domain_parts zone) @ record_tail ttl 6 c (zone_soa_rdata ttl zone)"
proof -
  have len: "length (zone_soa_rdata ttl zone) = length (labels_image (domain_parts (''ns.'' @ zone @ ''.''))) +
      length (labels_image (domain_parts (''hostmaster.'' @ zone @ ''.''))) + 20"
    by (simp add: zone_soa_rdata_def)
  show ?thesis
    using assms(1) name_ok_length [OF assms(2)] name_ok_length [OF assms(3)]
      append_fixed_tail(1) [of ttl "out @ labels_image (domain_parts zone)" 6 c "zone_soa_rdata ttl zone"]
    unfolding len
    using assms(2,3) by (simp add: nxdomain_soa_def DomainToQuestion_eq zone_soa_rdata_def AppendUint32_def)
qed

lemma zone_soa_wf:
  assumes "zone_encodable zone"
  shows "answer_wf (new_record (domain_parts zone) 6 c ttl (zone_soa_rdata ttl zone))"
proof -
  let ?m = "domain_parts (''ns.'' @ zone @ ''.'')" and ?r = "domain_parts (''hostmaster.'' @ zone @ ''.'')"
  let ?t = "concat (map (\<lambda>n. mem32 (HostToNetwork n)) [1, 86400, 3600, 604800, of_int ttl])"
  have wf: "labels_wf (domain_parts zone)" "labels_wf ?m" "labels_wf ?r"
    "length (labels_image ?m) \<le> 255" "length (labels_image ?r) \<le> 255"
    using assms by (simp_all only: zone_encodable_def name_ok_def)
  have "\<exists>ms rs tail. labels_wf ms \<and> labels_wf rs \<and> length tail = 20 \<and>
      labels_image ?m @ labels_image ?r @ ?t = labels_image ms @ labels_image rs @ tail"
    by (rule exI [of _ ?m], rule exI [of _ ?r], rule exI [of _ ?t]) (use wf in simp)
  then have "rdata_canonical 6 (zone_soa_rdata ttl zone)" unfolding rdata_canonical_def zone_soa_rdata_def by simp
  moreover have "length (zone_soa_rdata ttl zone) \<le> 65535" using wf(4,5) by (simp add: zone_soa_rdata_def)
  ultimately show ?thesis by (rule new_record_wf [OF wf(1)])
qed

lemma NXDOMAIN_built:
  assumes "question_ok p"
  shows "\<exists>out r. DnsResponse_NXDOMAIN ttl p zone = (0, out) \<and> built out r \<and>
    header_view (resp_Header r) = reply_view p True 3 1 0 (if zone_encodable zone then 1 else 0) 0 \<and>
    resp_Questions r = [hd (req_Questions p)] \<and> resp_Answers r = [] \<and> resp_Additional r = [] \<and>
    resp_Authority r =
      (if zone_encodable zone
       then [new_record (domain_parts zone) 6 (question_class p) ttl (zone_soa_rdata ttl zone)] else [])"
proof (cases "zone_encodable zone")
  case True
  let ?h = "standard_header p 3 0 1 0 True"
  let ?a = "new_record (domain_parts zone) 6 (question_class p) ttl (zone_soa_rdata ttl zone)"
  let ?out = "DnsHeader_image ?h @ question_image (hd (req_Questions p)) @ items_image [] @ items_image [(False, ?a)] @ items_image []"
  have b: "built ?out (reply_packet p ?h (map snd ([] :: (bool \<times> DnsAnswer) list)) (map snd [(False, ?a)]) (map snd ([] :: (bool \<times> DnsAnswer) list)))"
    using zone_soa_wf [OF True] by (intro built_reply [OF assms]) (simp_all add: standard_header_view)
  have nx: "DnsResponse_NXDOMAIN ttl p zone = (0, ?out)"
    using True assms
    by (simp add: DnsResponse_NXDOMAIN_def WriteQuestion_ok WriteStandardHeader_image zone_encodable_def nxdomain_soa_eq
        items_image_def item_image_def record_tail_eq question_ok_def)
  with b nx show ?thesis using True
    by (intro exI [of _ ?out] exI [of _ "reply_packet p ?h [] [?a] []"]) (simp add: reply_packet_def standard_header_view)
next
  case False
  let ?h = "standard_header p 3 0 0 0 True"
  let ?out = "DnsHeader_image ?h @ question_image (hd (req_Questions p))"
  let ?none = "[] :: (bool \<times> DnsAnswer) list"
  have set0: "Response_WriteUint16 (DnsHeader_image h @ x) 8 v = DnsHeader_image (h\<lparr>m_Nscount := HostToNetwork v\<rparr>) @ x"
    for h v x by (simp add: Response_WriteUint16_eq DnsHeader_image_def overwrite_def mem16_def)
  have b: "built ?out (reply_packet p ?h (map snd ?none) (map snd ?none) (map snd ?none))"
    using built_reply [OF assms, of ?h True 3 ?none ?none ?none ?out] by (simp add: standard_header_view items_image_def)
  have nx: "DnsResponse_NXDOMAIN ttl p zone = (0, ?out)"
  proof (cases "zone = []")
    case True
    then show ?thesis using assms by (simp add: DnsResponse_NXDOMAIN_def WriteQuestion_ok WriteStandardHeader_image)
  next
    case nonempty: False
    with False have "nxdomain_soa ttl c zone out = Response_WriteUint16 out 8 0" for c out
      by (auto simp: nxdomain_soa_def DomainToQuestion_eq zone_encodable_def)
    then show ?thesis
      using nonempty assms
      by (simp add: DnsResponse_NXDOMAIN_def WriteQuestion_ok WriteStandardHeader_image set0 question_ok_def)
         (simp add: standard_header_def)
  qed
  with b nx show ?thesis using False
    by (intro exI [of _ ?out] exI [of _ "reply_packet p ?h [] [] []"]) (simp add: reply_packet_def standard_header_view)
qed

text \<open>A blocked zone gets a negative answer that parses: NXDOMAIN with AA set, the question echoed, and (RFC
  2308) exactly one SOA record for the zone in the authority section, or none when the zone's names cannot be
  encoded. The count in the header agrees in both cases.\<close>

theorem NXDOMAIN_parses:
  assumes "question_ok p"
  shows "\<exists>out r. DnsResponse_NXDOMAIN ttl p zone = (0, out) \<and>
    DnsResponsePacket_FromWire (Some out) (length out) r0 = (True, r) \<and>
    header_view (resp_Header r) = reply_view p True 3 1 0 (if zone_encodable zone then 1 else 0) 0 \<and>
    resp_Questions r = [hd (req_Questions p)] \<and> resp_Answers r = [] \<and> resp_Additional r = [] \<and>
    resp_Authority r =
      (if zone_encodable zone
       then [new_record (domain_parts zone) 6 (question_class p) ttl (zone_soa_rdata ttl zone)] else [])"
  using NXDOMAIN_built [OF assms, of ttl zone] built_parses [of _ _ r0] by blast

theorem NXDOMAIN_parses_witness:
  "\<exists>out r. DnsResponse_NXDOMAIN 300 sample_query ''a.b'' = (0, out) \<and>
    DnsResponsePacket_FromWire (Some out) (length out) DnsResponsePacket_default = (True, r) \<and> resp_Answers r = []"
  using NXDOMAIN_parses [OF sample_question_ok, of 300 "''a.b''" DnsResponsePacket_default] by blast

section \<open>The OPT record\<close>

definition is_cookie :: "EdnsOption \<Rightarrow> bool" where
  "is_cookie x \<longleftrightarrow> m_Code x = 10 \<and> 8 \<le> length (m_Data x) \<and> length (m_Data x) \<le> 40"

lemma opt_rdata_eq: "opt_rdata os acc = acc @ options_image (filter is_cookie os)"
  by (induction os arbitrary: acc)
     (auto simp: is_cookie_def options_image_def option_image_def AppendUint16_def EDNS_OPTION_CODE_COOKIE_def
        EDNS_COOKIE_MIN_LENGTH_def EDNS_COOKIE_MAX_LENGTH_def)

text \<open>The record that is appended: payload size 1232, version 0, DO clear, the extended RCODE, the cookies.\<close>

definition opt_echo :: "EdnsData option \<Rightarrow> bytes" where
  "opt_echo edns =
     (let rd = (case edns of None \<Rightarrow> [] | Some e \<Rightarrow> options_image (filter is_cookie (m_Options e)))
      in if length rd > 65535 then [] else rd)"

definition opt_record :: "u8 \<Rightarrow> EdnsData option \<Rightarrow> DnsAnswer" where
  "opt_record ext edns = DnsAnswer_ctor_labels [] 41 1232 (push_bit 24 (ucast ext)) (opt_echo edns)"

lemma opt_record_fields:
  "opt_record ext edns =
     \<lparr>m_Name = [], m_Type = HostToNetwork 41, m_Class = HostToNetwork 1232,
      m_Ttl = HostToNetwork (push_bit 24 (ucast ext)), m_Rdlength = HostToNetwork (of_nat (length (opt_echo edns))),
      m_Rdata = opt_echo edns\<rparr>"
  by (simp add: opt_record_def DnsAnswer_ctor_labels_def DnsAnswer_SetTtl_def DnsAnswer_SetRclass_def
      DnsAnswer_SetType_def DnsAnswer_UpdateRDLENGTH_def DnsAnswer_default_def)

lemma opt_record_wf: "answer_wf (opt_record ext edns)"
  by (auto simp: answer_wf_def opt_record_fields labels_wf_def rdlength_ok_def rdata_canonical_def opt_echo_def Let_def
      linorder_not_less)

lemma AppendOpt_eq: "DnsResponse_AppendOpt out ext edns = increment_arcount (out @ answer_image (opt_record ext edns))"
  by (cases edns)
     (simp_all add: DnsResponse_AppendOpt_def opt_rdata_eq AppendUint16_def AppendUint32_def answer_image_def
        opt_record_fields opt_echo_def DEFAULT_EDNS_PACKET_SIZE_def Let_def)

lemma increment_arcount_image:
  "increment_arcount (DnsHeader_image h @ x) =
   DnsHeader_image (DnsHeader_SetArcount (DnsHeader_Arcount h False + 1) False h) @ x"
proof -
  have "load16 (DnsHeader_image h @ x) 10 = m_Arcount h"
    by (simp add: DnsHeader_image_def load16_skip load16_hit)
  then show ?thesis
    by (simp add: increment_arcount_def DnsHeader_HeaderSize_def Response_WriteUint16_eq)
       (simp add: DnsHeader_image_def overwrite_def mem16_def DnsHeader_SetArcount_def DnsHeader_Arcount_def)
qed

text \<open>\<open>with_opt\<close> is the message with the OPT record added to its additional section.\<close>

definition with_opt :: "u8 \<Rightarrow> EdnsData option \<Rightarrow> DnsResponsePacket \<Rightarrow> DnsResponsePacket" where
  "with_opt ext edns r =
     r\<lparr>resp_Header := DnsHeader_SetArcount (DnsHeader_Arcount (resp_Header r) False + 1) False (resp_Header r),
       resp_Additional := resp_Additional r @ [opt_record ext edns]\<rparr>"

lemma AppendOpt_built:
  assumes "built out r" and "length (resp_Additional r) < 65535"
  shows "built (DnsResponse_AppendOpt out ext edns) (with_opt ext edns r)"
proof -
  let ?h = "resp_Header r"
  let ?h' = "DnsHeader_SetArcount (DnsHeader_Arcount ?h False + 1) False ?h"
  from assms(1) obtain an ns ar where m: "map snd an = resp_Answers r" "map snd ns = resp_Authority r"
      "map snd ar = resp_Additional r"
    and wf: "\<forall>x\<in>set (an @ ns @ ar). answer_wf (snd x) \<and>
           (fst x \<longrightarrow> resp_Questions r \<noteq> [] \<and> m_Name (snd x) = m_Qname (hd (resp_Questions r)))"
    and out: "out = DnsHeader_image ?h @ questions_image (resp_Questions r)
                @ items_image an @ items_image ns @ items_image ar"
    unfolding built_def by blast
  have new: "DnsResponse_AppendOpt out ext edns = DnsHeader_image ?h' @ questions_image (resp_Questions r)
      @ items_image an @ items_image ns @ items_image (ar @ [(False, opt_record ext edns)])"
    by (simp add: AppendOpt_eq out increment_arcount_image [of ?h, simplified] items_image_def item_image_def
        answer_image_tail)
  have view: "header_view ?h' = (header_view ?h)\<lparr>v_arcount := DnsHeader_Arcount ?h False + 1\<rparr>" by simp
  have "DnsHeader_Valid ?h' = DnsHeader_Valid ?h" "DnsHeader_IsResponse ?h' = DnsHeader_IsResponse ?h"
    "DnsHeader_Qdcount ?h' False = DnsHeader_Qdcount ?h False" "DnsHeader_Ancount ?h' False = DnsHeader_Ancount ?h False"
    "DnsHeader_Nscount ?h' False = DnsHeader_Nscount ?h False"
    "DnsHeader_Arcount ?h' False = DnsHeader_Arcount ?h False + 1"
    using view by (simp_all add: header_view_def DnsHeader_Valid_def DnsHeader_IsResponse_def)
  moreover have "unat (DnsHeader_Arcount ?h False + 1) = length (resp_Additional r) + 1"
  proof -
    have "unat (DnsHeader_Arcount ?h False) = length (resp_Additional r)" using assms(1) by (simp add: built_def)
    then have "DnsHeader_Arcount ?h False = of_nat (length (resp_Additional r))" by (metis of_nat_unat ucast_id)
    then have "DnsHeader_Arcount ?h False + 1 = of_nat (length (resp_Additional r) + 1)" by simp
    then show ?thesis using unat_of_nat_u16 [of "length (resp_Additional r) + 1"] assms(2) by (simp add: add.commute)
  qed
  moreover have "\<forall>x\<in>set (an @ ns @ (ar @ [(False, opt_record ext edns)])). answer_wf (snd x) \<and>
           (fst x \<longrightarrow> resp_Questions r \<noteq> [] \<and> m_Name (snd x) = m_Qname (hd (resp_Questions r)))"
    using wf opt_record_wf by auto
  moreover have "map snd (ar @ [(False, opt_record ext edns)]) = resp_Additional r @ [opt_record ext edns]"
    using m by simp
  ultimately show ?thesis
    using assms(1) m new unfolding built_def with_opt_def
    by (intro conjI exI [of _ an] exI [of _ ns] exI [of _ "ar @ [(False, opt_record ext edns)]"]) simp_all
qed

text \<open>Appending an OPT record to a multi-answer response or a negative answer keeps it a message that parses,
  with that record and only it in the additional section, and everything else unchanged. Of the query's options
  only well-sized cookies are echoed.\<close>

theorem AppendOpt_parses:
  assumes "DnsResponse_MultiAnswer js ttl p rs out0 = (Inr 0, out)"
  shows "\<exists>r r'. DnsResponsePacket_FromWire (Some out) (length out) r0 = (True, r) \<and>
    DnsResponsePacket_FromWire (Some (DnsResponse_AppendOpt out ext edns))
      (length (DnsResponse_AppendOpt out ext edns)) r0 = (True, r') \<and>
    r' = r\<lparr>resp_Header := resp_Header r', resp_Additional := [opt_record ext edns]\<rparr> \<and>
    header_view (resp_Header r') = (header_view (resp_Header r))\<lparr>v_arcount := 1\<rparr> \<and>
    m_Rdata (opt_record ext edns) = opt_echo edns"
proof -
  let ?r = "reply_packet p (standard_header p 0 (of_nat (length rs)) 0 0 True) (map (answer_for js ttl p) rs) [] []"
  have b: "built out ?r" by (rule MultiAnswer_built [OF assms])
  have b': "built (DnsResponse_AppendOpt out ext edns) (with_opt ext edns ?r)"
    by (rule AppendOpt_built [OF b]) (simp add: reply_packet_def)
  have "DnsHeader_Arcount (standard_header p 0 (of_nat (length rs)) 0 0 True) False = 0"
    by (simp add: standard_header_def DnsHeader_Arcount_def)
  then show ?thesis
    using built_parses [OF b, of r0] built_parses [OF b', of r0]
    by (intro exI [of _ ?r] exI [of _ "with_opt ext edns ?r"])
       (simp add: with_opt_def reply_packet_def opt_record_fields)
qed

theorem AppendOpt_parses_witness:
  "\<exists>r'. DnsResponsePacket_FromWire (Some (DnsResponse_AppendOpt sample_message 0 None))
      (length (DnsResponse_AppendOpt sample_message 0 None)) DnsResponsePacket_default = (True, r') \<and>
    length (resp_Additional r') = 1"
proof -
  from AppendOpt_parses [OF sample_multi, of DnsResponsePacket_default 0 None] obtain r r' where
    "DnsResponsePacket_FromWire (Some (DnsResponse_AppendOpt sample_message 0 None))
      (length (DnsResponse_AppendOpt sample_message 0 None)) DnsResponsePacket_default = (True, r')"
    "r' = r\<lparr>resp_Header := resp_Header r', resp_Additional := [opt_record 0 None]\<rparr>" by blast
  moreover from this(2) have "resp_Additional r' = [opt_record 0 None]"
    by (metis (no_types) DnsResponsePacket.select_convs(5) DnsResponsePacket.surjective DnsResponsePacket.update_convs(1,5))
  ultimately show ?thesis by simp
qed

text \<open>A query with an unsupported EDNS version is answered with BADVERS as RFC 6891 asks: the header says
  NOERROR, the OPT record has version 0 and extended RCODE 1 (together RCODE 16), and there are no answers.\<close>

theorem BADVERS_parses:
  assumes "question_ok p"
  shows "\<exists>out r. DnsResponse_BADVERS p edns = (0, out) \<and>
    DnsResponsePacket_FromWire (Some out) (length out) r0 = (True, r) \<and>
    header_view (resp_Header r) = reply_view p False 0 1 0 0 1 \<and>
    resp_Questions r = [hd (req_Questions p)] \<and> resp_Answers r = [] \<and> resp_Authority r = [] \<and>
    resp_Additional r = [opt_record 1 edns] \<and> edns_ttl_fields (DnsAnswer_Ttl (opt_record 1 edns) False) = (1, 0, False)"
proof -
  obtain out where o: "bare_response p 0 = (0, out)" and b: "built out (reply_packet p (standard_header p 0 0 0 0 False) [] [] [])"
    using bare_response_built [OF assms, of 0] by blast
  let ?r = "with_opt 1 edns (reply_packet p (standard_header p 0 0 0 0 False) [] [] [])"
  have b': "built (DnsResponse_AppendOpt out 1 edns) ?r" by (rule AppendOpt_built [OF b]) (simp add: reply_packet_def)
  have "DnsHeader_Arcount (standard_header p 0 0 0 0 False) False = 0"
    by (simp add: standard_header_def DnsHeader_Arcount_def)
  moreover have "edns_ttl_fields (0x1000000 :: u32) = (1, 0, False)" by code_simp
  moreover have "DnsResponse_BADVERS p edns = (0, DnsResponse_AppendOpt out 1 edns)"
    using o by (auto simp: DnsResponse_BADVERS_def bare_response_def split: prod.splits if_splits)
  ultimately show ?thesis
    using built_parses [OF b', of r0]
    by (intro exI [of _ "DnsResponse_AppendOpt out 1 edns"] exI [of _ ?r])
       (simp add: with_opt_def reply_packet_def standard_header_view opt_record_fields DnsAnswer_Ttl_def, simp add: reply_view_def)
qed

theorem BADVERS_parses_witness:
  "\<exists>out r. DnsResponse_BADVERS sample_query None = (0, out) \<and>
    DnsResponsePacket_FromWire (Some out) (length out) DnsResponsePacket_default = (True, r) \<and>
    resp_Additional r = [opt_record 1 None]"
  using BADVERS_parses [OF sample_question_ok, of None DnsResponsePacket_default] by blast


end
