(* ===== verification/Dns_Parser.thy ===== *)
theory Dns_Parser
  imports Response_Parse
begin

text \<open>
  \<^verbatim>\<open>class DnsParser\<close> (\<^verbatim>\<open>include/dns_parser.h\<close>, \<^verbatim>\<open>src/dns_parser.cc\<close>): a parsed query with its domain split into the zone
  to look up (the last two labels) and the subdomain, and the name of its record type.

  The two splitting patterns are fixed in \<^verbatim>\<open>include/constants.h\<close>; they are translated to syntax trees, and
  \<open>matches\<close> lists the ways a tree matches a prefix of a string in the order in which a backtracking
  ECMAScript matcher of \<^verbatim>\<open>std::regex\<close> tries them. A search with an anchored pattern returns the captures of the
  first way that consumes the whole string.
\<close>

section \<open>The fixed patterns\<close>

datatype rx =
    Any
  | Chr char
  | NotChr char
  | Opt rx
  | Star rx
  | Seq rx rx
  | Grp nat rx

text \<open>The dot does not match a line feed or a carriage return.\<close>

definition line_terminator :: "char \<Rightarrow> bool" where
  "line_terminator c \<longleftrightarrow> of_char c = (10 :: nat) \<or> of_char c = (13 :: nat)"

type_synonym captures = "nat \<Rightarrow> string option"

text \<open>A repetition is greedy and does not repeat an empty iteration. The length test in a sequence always holds; it
  shows that the definition terminates.\<close>

function matches :: "rx \<Rightarrow> string \<Rightarrow> captures \<Rightarrow> (string \<times> captures) list" where
  "matches Any s c = (case s of [] \<Rightarrow> [] | x # s' \<Rightarrow> if line_terminator x then [] else [(s', c)])"
| "matches (Chr a) s c = (case s of [] \<Rightarrow> [] | x # s' \<Rightarrow> if x = a then [(s', c)] else [])"
| "matches (NotChr a) s c = (case s of [] \<Rightarrow> [] | x # s' \<Rightarrow> if x \<noteq> a then [(s', c)] else [])"
| "matches (Opt r) s c = matches r s c @ [(s, c)]"
| "matches (Star r) s c =
     concat (map (\<lambda>(s', c'). if length s' < length s then matches (Star r) s' c' else []) (matches r s c)) @ [(s, c)]"
| "matches (Seq r r') s c =
     concat (map (\<lambda>(s', c'). if length s' \<le> length s then matches r' s' c' else []) (matches r s c))"
| "matches (Grp n r) s c = map (\<lambda>(s', c'). (s', c'(n \<mapsto> take (length s - length s') s))) (matches r s c)"
  by pat_completeness auto
termination
  by (relation "measures [\<lambda>(r, s, c). length s, \<lambda>(r, s, c). size r]") auto

definition regex_search :: "rx \<Rightarrow> string \<Rightarrow> captures option" where
  "regex_search r s = map_option snd (find (\<lambda>(s', c). s' = []) (matches r s Map.empty))"

text \<open>\<^verbatim>\<open>(.*\..*[^\.])\<close>, which ends both patterns.\<close>

definition last_two :: rx where
  "last_two = Grp 2 (Seq (Star Any) (Seq (Chr CHR ''.'') (Seq (Star Any) (NotChr CHR ''.''))))"

definition ROOT_DOMAIN_PATTERN :: rx where
  "ROOT_DOMAIN_PATTERN = Seq (Star (Grp 1 (Seq (Star Any) (Chr CHR ''.'')))) last_two"

definition SUB_DOMAIN_PATTERN :: rx where
  "SUB_DOMAIN_PATTERN = Seq (Grp 1 (Seq (Star Any) (Opt (Chr CHR ''.'')))) (Seq (Chr CHR ''.'') last_two)"

section \<open>The parser\<close>

record DnsParser =
  prs_Packet :: DnsRequestPacket
  prs_Domain :: string
  prs_RootDomain :: string
  prs_SubDomain :: string

text \<open>\<^verbatim>\<open>s_Match.str(n)\<close> is empty for a group that took no part.\<close>

definition match_str :: "captures \<Rightarrow> nat \<Rightarrow> string" where
  "match_str c n = (case c n of Some s \<Rightarrow> s | None \<Rightarrow> [])"

definition DnsParser_CacheDomainParts :: "DnsParser \<Rightarrow> DnsParser" where
  "DnsParser_CacheDomainParts p =
     (case req_Questions (prs_Packet p) of
        [] \<Rightarrow> p
      | q # _ \<Rightarrow>
          let m_Domain = DnsQuestion_QnameAsString q;
              m_RootDomain = (case regex_search ROOT_DOMAIN_PATTERN m_Domain of
                 Some s_Match \<Rightarrow> match_str s_Match 2 | None \<Rightarrow> m_Domain);
              m_SubDomain = (case regex_search SUB_DOMAIN_PATTERN m_Domain of
                 Some s_Match \<Rightarrow> match_str s_Match 1 | None \<Rightarrow> prs_SubDomain p)
          in p\<lparr>prs_Domain := m_Domain, prs_RootDomain := m_RootDomain, prs_SubDomain := m_SubDomain\<rparr>)"

definition DnsParser_ctor :: "bytes option \<Rightarrow> nat \<Rightarrow> cpp_error + DnsParser" where
  "DnsParser_ctor p_Data p_DataLength =
     (if p_DataLength < DnsHeader_HeaderSize then
        Inl (Out_of_range ''p_Data is too small to be a properly formatted DNS request'')
      else if p_DataLength > 65535 then Inl (Out_of_range ''DNS packet too large'')
      else if p_Data = None then Inl (Invalid_argument ''Input data pointer is null'')
      else case DnsRequestPacket_ctor_data p_Data p_DataLength of
        Inl _ \<Rightarrow> Inl (Runtime_error ''Failed to parse DNS packet'')
      | Inr packet \<Rightarrow>
          if DnsHeader_Qdcount (req_Header packet) False \<noteq> 1 then
            Inl (Runtime_error (if DnsHeader_Qdcount (req_Header packet) False = 0
              then ''No questions in DNS packet'' else ''Too many questions in DNS packet''))
          else Inr (DnsParser_CacheDomainParts
                 \<lparr>prs_Packet = packet, prs_Domain = [], prs_RootDomain = [], prs_SubDomain = []\<rparr>))"

section \<open>Record types\<close>

definition RecordTypes :: "(u16 \<times> string) list" where
  "RecordTypes =
     [(1, ''A''), (28, ''AAAA''), (18, ''AFSDB''), (42, ''APL''), (257, ''CAA''), (60, ''CDNSKEY''),
      (59, ''CDS''), (37, ''CERT''), (5, ''CNAME''), (62, ''CSYNC''), (49, ''DHCID''), (32769, ''DLV''),
      (39, ''DNAME''), (48, ''DNSKEY''), (43, ''DS''), (108, ''EUI48''), (109, ''EUI64''),
      (13, ''HINFO''), (55, ''HIP''), (65, ''HTTPS''), (45, ''IPSECKEY''), (25, ''KEY''), (36, ''KX''),
      (29, ''LOC''), (15, ''MX''), (35, ''NAPTR''), (2, ''NS''), (47, ''NSEC''), (50, ''NSEC3''),
      (51, ''NSEC3PARAM''), (61, ''OPENPGPKEY''), (12, ''PTR''), (46, ''RRSIG''), (17, ''RP''),
      (24, ''SIG''), (53, ''SMIMEA''), (6, ''SOA''), (33, ''SRV''), (44, ''SSHFP''), (64, ''SVCB''),
      (32768, ''TA''), (249, ''TKEY''), (52, ''TLSA''), (250, ''TSIG''), (16, ''TXT''), (256, ''URI''),
      (63, ''ZONEMD''), (255, ''*''), (252, ''AXFR''), (251, ''IXFR''), (41, ''OPT''), (3, ''MD''),
      (4, ''MF''), (254, ''MAILA''), (7, ''MB''), (8, ''MG''), (9, ''MR''), (14, ''MINFO''),
      (253, ''MAILB''), (11, ''WKS''), (32, ''NB''), (10, ''NULL''), (38, ''A6''), (30, ''NXT''),
      (19, ''X25''), (20, ''ISDN''), (21, ''RT''), (22, ''NSAP''), (23, ''NSAP-PTR''), (26, ''PX''),
      (31, ''EID''), (34, ''ATMA''), (40, ''SINK''), (27, ''GPOS''), (100, ''UINFO''), (101, ''UID''),
      (102, ''GID''), (103, ''UNSPEC''), (99, ''SPF''), (56, ''NINFO''), (57, ''RKEY''),
      (58, ''TALINK''), (104, ''NID''), (105, ''L32''), (106, ''L64''), (107, ''LP''), (259, ''DOA'')]"

definition DnsParser_RecordType :: "DnsParser \<Rightarrow> string" where
  "DnsParser_RecordType p =
     (case req_Questions (prs_Packet p) of
        [] \<Rightarrow> ''Unknown''
      | q # _ \<Rightarrow> (case map_of RecordTypes (DnsQuestion_Qtype q False) of Some t \<Rightarrow> t | None \<Rightarrow> ''Unknown''))"

declare matches.simps(5) [simp del]

section \<open>Lemmas: the matcher\<close>

lemma find_append: "find P (xs @ ys) = (case find P xs of Some x \<Rightarrow> Some x | None \<Rightarrow> find P ys)"
  by (induction xs) auto

lemma find_SomeD: "find P xs = Some x \<Longrightarrow> x \<in> set xs \<and> P x"
  by (induction xs) (auto split: if_splits)

lemma find_concat_map:
  "find P (concat (map f xs)) = (case find (\<lambda>x. find P (f x) \<noteq> None) xs of Some x \<Rightarrow> find P (f x) | None \<Rightarrow> None)"
  by (induction xs) (auto simp: find_append split: option.splits)

text \<open>The suffixes of a string, shortest first, and the suffixes that start after a dot.\<close>

primrec suffixes_up :: "string \<Rightarrow> string list" where
  "suffixes_up [] = [[]]"
| "suffixes_up (x # s) = suffixes_up s @ [x # s]"

primrec after_dots :: "string \<Rightarrow> string list" where
  "after_dots [] = []"
| "after_dots (x # s) = after_dots s @ (if x = CHR ''.'' then [s] else [])"

definition plain :: "string \<Rightarrow> bool" where
  "plain s \<longleftrightarrow> list_all (\<lambda>x. \<not> line_terminator x) s"

lemma suffixes_up_length: "t \<in> set (suffixes_up s) \<Longrightarrow> length t \<le> length s"
  by (induction s) auto

lemma suffixes_up_plain: "plain s \<Longrightarrow> t \<in> set (suffixes_up s) \<Longrightarrow> plain t"
  by (induction s) (auto simp: plain_def)

lemma after_dots_length: "t \<in> set (after_dots s) \<Longrightarrow> length t < length s"
  by (induction s) (auto split: if_splits)

lemma after_dots_plain: "plain s \<Longrightarrow> t \<in> set (after_dots s) \<Longrightarrow> plain t"
  by (induction s) (auto simp: plain_def split: if_splits)

lemma matches_star_any: "plain s \<Longrightarrow> matches (Star Any) s c = map (\<lambda>t. (t, c)) (suffixes_up s)"
  by (induction s) (auto simp: matches.simps(5) plain_def)

lemma concat_if_single: "concat (map (\<lambda>t. if P t then [f t] else []) xs) = map f (filter P xs)"
  by (induction xs) auto

lemma matches_star_any_then:
  "plain s \<Longrightarrow> matches (Seq (Star Any) r) s c = concat (map (\<lambda>t. matches r t c) (suffixes_up s))"
  by (auto simp: matches_star_any comp_def suffixes_up_length intro!: arg_cong [where f = concat])

lemma matches_to_dot: "plain s \<Longrightarrow> matches (Seq (Star Any) (Chr CHR ''.'')) s c = map (\<lambda>t. (t, c)) (after_dots s)"
proof (induction s)
  case (Cons x s)
  then have "plain s" by (simp add: plain_def)
  with Cons show ?case by (simp add: matches_star_any_then del: matches.simps(6))
qed (simp add: matches_star_any plain_def)

text \<open>The strings that a repetition of \<^verbatim>\<open>(.*\.)\<close> can leave over, in order.\<close>

function leftovers :: "string \<Rightarrow> string list" where
  "leftovers s = concat (map leftovers (after_dots s)) @ [s]"
  by pat_completeness auto
termination
  by (relation "measure length") (auto dest: after_dots_length)

declare leftovers.simps [simp del]

lemma matches_dotted_labels:
  "plain s \<Longrightarrow> map fst (matches (Star (Grp 1 (Seq (Star Any) (Chr CHR ''.'')))) s c) = leftovers s"
proof (induction s arbitrary: c rule: leftovers.induct)
  case (1 s)
  let ?G = "Grp 1 (Seq (Star Any) (Chr CHR ''.''))"
  have "matches ?G s c = map (\<lambda>t. (t, c(1 \<mapsto> take (length s - length t) s))) (after_dots s)"
    using 1(2) by (simp only: matches.simps(7) matches_to_dot map_map comp_def prod.case)
  then have "matches (Star ?G) s c =
      concat (map (\<lambda>t. matches (Star ?G) t (c(1 \<mapsto> take (length s - length t) s))) (after_dots s)) @ [(s, c)]"
    using after_dots_length
    by (subst matches.simps(5)) (auto simp: comp_def simp del: matches.simps intro!: arg_cong [where f = concat])
  then have "map fst (matches (Star ?G) s c) =
      concat (map (\<lambda>t. map fst (matches (Star ?G) t (c(1 \<mapsto> take (length s - length t) s)))) (after_dots s)) @ [s]"
    by (simp add: map_concat comp_def del: matches.simps)
  also have "\<dots> = leftovers s"
    using 1(1) after_dots_plain [OF 1(2)] by (subst leftovers.simps) (simp cong: map_cong del: matches.simps)
  finally show ?case .
qed

lemma find_prefixes:
  assumes "\<And>i. i < length ts \<Longrightarrow> find P (f (ts ! i)) = find P (take (Suc i) ts)"
  shows "find P (concat (map f ts)) = find P ts"
  using assms
proof (induction ts rule: rev_induct)
  case (snoc t ts)
  have "find P (f (ts ! i)) = find P (take (Suc i) ts)" if "i < length ts" for i
    using snoc.prems [of i] that by (simp add: nth_append)
  moreover have "find P (f t) = find P (ts @ [t])" using snoc.prems [of "length ts"] by simp
  ultimately show ?case using snoc.IH by (auto simp: find_append split: option.split)
qed simp

lemma after_dots_nth: "i < length (after_dots s) \<Longrightarrow> after_dots (after_dots s ! i) = take i (after_dots s)"
  by (induction s) (auto simp: nth_append split: if_splits)

lemma find_leftovers: "find P (leftovers s) = find P (after_dots s @ [s])"
proof (induction s rule: leftovers.induct)
  case (1 s)
  have "find P (concat (map leftovers (after_dots s))) = find P (after_dots s)"
  proof (rule find_prefixes)
    fix i assume i: "i < length (after_dots s)"
    then show "find P (leftovers (after_dots s ! i)) = find P (take (Suc i) (after_dots s))"
      using 1 [OF nth_mem [OF i]] by (simp add: after_dots_nth take_Suc_conv_app_nth)
  qed
  then show ?case by (subst leftovers.simps) (simp add: find_append)
qed

text \<open>What the final group can leave over; it consumes everything when a label follows a dot.\<close>

definition after_last :: "string \<Rightarrow> string list" where
  "after_last v = concat (map (\<lambda>w. case w of [] \<Rightarrow> [] | y # w' \<Rightarrow> if y \<noteq> CHR ''.'' then [w'] else []) (suffixes_up v))"

definition ends :: "string \<Rightarrow> string list" where
  "ends s = concat (map (\<lambda>u. case u of [] \<Rightarrow> [] | x # v \<Rightarrow> if x = CHR ''.'' then after_last v else []) (suffixes_up s))"

definition two_labels :: "string \<Rightarrow> bool" where
  "two_labels s \<longleftrightarrow> (\<exists>u\<in>set (after_dots s). u \<noteq> [] \<and> last u \<noteq> CHR ''.'')"

lemma map_case_list: "map f (case u of [] \<Rightarrow> [] | x # v \<Rightarrow> g x v) = (case u of [] \<Rightarrow> [] | x # v \<Rightarrow> map f (g x v))"
  by (simp split: list.split)

lemma matches_after_last:
  "plain v \<Longrightarrow> matches (Seq (Star Any) (NotChr CHR ''.'')) v c = map (\<lambda>w. (w, c)) (after_last v)"
  by (auto simp: matches_star_any_then after_last_def map_concat comp_def map_case_list if_distrib
      simp del: matches.simps(6) intro!: arg_cong [where f = concat] split: list.split)

lemma matches_last_two:
  assumes "plain s"
  shows "matches last_two s c = map (\<lambda>u. (u, c(2 \<mapsto> take (length s - length u) s))) (ends s)"
proof -
  have dot: "matches (Seq (Chr CHR ''.'') r) u c = (case u of [] \<Rightarrow> [] | x # v \<Rightarrow> if x = CHR ''.'' then matches r v c else [])"
    for r u by (auto split: list.split)
  have "matches (Seq (Chr CHR ''.'') (Seq (Star Any) (NotChr CHR ''.''))) u c =
      (case u of [] \<Rightarrow> [] | x # v \<Rightarrow> if x = CHR ''.'' then map (\<lambda>w. (w, c)) (after_last v) else [])"
    if "u \<in> set (suffixes_up s)" for u
    using suffixes_up_plain [OF assms that]
    by (auto simp: dot matches_after_last plain_def simp del: matches.simps split: list.split)
  then have "matches (Seq (Star Any) (Seq (Chr CHR ''.'') (Seq (Star Any) (NotChr CHR ''.'')))) s c =
      map (\<lambda>u. (u, c)) (ends s)"
    using assms
    by (subst matches_star_any_then)
      (auto simp: ends_def map_concat comp_def map_case_list if_distrib
        simp del: matches.simps intro!: arg_cong [where f = concat] split: list.split)
  then show ?thesis by (simp add: last_two_def comp_def del: matches.simps(6))
qed

lemma suffixes_up_after_last: "[] \<in> set (after_last v) \<longleftrightarrow> v \<noteq> [] \<and> last v \<noteq> CHR ''.''"
  by (induction v) (auto simp: after_last_def split: if_splits)

lemma ends_two_labels: "[] \<in> set (ends s) \<longleftrightarrow> two_labels s"
  by (induction s) (auto simp: ends_def two_labels_def suffixes_up_after_last split: if_splits)

abbreviation consumed :: "string \<times> captures \<Rightarrow> bool" where
  "consumed \<equiv> \<lambda>(s', c). s' = []"

lemma find_last_two:
  assumes "plain t"
  shows "find consumed (matches last_two t d) = (if two_labels t then Some ([], d(2 \<mapsto> t)) else None)"
proof -
  have "find consumed (map (\<lambda>u. (u, g u)) us) = (if [] \<in> set us then Some ([], g []) else None)"
    for g :: "string \<Rightarrow> captures" and us by (induction us) auto
  then show ?thesis using assms by (simp add: matches_last_two ends_two_labels)
qed

text \<open>A search takes the first way in which the second part can consume the rest.\<close>

lemma regex_search_Seq:
  assumes "\<And>t d. (t, d) \<in> set (matches r s Map.empty) \<Longrightarrow>
    length t \<le> length s \<and> find consumed (matches q t d) = (if Q t then Some ([], g t d) else None)"
  shows "regex_search (Seq r q) s =
    map_option (\<lambda>(t, d). g t d) (find (\<lambda>(t, d). Q t) (matches r s Map.empty))"
proof -
  let ?f = "\<lambda>(t, d). if length t \<le> length s then matches q t d else []"
  have f: "find consumed (?f x) = (case x of (t, d) \<Rightarrow> if Q t then Some ([], g t d) else None)"
    if "x \<in> set (matches r s Map.empty)" for x
    using assms that by (cases x) simp
  then have "find (\<lambda>x. find consumed (?f x) \<noteq> None) (matches r s Map.empty) =
      find (\<lambda>(t, d). Q t) (matches r s Map.empty)"
    by (intro find_cong) (auto split: if_splits)
  moreover have "find consumed (?f x) = Some ([], (case x of (t, d) \<Rightarrow> g t d))"
    if "find (\<lambda>(t, d). Q t) (matches r s Map.empty) = Some x" for x
    using f [of x] find_SomeD [OF that] by (cases x) simp
  ultimately show ?thesis
    by (simp add: regex_search_def find_concat_map del: matches.simps(1,2,3,4,5,7) split: option.split)
qed

lemma leftovers_member: "t \<in> set (leftovers s) \<Longrightarrow> t = s \<or> t \<in> set (after_dots s)"
proof (induction s arbitrary: t rule: leftovers.induct)
  case (1 s)
  have "t \<in> set (after_dots s)" if "u \<in> set (after_dots s)" "t \<in> set (leftovers u)" for u
  proof -
    from that(1) obtain i where "i < length (after_dots s)" "u = after_dots s ! i" by (auto simp: in_set_conv_nth)
    then have "set (after_dots u) \<subseteq> set (after_dots s)" by (auto simp: after_dots_nth dest: in_set_takeD)
    with 1 that show ?thesis by blast
  qed
  with 1(2) show ?case by (subst (asm) leftovers.simps) auto
qed

lemma find_map_fst: "map_option fst (find (\<lambda>(t, d). P t) xs) = find P (map fst xs)"
  by (induction xs) auto

lemma root_pattern:
  assumes "plain s"
  shows "map_option (\<lambda>c. c 2) (regex_search ROOT_DOMAIN_PATTERN s) = map_option Some (find two_labels (after_dots s @ [s]))"
proof -
  let ?ms = "matches (Star (Grp 1 (Seq (Star Any) (Chr CHR ''.'')))) s Map.empty"
  note fst = matches_dotted_labels [OF assms, of Map.empty]
  have "plain t \<and> length t \<le> length s" if "(t, d) \<in> set ?ms" for t d
  proof -
    have "t \<in> set (leftovers s)" using that fst by (metis fst_conv list.set_map rev_image_eqI)
    then show ?thesis
      using leftovers_member after_dots_plain [OF assms] after_dots_length [of t s] assms by fastforce
  qed
  then have "regex_search ROOT_DOMAIN_PATTERN s =
      map_option (\<lambda>(t, d). d(2 \<mapsto> t)) (find (\<lambda>(t, d). two_labels t) ?ms)"
    unfolding ROOT_DOMAIN_PATTERN_def by (intro regex_search_Seq) (simp add: find_last_two)
  then have "map_option (\<lambda>c. c 2) (regex_search ROOT_DOMAIN_PATTERN s) =
      map_option Some (map_option fst (find (\<lambda>(t, d). two_labels t) ?ms))"
    by (simp add: option.map_comp comp_def case_prod_unfold del: matches.simps)
  then show ?thesis by (simp only: find_map_fst fst find_leftovers)
qed

definition dot_tail :: "string \<Rightarrow> bool" where
  "dot_tail u \<longleftrightarrow> (case u of [] \<Rightarrow> False | x # v \<Rightarrow> x = CHR ''.'' \<and> two_labels v)"

definition sub_rests :: "string \<Rightarrow> string list" where
  "sub_rests s = concat (map (\<lambda>u. (case u of [] \<Rightarrow> [] | x # v \<Rightarrow> if x = CHR ''.'' then [v] else []) @ [u]) (suffixes_up s))"

lemma matches_sub:
  "plain s \<Longrightarrow> matches (Grp 1 (Seq (Star Any) (Opt (Chr CHR ''.'')))) s c =
     map (\<lambda>t. (t, c(1 \<mapsto> take (length s - length t) s))) (sub_rests s)"
  by (auto simp: matches_star_any_then sub_rests_def map_concat comp_def map_case_list if_distrib
      simp del: matches.simps(6) intro!: arg_cong [where f = concat] split: list.split)

lemma sub_rests_member: "t \<in> set (sub_rests s) \<Longrightarrow> length t \<le> length s \<and> (plain s \<longrightarrow> plain t)"
proof -
  have "length v < length s \<and> (plain s \<longrightarrow> plain v)" if "x # v \<in> set (suffixes_up s)" for x v
    using suffixes_up_length [OF that] suffixes_up_plain [OF _ that] by (simp add: plain_def)
  then show "t \<in> set (sub_rests s) \<Longrightarrow> length t \<le> length s \<and> (plain s \<longrightarrow> plain t)"
    using suffixes_up_length suffixes_up_plain
    by (fastforce simp: sub_rests_def split: list.splits if_splits)
qed

lemma find_dot_tail:
  assumes "plain t"
  shows "find consumed (matches (Seq (Chr CHR ''.'') last_two) t d) =
    (if dot_tail t then Some ([], d(2 \<mapsto> tl t)) else None)"
proof (cases t)
  case (Cons x v)
  then have "plain v" using assms by (simp add: plain_def)
  then show ?thesis using Cons by (simp add: dot_tail_def find_last_two)
qed (simp add: dot_tail_def)

lemma sub_pattern:
  assumes "plain s"
  shows "map_option (\<lambda>c. c 1) (regex_search SUB_DOMAIN_PATTERN s) =
    map_option (\<lambda>t. Some (take (length s - length t) s)) (find dot_tail (sub_rests s))"
proof -
  let ?c = "\<lambda>t. [1 \<mapsto> take (length s - length t) s]"
  note ms = matches_sub [OF assms, of Map.empty]
  have "regex_search SUB_DOMAIN_PATTERN s =
      map_option (\<lambda>(t, d). d(2 \<mapsto> tl t)) (find (\<lambda>(t, d). dot_tail t) (map (\<lambda>t. (t, ?c t)) (sub_rests s)))"
    unfolding SUB_DOMAIN_PATTERN_def ms [symmetric]
    by (intro regex_search_Seq) (use ms assms sub_rests_member in \<open>auto simp: find_dot_tail simp del: matches.simps\<close>)
  also have "find (\<lambda>(t, d). dot_tail t) (map (\<lambda>t. (t, ?c t)) ts) = map_option (\<lambda>t. (t, ?c t)) (find dot_tail ts)" for ts
    by (induction ts) auto
  finally show ?thesis by (simp add: option.map_comp comp_def)
qed

subsection \<open>On a list of labels\<close>

definition zone_labels :: "string list \<Rightarrow> bool" where
  "zone_labels ls \<longleftrightarrow> list_all (\<lambda>l. l \<noteq> [] \<and> CHR ''.'' \<notin> set l \<and> plain l) ls"

lemma zone_labels_simps [simp]:
  "zone_labels []" "zone_labels (l # ls) \<longleftrightarrow> l \<noteq> [] \<and> CHR ''.'' \<notin> set l \<and> plain l \<and> zone_labels ls"
  by (auto simp: zone_labels_def)

lemma zone_labels_plain: "zone_labels ls \<Longrightarrow> plain (join_with CHR ''.'' ls)"
  by (induction ls) (auto simp: join_with_Cons plain_def line_terminator_def)

lemma after_dots_append:
  "CHR ''.'' \<notin> set l \<Longrightarrow> after_dots (l @ CHR ''.'' # s) = after_dots s @ [s]"
  "CHR ''.'' \<notin> set l \<Longrightarrow> after_dots l = []"
  by (induction l) auto

lemma two_labels_join: "zone_labels ls \<Longrightarrow> two_labels (join_with CHR ''.'' ls) \<longleftrightarrow> 2 \<le> length ls"
proof (induction ls)
  case (Cons l ls)
  have "last (join_with CHR ''.'' ls) \<noteq> CHR ''.'' \<and> join_with CHR ''.'' ls \<noteq> []" if "ls \<noteq> []"
    using that Cons.prems
  proof -
    have "last l' \<noteq> CHR ''.''" if "l' \<noteq> []" "CHR ''.'' \<notin> set l'" for l' using last_in_set that by metis
    with that Cons.prems show ?thesis by (induction ls) (auto simp: join_with_Cons join_with_eq_Nil)
  qed
  with Cons show ?case
    by (cases "ls = []") (auto simp: join_with_Cons two_labels_def after_dots_append Suc_le_eq)
qed (simp add: two_labels_def)

lemma find_two_labels:
  assumes "zone_labels ls" "ls \<noteq> []"
  shows "find two_labels (after_dots (join_with CHR ''.'' ls) @ [join_with CHR ''.'' ls]) =
    (if length ls < 2 then None else Some (join_with CHR ''.'' (drop (length ls - 2) ls)))"
  using assms
proof (induction ls)
  case (Cons l ls)
  show ?case
  proof (cases "ls = []")
    case True
    with Cons.prems show ?thesis using two_labels_join [of "[l]"] by (simp add: after_dots_append)
  next
    case False
    let ?s = "join_with CHR ''.'' ls"
    have "after_dots (join_with CHR ''.'' (l # ls)) = after_dots ?s @ [?s]"
      using Cons.prems False by (simp add: join_with_Cons after_dots_append)
    then have "find two_labels (after_dots (join_with CHR ''.'' (l # ls)) @ [join_with CHR ''.'' (l # ls)]) =
        (case find two_labels (after_dots ?s @ [?s]) of Some x \<Rightarrow> Some x
         | None \<Rightarrow> find two_labels [join_with CHR ''.'' (l # ls)])"
      by (simp add: find_append del: append_assoc split: option.split)
    then show ?thesis
      using Cons False two_labels_join [of "l # ls"]
      by (cases ls; cases "tl ls") (auto simp: Suc_diff_le)
  qed
qed simp

lemma find_dot_tail_join:
  assumes "zone_labels ls" "ls \<noteq> []"
  shows "find dot_tail (suffixes_up (join_with CHR ''.'' ls)) =
    (if length ls < 3 then None else Some (CHR ''.'' # join_with CHR ''.'' (drop (length ls - 2) ls)))"
  using assms
proof (induction ls)
  case (Cons l ls)
  have plain_part: "find dot_tail (suffixes_up (k @ s)) = find dot_tail (suffixes_up s)" if "CHR ''.'' \<notin> set k" for k s
    using that by (induction k) (auto simp: find_append dot_tail_def split: option.split)
  show ?case
  proof (cases "ls = []")
    case True
    moreover have "\<not> dot_tail []" by (simp add: dot_tail_def)
    ultimately show ?thesis using Cons.prems plain_part [of l "[]"] by simp
  next
    case False
    let ?s = "join_with CHR ''.'' ls"
    have "find dot_tail (suffixes_up (join_with CHR ''.'' (l # ls))) = find dot_tail (suffixes_up (CHR ''.'' # ?s))"
      using Cons.prems False by (simp add: join_with_Cons plain_part del: suffixes_up.simps)
    also have "\<dots> = (case find dot_tail (suffixes_up ?s) of Some x \<Rightarrow> Some x
         | None \<Rightarrow> if two_labels ?s then Some (CHR ''.'' # ?s) else None)"
      by (simp add: find_append dot_tail_def split: option.split)
    finally show ?thesis
      using Cons False two_labels_join [of ls]
      by (cases ls; cases "tl ls"; cases "tl (tl ls)") (auto simp: Suc_diff_le)
  qed
qed simp

lemma suffixes_up_no_double_dot:
  "zone_labels ls \<Longrightarrow> x # y # t \<in> set (suffixes_up (join_with CHR ''.'' ls)) \<Longrightarrow> x = CHR ''.'' \<Longrightarrow> y \<noteq> CHR ''.''"
proof (induction ls)
  case (Cons l ls)
  have part: "u \<in> set (suffixes_up (k @ s)) \<Longrightarrow> CHR ''.'' \<notin> set k \<Longrightarrow> hd u = CHR ''.'' \<Longrightarrow> u \<noteq> [] \<Longrightarrow> u \<in> set (suffixes_up s)"
    for u k s by (induction k) auto
  show ?case
  proof (cases "ls = []")
    case True
    then show ?thesis using Cons.prems part [of "x # y # t" l "[]"] by simp
  next
    case False
    then have "x # y # t \<in> set (suffixes_up (CHR ''.'' # join_with CHR ''.'' ls))"
      using Cons.prems part [of "x # y # t" l] by (simp add: join_with_Cons del: suffixes_up.simps)
    moreover have "join_with CHR ''.'' ls = y # t \<Longrightarrow> y \<noteq> CHR ''.''"
      using False Cons.prems(1) by (cases ls; cases "hd ls") (auto simp: join_with_Cons Cons_eq_append_conv split: if_splits)
    ultimately show ?thesis using Cons by auto
  qed
qed simp

lemma find_sub_rests:
  assumes "zone_labels ls"
  shows "find dot_tail (sub_rests (join_with CHR ''.'' ls)) = find dot_tail (suffixes_up (join_with CHR ''.'' ls))"
proof -
  have drop_first: "find dot_tail (concat (map (\<lambda>u. f u @ [u]) us)) = find dot_tail us"
    if "\<And>u. u \<in> set us \<Longrightarrow> find dot_tail (f u) = None" for f us
    using that by (induction us) (auto simp: find_append split: option.split)
  have "\<not> dot_tail v" if "CHR ''.'' # v \<in> set (suffixes_up (join_with CHR ''.'' ls))" for v
    using suffixes_up_no_double_dot [OF assms] that by (cases v) (auto simp: dot_tail_def)
  then show ?thesis
    unfolding sub_rests_def by (intro drop_first) (auto split: list.split)
qed

text \<open>The two searches on a name of zone labels.\<close>

lemma root_of_labels:
  assumes "zone_labels ls"
  shows "(case regex_search ROOT_DOMAIN_PATTERN (join_with CHR ''.'' ls) of
      Some c \<Rightarrow> match_str c 2 | None \<Rightarrow> join_with CHR ''.'' ls) = join_with CHR ''.'' (drop (length ls - 2) ls)"
proof (cases "ls = []")
  case True
  then show ?thesis using root_pattern [of "[]"] by (simp add: plain_def two_labels_def)
next
  case False
  have "map_option (\<lambda>c. c 2) (regex_search ROOT_DOMAIN_PATTERN (join_with CHR ''.'' ls)) =
      map_option Some (if length ls < 2 then None else Some (join_with CHR ''.'' (drop (length ls - 2) ls)))"
    by (simp only: root_pattern [OF zone_labels_plain [OF assms]] find_two_labels [OF assms False])
  then show ?thesis by (auto simp: match_str_def split: option.split if_splits)
qed

lemma join_with_append:
  "ls \<noteq> [] \<Longrightarrow> ms \<noteq> [] \<Longrightarrow> join_with c (ls @ ms) = join_with c ls @ c # join_with c ms"
  by (induction ls) (auto simp: join_with_Cons)

lemma sub_of_labels:
  assumes "zone_labels ls"
  shows "(case regex_search SUB_DOMAIN_PATTERN (join_with CHR ''.'' ls) of
      Some c \<Rightarrow> match_str c 1 | None \<Rightarrow> []) = join_with CHR ''.'' (take (length ls - 2) ls)"
proof (cases "length ls < 3")
  case True
  have "find dot_tail (sub_rests (join_with CHR ''.'' ls)) = None"
  proof (cases "ls = []")
    case True
    then show ?thesis by (simp add: sub_rests_def dot_tail_def)
  next
    case False
    with True show ?thesis by (simp only: find_sub_rests [OF assms] find_dot_tail_join [OF assms False]) simp
  qed
  then have "regex_search SUB_DOMAIN_PATTERN (join_with CHR ''.'' ls) = None"
    using sub_pattern [OF zone_labels_plain [OF assms]] by simp
  then show ?thesis using True by simp
next
  case False
  let ?n = "length ls - 2"
  let ?t = "CHR ''.'' # join_with CHR ''.'' (drop ?n ls)"
  have "take ?n ls \<noteq> []" "drop ?n ls \<noteq> []" using False by auto
  then have "join_with CHR ''.'' ls = join_with CHR ''.'' (take ?n ls) @ ?t"
    using join_with_append [of "take ?n ls" "drop ?n ls"] by simp
  moreover have "map_option (\<lambda>c. c 1) (regex_search SUB_DOMAIN_PATTERN (join_with CHR ''.'' ls)) =
      Some (Some (take (length (join_with CHR ''.'' ls) - length ?t) (join_with CHR ''.'' ls)))"
    using False find_dot_tail_join [OF assms] \<open>take ?n ls \<noteq> []\<close>
    by (subst sub_pattern [OF zone_labels_plain [OF assms]]) (auto simp: find_sub_rests [OF assms])
  ultimately show ?thesis by (auto simp: match_str_def)
qed

lemma CacheDomainParts_packet [simp]: "prs_Packet (DnsParser_CacheDomainParts p) = prs_Packet p"
  by (simp add: DnsParser_CacheDomainParts_def Let_def split: list.split)

lemma DnsParser_ctor_cases:
  "DnsParser_ctor (Some data) n = Inr p \<longleftrightarrow>
     12 \<le> n \<and> n \<le> 65535 \<and>
     (\<exists>packet q. DnsRequestPacket_FromWire (Some data) n DnsRequestPacket_default = (True, packet) \<and>
        req_Questions packet = [q] \<and>
        p = DnsParser_CacheDomainParts \<lparr>prs_Packet = packet, prs_Domain = [], prs_RootDomain = [], prs_SubDomain = []\<rparr>)"
proof -
  have one: "DnsHeader_Qdcount (req_Header packet) False = 1 \<longleftrightarrow> (\<exists>q. req_Questions packet = [q])"
    if parsed: "DnsRequestPacket_FromWire (Some data) n DnsRequestPacket_default = (True, packet)" for packet
  proof -
    from parsed obtain off where "parse_section DnsQuestion_FromWire DnsQuestion_default (Some data) n
       (unat (DnsHeader_Qdcount (req_Header packet) False)) 12 [] = (True, off, req_Questions packet)" and "12 \<le> n"
      by (auto elim: request_FromWire_steps)
    then have "length (req_Questions packet) = unat (DnsHeader_Qdcount (req_Header packet) False)"
      using question_codec.parse_section_bounds by fastforce
    moreover have "unat w = 1 \<longleftrightarrow> w = 1" for w :: u16 by (metis unat_1 unsigned_word_eqI)
    moreover have "length qs = 1 \<longleftrightarrow> (\<exists>q. qs = [q])" for qs :: "DnsQuestion list" by (cases qs) simp_all
    ultimately show ?thesis by metis
  qed
  obtain ok packet where p: "DnsRequestPacket_FromWire (Some data) n DnsRequestPacket_default = (ok, packet)"
    by (metis surj_pair)
  show ?thesis
    using one [of packet] p
    by (cases ok) (auto simp: DnsParser_ctor_def DnsRequestPacket_ctor_data_def DnsHeader_HeaderSize_def)
qed

lemma CacheDomainParts_labels:
  assumes "req_Questions packet = [q]" and "zone_labels (m_Qname q)"
  shows "DnsParser_CacheDomainParts \<lparr>prs_Packet = packet, prs_Domain = [], prs_RootDomain = [], prs_SubDomain = []\<rparr> =
    \<lparr>prs_Packet = packet, prs_Domain = join_with CHR ''.'' (m_Qname q),
     prs_RootDomain = join_with CHR ''.'' (drop (length (m_Qname q) - 2) (m_Qname q)),
     prs_SubDomain = join_with CHR ''.'' (take (length (m_Qname q) - 2) (m_Qname q))\<rparr>"
  using assms root_of_labels [of "m_Qname q"] sub_of_labels [of "m_Qname q"]
  by (simp add: DnsParser_CacheDomainParts_def Let_def QnameAsString_join cong: option.case_cong)

section \<open>Properties\<close>

text \<open>The parser accepts exactly the messages of 12 to 65535 octets that parse as a request with one question,
  and keeps the request as it was parsed; everything else is an exception.\<close>

theorem DnsParser_accepts:
  "(\<exists>p. DnsParser_ctor (Some data) n = Inr p \<and> prs_Packet p = packet) \<longleftrightarrow>
     12 \<le> n \<and> n \<le> 65535 \<and>
     DnsRequestPacket_FromWire (Some data) n DnsRequestPacket_default = (True, packet) \<and>
     length (req_Questions packet) = 1"
  by (auto simp: DnsParser_ctor_cases length_Suc_conv)

text \<open>C33: for a question whose labels are not empty and have no dot and no line terminator, the two patterns split
  the name at its second last dot: the root domain is the last two labels and the subdomain all labels before
  them, however many there are.\<close>

theorem DnsParser_splits_domain:
  assumes "DnsParser_ctor (Some data) n = Inr p"
    and "ls = m_Qname (hd (req_Questions (prs_Packet p)))" and "zone_labels ls"
  shows "prs_Domain p = join_with CHR ''.'' ls \<and>
    prs_RootDomain p = join_with CHR ''.'' (drop (length ls - 2) ls) \<and>
    prs_SubDomain p = join_with CHR ''.'' (take (length ls - 2) ls)"
proof -
  from assms(1) obtain packet q where "req_Questions packet = [q]"
    "p = DnsParser_CacheDomainParts \<lparr>prs_Packet = packet, prs_Domain = [], prs_RootDomain = [], prs_SubDomain = []\<rparr>"
    by (auto simp: DnsParser_ctor_cases)
  then show ?thesis using assms(2,3) CacheDomainParts_labels [of packet q] by simp
qed

theorem DnsParser_splits_domain_witness:
  "\<exists>p. DnsParser_ctor (Some (request_image (DnsRequestPacket_MakeAQuery 7 ''www.x.a.b'' True))) 28 = Inr p \<and>
    prs_RootDomain p = ''a.b'' \<and> prs_SubDomain p = ''www.x''"
proof -
  let ?d = "request_image (DnsRequestPacket_MakeAQuery 7 ''www.x.a.b'' True)"
  have "case DnsRequestPacket_FromWire (Some ?d) 28 DnsRequestPacket_default of (ok, packet) \<Rightarrow>
      ok \<and> map m_Qname (req_Questions packet) = [[''www'', ''x'', ''a'', ''b'']]" by code_simp
  then obtain packet z where d: "DnsRequestPacket_FromWire (Some ?d) 28 DnsRequestPacket_default = (True, packet)"
    and q: "req_Questions packet = [z]" "m_Qname z = [''www'', ''x'', ''a'', ''b'']" by auto
  then obtain p where p: "DnsParser_ctor (Some ?d) 28 = Inr p" "prs_Packet p = packet"
    using DnsParser_ctor_cases [of ?d 28 "DnsParser_CacheDomainParts
      \<lparr>prs_Packet = packet, prs_Domain = [], prs_RootDomain = [], prs_SubDomain = []\<rparr>"] by auto
  moreover have "zone_labels [''www'', ''x'', ''a'', ''b'']"
    by (simp add: plain_def line_terminator_def)
  ultimately show ?thesis
    using DnsParser_splits_domain [of ?d 28 p "[''www'', ''x'', ''a'', ''b'']"] q
    by (auto simp: join_with_Cons)
qed

end
