(* ===== verification/Local_Dns.thy ===== *)
theory Local_Dns
  imports Dns_Parser
begin

text \<open>
  \<^verbatim>\<open>namespace LocalDns\<close> (\<^verbatim>\<open>include/local_dns.h\<close>, \<^verbatim>\<open>src/local_dns.cc\<close>): answering a query from the zones of the
  configuration, with blocked domains, reverse lookups, CNAME chains, ANY queries, subdomain patterns, wildcards
  and \<^verbatim>\<open>{{FORWARD}}\<close> directives.

  The zones are a JSON value. The patterns of the zones are compiled and matched by \<^verbatim>\<open>std::regex\<close> with the
  syntax that the user wrote, so the engine is a parameter: \<open>rx_compile\<close> returns \<open>None\<close> where the constructor
  throws \<^verbatim>\<open>std::regex_error\<close>, \<open>rx_match\<close> where \<^verbatim>\<open>std::regex_match\<close> throws it. The cache of compiled patterns is
  passed through every function. A null entry that is dereferenced is undefined behaviour, the outer \<open>None\<close>.
\<close>

section \<open>The cache of compiled patterns\<close>

record 'r regex_engine =
  rx_compile :: "string \<Rightarrow> 'r option"
  rx_match :: "'r \<Rightarrow> string \<Rightarrow> bool option"

definition DNS_REGEX_CACHE_SIZE :: nat where "DNS_REGEX_CACHE_SIZE = 1024"

type_synonym 'r regex_cache = "(string \<times> 'r option) list"

text \<open>What a function that may use the cache returns: the value and the cache, or undefined behaviour.\<close>

type_synonym ('a, 'r) cached = "('a \<times> 'r regex_cache) option"

definition LocalDns_SafeRegexMatch ::
  "'r regex_engine \<Rightarrow> 'r regex_cache \<Rightarrow> string \<Rightarrow> string \<Rightarrow> (bool, 'r) cached" where
  "LocalDns_SafeRegexMatch eng m_RegexCache p_Input p_Pattern =
     (let m_RegexCache = (if length m_RegexCache \<ge> DNS_REGEX_CACHE_SIZE then [] else m_RegexCache);
          matched = (\<lambda>r. case rx_match eng r p_Input of Some b \<Rightarrow> b | None \<Rightarrow> False)
      in case map_of m_RegexCache p_Pattern of
           Some (Some r) \<Rightarrow> Some (matched r, m_RegexCache)
         | Some None \<Rightarrow> None
         | None \<Rightarrow>
             (case rx_compile eng p_Pattern of
                Some r \<Rightarrow> Some (matched r, (p_Pattern, Some r) # m_RegexCache)
              | None \<Rightarrow> Some (False, (p_Pattern, None) # m_RegexCache)))"

text \<open>The loops over the items of a zone: the first item, of those that are not skipped, whose key matches.\<close>

primrec first_match ::
  "'r regex_engine \<Rightarrow> ('j \<Rightarrow> bool) \<Rightarrow> string \<Rightarrow> (string \<times> 'j) list \<Rightarrow> 'r regex_cache \<Rightarrow> ('j option, 'r) cached" where
  "first_match eng skip s_SubDomain [] cache = Some (None, cache)"
| "first_match eng skip s_SubDomain (item # items) cache =
     (case item of (l_Key, l_Value) \<Rightarrow>
        if skip l_Value then first_match eng skip s_SubDomain items cache
        else case LocalDns_SafeRegexMatch eng cache s_SubDomain l_Key of
            None \<Rightarrow> None
          | Some (b, cache) \<Rightarrow>
              if b then Some (Some l_Value, cache) else first_match eng skip s_SubDomain items cache)"

section \<open>Reverse names\<close>

text \<open>All segments of a string, the last one included.\<close>

definition segments :: "char \<Rightarrow> string \<Rightarrow> string list" where
  "segments c s = (let (segs, rest) = split_on c s in segs @ [rest])"

text \<open>\<^verbatim>\<open>if (!s.empty()) { s += "."; } s += part;\<close> for each part.\<close>

definition dot_joined :: "string list \<Rightarrow> string" where
  "dot_joined parts = foldl (\<lambda>s part. (if s \<noteq> [] then s @ ''.'' else s) @ part) [] parts"

definition LocalDns_ReverseIpv4Components :: "string \<Rightarrow> string" where
  "LocalDns_ReverseIpv4Components p_Input =
     (if p_Input = [] then [] else dot_joined (rev (segments CHR ''.'' p_Input)))"

function ipv6_text_groups :: "string list \<Rightarrow> string list" where
  "ipv6_text_groups s_Parts =
     (if s_Parts = [] then [] else concat (take 4 s_Parts) # ipv6_text_groups (drop 4 s_Parts))"
  by pat_completeness auto
termination
  by (relation "measure length") auto

declare ipv6_text_groups.simps [simp del]

definition LocalDns_ReverseIpv6Components :: "string \<Rightarrow> string" where
  "LocalDns_ReverseIpv6Components p_Input =
     (if p_Input = [] then []
      else join_with CHR '':'' (ipv6_text_groups (rev (segments CHR ''.'' p_Input))))"

definition strip_zeros :: "string \<Rightarrow> string" where
  "strip_zeros s_Group =
     (let s = dropWhile (\<lambda>c. c = CHR ''0'') s_Group in if s = [] then ''0'' else s)"

text \<open>The scan for the longest run of zero groups: index, start and length of the longest run, start and length of
  the current one.\<close>

primrec zero_runs :: "string list \<Rightarrow> nat \<Rightarrow> nat \<times> nat \<Rightarrow> nat \<times> nat \<Rightarrow> nat \<times> nat" where
  "zero_runs [] l_Index s_Max s_Current = (if snd s_Current > snd s_Max then s_Current else s_Max)"
| "zero_runs (g # gs) l_Index s_Max s_Current =
     (if g = ''0'' then
        zero_runs gs (l_Index + 1) s_Max
          (if snd s_Current = 0 then l_Index else fst s_Current, snd s_Current + 1)
      else zero_runs gs (l_Index + 1) (if snd s_Current > snd s_Max then s_Current else s_Max) (fst s_Current, 0))"

function compress_zeros :: "string list \<Rightarrow> nat \<Rightarrow> nat \<Rightarrow> nat \<Rightarrow> string \<Rightarrow> string" where
  "compress_zeros s_Groups s_MaxZeroStart s_MaxZeroLength l_Index s_Result =
     (if l_Index \<ge> length s_Groups then s_Result
      else if l_Index = s_MaxZeroStart then
        compress_zeros s_Groups s_MaxZeroStart s_MaxZeroLength (l_Index + (s_MaxZeroLength - 1) + 1) (s_Result @ ''::'')
      else
        compress_zeros s_Groups s_MaxZeroStart s_MaxZeroLength (l_Index + 1)
          ((if s_Result \<noteq> [] \<and> \<not> (length s_Result \<ge> 2 \<and> s_Result ! (length s_Result - 1) = CHR '':'' \<and>
                s_Result ! (length s_Result - 2) = CHR '':'') then s_Result @ '':'' else s_Result)
            @ s_Groups ! l_Index))"
  by pat_completeness auto
termination
  by (relation "measure (\<lambda>(gs, s, n, i, r). length gs - i)") auto

declare compress_zeros.simps [simp del]

definition LocalDns_SimplifyIpv6 :: "string \<Rightarrow> string" where
  "LocalDns_SimplifyIpv6 p_Input =
     (let s_Groups = map strip_zeros (segments CHR '':'' p_Input);
          (s_MaxZeroStart, s_MaxZeroLength) = zero_runs s_Groups 0 (0, 0) (0, 0)
      in if s_MaxZeroLength < 2 then join_with CHR '':'' s_Groups
         else compress_zeros s_Groups s_MaxZeroStart s_MaxZeroLength 0 [])"

section \<open>Looking up one record\<close>

definition IsForwardValue :: "'j json \<Rightarrow> 'j \<Rightarrow> bool" where
  "IsForwardValue js p_Value \<longleftrightarrow> json_is_string js p_Value \<and> json_string js p_Value = Some ''{{FORWARD}}''"

text \<open>The last two labels of a name and the labels before them, or \<open>None\<close> if there are not two.\<close>

definition lookup_split :: "string \<Rightarrow> (string \<times> string) option" where
  "lookup_split s_Domain =
     (let s_Parts = segments CHR ''.'' s_Domain; n = length s_Parts
      in if n < 2 then None
         else Some (s_Parts ! (n - 2) @ ''.'' @ s_Parts ! (n - 1), dot_joined (take (n - 2) s_Parts)))"

text \<open>The key \<^verbatim>\<open>"\\*"\<close>: a backslash and an asterisk.\<close>

definition wildcard_key :: string where "wildcard_key = [CHR 0x5C, CHR ''*'']"

text \<open>The value for a subdomain in the items of one record type; \<open>None\<close> also for a value that is to be forwarded.\<close>

definition lookup_records ::
  "'j json \<Rightarrow> 'r regex_engine \<Rightarrow> 'j \<Rightarrow> string \<Rightarrow> 'r regex_cache \<Rightarrow> ('j option, 'r) cached" where
  "lookup_records js eng s_Records s_SubDomain cache =
     (let local = (\<lambda>v. if IsForwardValue js v then None else Some v)
      in if s_SubDomain = [] then
           Some (if json_contains js s_Records ''@'' then local (json_at js s_Records ''@'') else None, cache)
         else case first_match eng (\<lambda>_. False) s_SubDomain (json_items js s_Records) cache of
             None \<Rightarrow> None
           | Some (Some l_Value, cache) \<Rightarrow> Some (local l_Value, cache)
           | Some (None, cache) \<Rightarrow>
               Some (if json_contains js s_Records wildcard_key then local (json_at js s_Records wildcard_key)
                     else None, cache))"

definition LocalDns_LookupLocalRecord ::
  "'j json \<Rightarrow> 'r regex_engine \<Rightarrow> 'j \<Rightarrow> string \<Rightarrow> string \<Rightarrow> 'r regex_cache \<Rightarrow> ('j option, 'r) cached" where
  "LocalDns_LookupLocalRecord js eng s_Zones p_Domain p_RecordType cache =
     (if p_Domain = [] \<or> p_RecordType = [] then Some (None, cache)
      else
        let s_Domain = (if last p_Domain = CHR ''.'' then butlast p_Domain else p_Domain) in
        if s_Domain = [] then Some (None, cache)
        else case lookup_split s_Domain of
            None \<Rightarrow> Some (None, cache)
          | Some (s_RootDomain, s_SubDomain) \<Rightarrow>
              if \<not> json_contains js s_Zones s_RootDomain then Some (None, cache)
              else
                let s_DomainConfig = json_at js s_Zones s_RootDomain in
                if \<not> json_is_object js s_DomainConfig \<or> \<not> json_contains js s_DomainConfig p_RecordType
                then Some (None, cache)
                else if \<not> json_is_object js (json_at js s_DomainConfig p_RecordType) then Some (None, cache)
                else lookup_records js eng (json_at js s_DomainConfig p_RecordType) s_SubDomain cache)"

section \<open>Answering a query\<close>

definition DNS_MAX_CNAME_DEPTH :: nat where "DNS_MAX_CNAME_DEPTH = 8"

definition ExpandAnswerRecords :: "'j json \<Rightarrow> string \<Rightarrow> 'j \<Rightarrow> string \<Rightarrow> 'j AnswerRecord list \<Rightarrow> 'j AnswerRecord list" where
  "ExpandAnswerRecords js p_Type p_Data p_Name p_Answers =
     (if json_is_array js p_Data
      then p_Answers @ map (\<lambda>l_Element. \<lparr>ans_Type = p_Type, ans_Data = l_Element, ans_Name = p_Name\<rparr>) (json_elements js p_Data)
      else p_Answers @ [\<lparr>ans_Type = p_Type, ans_Data = p_Data, ans_Name = p_Name\<rparr>])"

definition DispatchSingleOrMulti ::
  "'j json \<Rightarrow> int \<Rightarrow> string \<Rightarrow> DnsRequestPacket \<Rightarrow> 'j \<Rightarrow> bytes \<Rightarrow> int emit" where
  "DispatchSingleOrMulti js ttl p_RecordType p_Packet p_Data p_Output =
     (if json_is_array js p_Data then
        DnsResponse_MultiAnswer js ttl p_Packet
          (map (\<lambda>l_Element. \<lparr>ans_Type = p_RecordType, ans_Data = l_Element, ans_Name = []\<rparr>) (json_elements js p_Data)) p_Output
      else DnsResponse_CallResponseFunction js ttl p_RecordType p_Packet p_Data p_Output)"

text \<open>The loop that follows a chain of CNAME records; an exception is a target that is not a string.\<close>

primrec cname_chain ::
  "'j json \<Rightarrow> 'r regex_engine \<Rightarrow> 'j \<Rightarrow> string \<Rightarrow> nat \<Rightarrow> string \<Rightarrow> 'j AnswerRecord list \<Rightarrow> 'r regex_cache \<Rightarrow>
    (cpp_error + 'j AnswerRecord list, 'r) cached" where
  "cname_chain js eng s_Zones s_RecordType 0 s_CurrentTarget s_Answers cache = Some (Inr s_Answers, cache)"
| "cname_chain js eng s_Zones s_RecordType (Suc n) s_CurrentTarget s_Answers cache =
     (case LocalDns_LookupLocalRecord js eng s_Zones s_CurrentTarget ''CNAME'' cache of
        None \<Rightarrow> None
      | Some (Some s_ChainData, cache) \<Rightarrow>
          (case json_string js s_ChainData of
             None \<Rightarrow> Some (Inl Json_type_error, cache)
           | Some target \<Rightarrow>
               cname_chain js eng s_Zones s_RecordType n target
                 (s_Answers @ [\<lparr>ans_Type = ''CNAME'', ans_Data = s_ChainData, ans_Name = s_CurrentTarget\<rparr>]) cache)
      | Some (None, cache) \<Rightarrow>
          if s_RecordType \<noteq> ''*'' then
            (case LocalDns_LookupLocalRecord js eng s_Zones s_CurrentTarget s_RecordType cache of
               None \<Rightarrow> None
             | Some (Some s_ResolvedData, cache) \<Rightarrow>
                 Some (Inr (ExpandAnswerRecords js s_RecordType s_ResolvedData s_CurrentTarget s_Answers), cache)
             | Some (None, cache) \<Rightarrow> Some (Inr s_Answers, cache))
          else Some (Inr s_Answers, cache))"

text \<open>The CNAME target of the queried name itself. Forwarded values are skipped before their pattern is tried.\<close>

definition find_cname ::
  "'j json \<Rightarrow> 'r regex_engine \<Rightarrow> 'j \<Rightarrow> string \<Rightarrow> 'r regex_cache \<Rightarrow> ('j option, 'r) cached" where
  "find_cname js eng s_CnameObj s_SubDomain cache =
     (let entry = (\<lambda>key. if json_contains js s_CnameObj key \<and> \<not> IsForwardValue js (json_at js s_CnameObj key)
                        then Some (json_at js s_CnameObj key) else None)
      in if s_SubDomain = [] then Some (entry ''@'', cache)
         else case first_match eng (IsForwardValue js) s_SubDomain (json_items js s_CnameObj) cache of
             None \<Rightarrow> None
           | Some (Some l_Value, cache) \<Rightarrow> Some (Some l_Value, cache)
           | Some (None, cache) \<Rightarrow> Some (entry wildcard_key, cache))"

definition s_AnyTypes :: "string list" where
  "s_AnyTypes = [''A'', ''AAAA'', ''CNAME'', ''NS'', ''MX'', ''TXT'', ''SRV'', ''SOA'']"

text \<open>The records that one type contributes to the answer of an ANY query.\<close>

definition any_records ::
  "'j json \<Rightarrow> 'r regex_engine \<Rightarrow> string \<Rightarrow> 'j \<Rightarrow> string \<Rightarrow> 'j AnswerRecord list \<Rightarrow> 'r regex_cache \<Rightarrow>
    ('j AnswerRecord list, 'r) cached" where
  "any_records js eng l_Type s_Records s_SubDomain s_Answers cache =
     (let expand = (\<lambda>v. if IsForwardValue js v then s_Answers else ExpandAnswerRecords js l_Type v [] s_Answers);
          entry = (\<lambda>key. if json_contains js s_Records key then expand (json_at js s_Records key) else s_Answers)
      in if s_SubDomain = [] then Some (entry ''@'', cache)
         else case first_match eng (\<lambda>_. False) s_SubDomain (json_items js s_Records) cache of
             None \<Rightarrow> None
           | Some (Some l_Value, cache) \<Rightarrow> Some (expand l_Value, cache)
           | Some (None, cache) \<Rightarrow> Some (entry wildcard_key, cache))"

primrec any_loop ::
  "'j json \<Rightarrow> 'r regex_engine \<Rightarrow> 'j \<Rightarrow> string \<Rightarrow> string list \<Rightarrow> 'j AnswerRecord list \<Rightarrow> 'r regex_cache \<Rightarrow>
    ('j AnswerRecord list, 'r) cached" where
  "any_loop js eng s_DomainConfig s_SubDomain [] s_Answers cache = Some (s_Answers, cache)"
| "any_loop js eng s_DomainConfig s_SubDomain (l_Type # types) s_Answers cache =
     (if \<not> json_contains js s_DomainConfig l_Type \<or> \<not> json_is_object js (json_at js s_DomainConfig l_Type)
      then any_loop js eng s_DomainConfig s_SubDomain types s_Answers cache
      else case any_records js eng l_Type (json_at js s_DomainConfig l_Type) s_SubDomain s_Answers cache of
          None \<Rightarrow> None
        | Some (s_Answers, cache) \<Rightarrow> any_loop js eng s_DomainConfig s_SubDomain types s_Answers cache)"

text \<open>\<^verbatim>\<open>CheckLocalMatch\<close> ignores the result of the builder that it calls and returns 0; an exception of the builder
  is caught and becomes \<open>-1\<close>. Either way the builder may have written to the output.\<close>

definition answered :: "'a emit \<Rightarrow> int \<times> bytes" where
  "answered r = (case r of (Inl _, p_Output) \<Rightarrow> (-1, p_Output) | (Inr _, p_Output) \<Rightarrow> (0, p_Output))"

definition ptr_match ::
  "'j json \<Rightarrow> int \<Rightarrow> 'j \<Rightarrow> DnsParser \<Rightarrow> bytes \<Rightarrow> int \<times> bytes" where
  "ptr_match js ttl s_DomainConfig p_Parser p_Output =
     (let reply = (\<lambda>s_FormattedSubDomain.
            if json_contains js s_DomainConfig s_FormattedSubDomain then
              answered (DnsResponse_CallResponseFunction js ttl ''PTR'' (prs_Packet p_Parser)
                (json_at js s_DomainConfig s_FormattedSubDomain) p_Output)
            else (-1, p_Output))
      in if prs_RootDomain p_Parser = ''in-addr.arpa'' then reply (LocalDns_ReverseIpv4Components (prs_SubDomain p_Parser))
         else if prs_RootDomain p_Parser = ''ip6.arpa'' then
           reply (LocalDns_SimplifyIpv6 (LocalDns_ReverseIpv6Components (prs_SubDomain p_Parser)))
         else (-1, p_Output))"

definition any_match ::
  "'j json \<Rightarrow> 'r regex_engine \<Rightarrow> int \<Rightarrow> 'j \<Rightarrow> DnsParser \<Rightarrow> bytes \<Rightarrow> 'r regex_cache \<Rightarrow> (int \<times> bytes, 'r) cached" where
  "any_match js eng ttl s_DomainConfig p_Parser p_Output cache =
     (case any_loop js eng s_DomainConfig (prs_SubDomain p_Parser) s_AnyTypes [] cache of
        None \<Rightarrow> None
      | Some (s_Answers, cache) \<Rightarrow>
          Some (if s_Answers = [] then (-1, p_Output)
                else answered (DnsResponse_MultiAnswer js ttl (prs_Packet p_Parser) s_Answers p_Output), cache))"

definition type_match ::
  "'j json \<Rightarrow> 'r regex_engine \<Rightarrow> int \<Rightarrow> 'j \<Rightarrow> DnsParser \<Rightarrow> string \<Rightarrow> bytes \<Rightarrow> 'r regex_cache \<Rightarrow> (int \<times> bytes, 'r) cached" where
  "type_match js eng ttl s_DomainConfig p_Parser s_RecordType p_Output cache =
     (if \<not> json_contains js s_DomainConfig s_RecordType \<or> \<not> json_is_object js (json_at js s_DomainConfig s_RecordType)
      then Some ((-1, p_Output), cache)
      else case lookup_records js eng (json_at js s_DomainConfig s_RecordType) (prs_SubDomain p_Parser) cache of
          None \<Rightarrow> None
        | Some (None, cache) \<Rightarrow> Some ((-1, p_Output), cache)
        | Some (Some v, cache) \<Rightarrow>
            Some (answered (DispatchSingleOrMulti js ttl s_RecordType (prs_Packet p_Parser) v p_Output), cache))"

definition cname_match ::
  "'j json \<Rightarrow> 'r regex_engine \<Rightarrow> int \<Rightarrow> 'j \<Rightarrow> DnsParser \<Rightarrow> string \<Rightarrow> 'j \<Rightarrow> bytes \<Rightarrow> 'r regex_cache \<Rightarrow> (int \<times> bytes, 'r) cached" where
  "cname_match js eng ttl s_Zones p_Parser s_RecordType s_CnameTarget p_Output cache =
     (case json_string js s_CnameTarget of
        None \<Rightarrow> Some ((-1, p_Output), cache)
      | Some s_CurrentTarget \<Rightarrow>
          (case cname_chain js eng s_Zones s_RecordType DNS_MAX_CNAME_DEPTH s_CurrentTarget
              [\<lparr>ans_Type = ''CNAME'', ans_Data = s_CnameTarget, ans_Name = []\<rparr>] cache of
             None \<Rightarrow> None
           | Some (Inl e, cache) \<Rightarrow> Some ((-1, p_Output), cache)
           | Some (Inr s_Answers, cache) \<Rightarrow>
               Some (answered (DnsResponse_MultiAnswer js ttl (prs_Packet p_Parser) s_Answers p_Output), cache)))"

definition LocalDns_CheckLocalMatch ::
  "'j json \<Rightarrow> 'r regex_engine \<Rightarrow> int \<Rightarrow> 'j \<Rightarrow> DnsParser \<Rightarrow> bytes \<Rightarrow> 'r regex_cache \<Rightarrow> (int \<times> bytes, 'r) cached" where
  "LocalDns_CheckLocalMatch js eng ttl s_Zones p_Parser p_Output cache =
     (let s_RootDomain = prs_RootDomain p_Parser; s_RecordType = DnsParser_RecordType p_Parser;
          forward = Some ((-1, p_Output), cache)
      in if s_RootDomain = [] \<or> s_RecordType = [] \<or> \<not> json_contains js s_Zones s_RootDomain then forward
         else
           let s_DomainConfig = json_at js s_Zones s_RootDomain in
           if json_is_string js s_DomainConfig \<and> json_string js s_DomainConfig = Some ''{{BLOCKED}}'' then
             Some (answered (DnsResponse_CallResponseFunction js ttl ''NXDOMAIN'' (prs_Packet p_Parser)
               (json_of_string js s_RootDomain) p_Output), cache)
           else if \<not> json_is_object js s_DomainConfig then forward
           else if s_RecordType = ''PTR'' then Some (ptr_match js ttl s_DomainConfig p_Parser p_Output, cache)
           else
             let rest = (\<lambda>cache.
               if s_RecordType = ''*'' then any_match js eng ttl s_DomainConfig p_Parser p_Output cache
               else type_match js eng ttl s_DomainConfig p_Parser s_RecordType p_Output cache)
             in if s_RecordType \<noteq> ''CNAME'' \<and> json_contains js s_DomainConfig ''CNAME'' then
                  (case find_cname js eng (json_at js s_DomainConfig ''CNAME'') (prs_SubDomain p_Parser) cache of
                     None \<Rightarrow> None
                   | Some (Some s_CnameTarget, cache) \<Rightarrow>
                       cname_match js eng ttl s_Zones p_Parser s_RecordType s_CnameTarget p_Output cache
                   | Some (None, cache) \<Rightarrow> rest cache)
                else rest cache)"

section \<open>Lemmas: the cache is transparent\<close>

text \<open>Every entry holds what its pattern compiles to; a cache is ready when no entry is null.\<close>

definition cache_ok :: "'r regex_engine \<Rightarrow> 'r regex_cache \<Rightarrow> bool" where
  "cache_ok eng cache \<longleftrightarrow> length cache \<le> DNS_REGEX_CACHE_SIZE \<and> distinct (map fst cache) \<and>
     (\<forall>(p, e)\<in>set cache. e = rx_compile eng p)"

definition ready :: "'r regex_engine \<Rightarrow> 'r regex_cache \<Rightarrow> bool" where
  "ready eng cache \<longleftrightarrow> cache_ok eng cache \<and> None \<notin> snd ` set cache"

definition pattern_matches :: "'r regex_engine \<Rightarrow> string \<Rightarrow> string \<Rightarrow> bool" where
  "pattern_matches eng p s \<longleftrightarrow> (case rx_compile eng p of None \<Rightarrow> False | Some r \<Rightarrow> rx_match eng r s = Some True)"

definition yields :: "'r regex_engine \<Rightarrow> ('a, 'r) cached \<Rightarrow> 'a \<Rightarrow> bool" where
  "yields eng r v \<longleftrightarrow> (\<exists>cache. r = Some (v, cache) \<and> ready eng cache)"

lemma ready_Nil [simp]: "ready eng []"
  by (simp add: ready_def cache_ok_def)

lemma cache_evict: "cache_ok eng cache \<Longrightarrow>
    cache_ok eng (if DNS_REGEX_CACHE_SIZE \<le> length cache then [] else cache) \<and>
    length (if DNS_REGEX_CACHE_SIZE \<le> length cache then [] else cache) < DNS_REGEX_CACHE_SIZE"
  by (simp add: cache_ok_def DNS_REGEX_CACHE_SIZE_def)

lemma cache_add:
  "cache_ok eng cache \<Longrightarrow> length cache < DNS_REGEX_CACHE_SIZE \<Longrightarrow> map_of cache p = None \<Longrightarrow>
    cache_ok eng ((p, rx_compile eng p) # cache)"
  by (auto simp: cache_ok_def map_of_eq_None_iff)

lemma SafeRegexMatch_result:
  assumes "cache_ok eng cache"
  shows "case LocalDns_SafeRegexMatch eng cache s p of
      None \<Rightarrow> map_of cache p = Some None
    | Some (b, cache') \<Rightarrow> b = pattern_matches eng p s \<and> cache_ok eng cache' \<and> map_of cache' p = Some (rx_compile eng p) \<and>
        length cache' \<le> length cache + 1"
proof -
  let ?cache = "if DNS_REGEX_CACHE_SIZE \<le> length cache then [] else cache"
  note evict = cache_evict [OF assms]
  have b: "(case rx_match eng r s of Some b \<Rightarrow> b | None \<Rightarrow> False) = (rx_match eng r s = Some True)" for r
    by (cases "rx_match eng r s") auto
  have len: "length ?cache \<le> length cache" by simp
  show ?thesis
  proof (cases "map_of ?cache p")
    case None
    then have "cache_ok eng ((p, rx_compile eng p) # ?cache)" using evict cache_add by blast
    with None len show ?thesis
      by (cases "rx_compile eng p"; simp only: LocalDns_SafeRegexMatch_def Let_def option.case prod.case b
          pattern_matches_def map_of.simps fst_conv snd_conv fun_upd_same list.size; simp)
  next
    case (Some e)
    then have "e = rx_compile eng p" using evict map_of_SomeD [OF Some] by (auto simp only: cache_ok_def)
    moreover have "map_of cache p = Some e" using Some by (auto split: if_splits)
    ultimately show ?thesis
      using Some evict len
      by (cases "rx_compile eng p"; simp only: LocalDns_SafeRegexMatch_def Let_def option.case prod.case b
          pattern_matches_def; simp)
  qed
qed

lemma SafeRegexMatch_ready:
  assumes "ready eng cache" and "rx_compile eng p \<noteq> None"
  shows "yields eng (LocalDns_SafeRegexMatch eng cache s p) (pattern_matches eng p s)"
proof (cases "LocalDns_SafeRegexMatch eng cache s p")
  case None
  then have "(p, None) \<in> set cache"
    using assms SafeRegexMatch_result [of eng cache, where p = p and s = s] by (auto simp: ready_def dest: map_of_SomeD)
  then show ?thesis using assms by (force simp: ready_def)
next
  case (Some r)
  obtain b cache' where r: "r = (b, cache')" by (cases r)
  have "None \<notin> snd ` set cache'"
    using Some assms unfolding r LocalDns_SafeRegexMatch_def Let_def
    by (auto simp: ready_def split: if_splits option.splits)
  then show ?thesis
    using Some r assms SafeRegexMatch_result [of eng cache, where p = p and s = s] by (auto simp: yields_def ready_def)
qed

lemma first_match_ready:
  "ready eng cache \<Longrightarrow> \<forall>(k, v)\<in>set items. rx_compile eng k \<noteq> None \<Longrightarrow>
   yields eng (first_match eng skip s items cache)
     (map_option snd (find (\<lambda>(k, v). \<not> skip v \<and> pattern_matches eng k s) items))"
proof (induction items arbitrary: cache)
  case (Cons item items)
  obtain k v where item: "item = (k, v)" by (cases item)
  then obtain cache' where m: "LocalDns_SafeRegexMatch eng cache s k = Some (pattern_matches eng k s, cache')" "ready eng cache'"
    using SafeRegexMatch_ready [of eng cache k s] Cons.prems by (auto simp: yields_def)
  then show ?case using Cons item by (auto simp: yields_def)
qed (simp add: yields_def)

text \<open>A computation is pure if every ready cache gives the same value and stays ready.\<close>

definition pure :: "'r regex_engine \<Rightarrow> ('r regex_cache \<Rightarrow> ('a, 'r) cached) \<Rightarrow> bool" where
  "pure eng f \<longleftrightarrow> (\<exists>v. \<forall>cache. ready eng cache \<longrightarrow> yields eng (f cache) v)"

lemma pureI: "(\<And>cache. ready eng cache \<Longrightarrow> yields eng (f cache) v) \<Longrightarrow> pure eng f"
  by (auto simp: pure_def)

lemma pure_return [intro]: "pure eng (\<lambda>cache. Some (v, cache))"
  by (rule pureI) (simp add: yields_def)

lemma pure_bind [intro]:
  assumes "pure eng f" and "\<And>v. pure eng (g v)"
  shows "pure eng (\<lambda>cache. case f cache of None \<Rightarrow> None | Some (v, cache') \<Rightarrow> g v cache')"
proof -
  from assms(1) obtain v where v: "\<And>cache. ready eng cache \<Longrightarrow> yields eng (f cache) v" by (auto simp: pure_def)
  from assms(2) [of v] obtain w where w: "\<And>cache. ready eng cache \<Longrightarrow> yields eng (g v cache) w" by (auto simp: pure_def)
  show ?thesis by (rule pureI [of _ _ w]) (use v w in \<open>fastforce simp: yields_def\<close>)
qed

lemma pure_if [intro]: "(c \<Longrightarrow> pure eng f) \<Longrightarrow> (\<not> c \<Longrightarrow> pure eng g) \<Longrightarrow> pure eng (\<lambda>cache. if c then f cache else g cache)"
  by (cases c) auto

lemma pure_case_option [intro]:
  "pure eng f \<Longrightarrow> (\<And>x. pure eng (g x)) \<Longrightarrow> pure eng (\<lambda>cache. case v of None \<Rightarrow> f cache | Some x \<Rightarrow> g x cache)"
  by (cases v) auto

lemma pure_case_sum [intro]:
  "(\<And>e. pure eng (f e)) \<Longrightarrow> (\<And>x. pure eng (g x)) \<Longrightarrow> pure eng (\<lambda>cache. case v of Inl e \<Rightarrow> f e cache | Inr x \<Rightarrow> g x cache)"
  by (cases v) auto

definition valid_items :: "'r regex_engine \<Rightarrow> (string \<times> 'j) list \<Rightarrow> bool" where
  "valid_items eng items \<longleftrightarrow> (\<forall>(k, v)\<in>set items. rx_compile eng k \<noteq> None)"

text \<open>Every subdomain key of every record type of every zone compiles.\<close>

definition valid_patterns :: "'j json \<Rightarrow> 'r regex_engine \<Rightarrow> 'j \<Rightarrow> bool" where
  "valid_patterns js eng zones \<longleftrightarrow> (\<forall>root t. json_contains js zones root \<longrightarrow>
     json_contains js (json_at js zones root) t \<longrightarrow>
     valid_items eng (json_items js (json_at js (json_at js zones root) t)))"

lemma pure_first_match [intro]: "valid_items eng items \<Longrightarrow> pure eng (first_match eng skip s items)"
  by (rule pureI) (use first_match_ready in \<open>fastforce simp: valid_items_def\<close>)

lemma pure_lookup_records:
  "valid_items eng (json_items js records) \<Longrightarrow> pure eng (lookup_records js eng records s)"
  unfolding lookup_records_def Let_def by (intro pure_if pure_return pure_bind pure_first_match pure_case_option)

lemma pure_LookupLocalRecord:
  assumes "valid_patterns js eng zones"
  shows "pure eng (LocalDns_LookupLocalRecord js eng zones d t)"
proof -
  have "pure eng (\<lambda>cache. if \<not> json_contains js zones root then Some (None, cache)
      else if \<not> json_is_object js (json_at js zones root) \<or> \<not> json_contains js (json_at js zones root) t
      then Some (None, cache)
      else if \<not> json_is_object js (json_at js (json_at js zones root) t) then Some (None, cache)
      else lookup_records js eng (json_at js (json_at js zones root) t) sub cache)" for root sub
    using assms unfolding valid_patterns_def
    by (intro pure_if pure_return pure_lookup_records) blast
  then show ?thesis
    unfolding LocalDns_LookupLocalRecord_def Let_def
    by (intro pure_if pure_return pure_case_option) (auto split: option.split prod.split)
qed

lemma pure_cname_chain:
  "valid_patterns js eng zones \<Longrightarrow> pure eng (cname_chain js eng zones t n target rs)"
proof (induction n arbitrary: target rs)
  case (Suc n)
  show ?case
    unfolding cname_chain.simps
    by (intro pure_bind pure_LookupLocalRecord pure_if pure_case_option pure_return Suc)
qed (simp add: pure_def yields_def)

lemma pure_any_loop:
  assumes "\<And>t. json_contains js z t \<Longrightarrow> valid_items eng (json_items js (json_at js z t))"
  shows "pure eng (any_loop js eng z sub ts rs)"
proof (induction ts arbitrary: rs)
  case (Cons t ts)
  then show ?case
    using assms unfolding any_loop.simps any_records_def Let_def
    by (intro pure_if pure_bind pure_return pure_case_option pure_first_match) simp_all
qed (simp add: pure_def yields_def)

lemma pure_CheckLocalMatch:
  assumes v: "valid_patterns js eng zones"
  shows "pure eng (LocalDns_CheckLocalMatch js eng ttl zones p out)"
proof -
  have items: "valid_items eng (json_items js (json_at js (json_at js zones root) t))"
    if "json_contains js zones root" "json_contains js (json_at js zones root) t" for root t
    using v that by (simp add: valid_patterns_def)
  show ?thesis
    unfolding LocalDns_CheckLocalMatch_def Let_def any_match_def type_match_def cname_match_def find_cname_def
    by (intro pure_if pure_bind pure_return pure_case_option pure_case_sum pure_first_match pure_lookup_records
        pure_cname_chain pure_any_loop v items) auto
qed

section \<open>Lemmas: names\<close>

lemma segments_join: "ls \<noteq> [] \<Longrightarrow> \<forall>l\<in>set ls. c \<notin> set l \<Longrightarrow> segments c (join_with c ls) = ls"
  by (simp add: segments_def split_on_join)

lemma dot_joined_join:
  assumes "\<forall>l\<in>set ls. l \<noteq> []"
  shows "dot_joined ls = join_with CHR ''.'' ls"
proof -
  have loop: "s \<noteq> [] \<Longrightarrow> foldl (\<lambda>s part. (if s \<noteq> [] then s @ ''.'' else s) @ part) s ps =
      (if ps = [] then s else s @ CHR ''.'' # join_with CHR ''.'' ps)" for s ps
    by (induction ps arbitrary: s) (auto simp: join_with_Cons)
  show ?thesis
    using assms loop [of "hd ls" "tl ls"] by (cases ls) (auto simp: dot_joined_def join_with_Cons)
qed

definition name_labels :: "string list \<Rightarrow> bool" where
  "name_labels ls \<longleftrightarrow> (\<forall>l\<in>set ls. l \<noteq> [] \<and> CHR ''.'' \<notin> set l)"

lemma zone_labels_name: "zone_labels ls \<Longrightarrow> name_labels ls"
  by (auto simp: zone_labels_def name_labels_def list_all_iff)

lemma CacheDomainParts_split:
  assumes "zone_labels (m_Qname q)" and "req_Questions (prs_Packet p) = [q]" and "prs_SubDomain p = []"
  shows "DnsParser_CacheDomainParts p =
    (let ls = m_Qname q in p\<lparr>prs_Domain := join_with CHR ''.'' ls,
       prs_RootDomain := join_with CHR ''.'' (drop (length ls - 2) ls),
       prs_SubDomain := join_with CHR ''.'' (take (length ls - 2) ls)\<rparr>)"
  using assms root_of_labels [of "m_Qname q"] sub_of_labels [of "m_Qname q"]
  by (simp add: DnsParser_CacheDomainParts_def Let_def QnameAsString_join cong: option.case_cong)

lemma lookup_split_join:
  assumes "name_labels ls" and "2 \<le> length ls"
  shows "lookup_split (join_with CHR ''.'' ls) =
    Some (join_with CHR ''.'' (drop (length ls - 2) ls), join_with CHR ''.'' (take (length ls - 2) ls))"
proof -
  let ?n = "length ls - 2"
  have "drop ?n ls = [ls ! ?n, ls ! (length ls - 1)]"
    using assms(2) Cons_nth_drop_Suc [of ?n ls] Cons_nth_drop_Suc [of "length ls - 1" ls]
    by (simp add: Suc_diff_Suc numeral_2_eq_2)
  moreover have "dot_joined (take ?n ls) = join_with CHR ''.'' (take ?n ls)"
    using assms(1) by (intro dot_joined_join) (auto simp: name_labels_def dest: in_set_takeD)
  moreover have "segments CHR ''.'' (join_with CHR ''.'' ls) = ls"
    using assms by (intro segments_join) (auto simp: name_labels_def)
  ultimately show ?thesis using assms(2) by (simp add: lookup_split_def Let_def)
qed

lemma ReverseIpv4_join:
  assumes "name_labels ls" and "ls \<noteq> []"
  shows "LocalDns_ReverseIpv4Components (join_with CHR ''.'' ls) = join_with CHR ''.'' (rev ls)"
proof -
  have "join_with CHR ''.'' ls \<noteq> []" using assms by (auto simp: join_with_eq_Nil name_labels_def)
  moreover have "segments CHR ''.'' (join_with CHR ''.'' ls) = ls"
    using assms by (intro segments_join) (auto simp: name_labels_def)
  moreover have "dot_joined (rev ls) = join_with CHR ''.'' (rev ls)"
    using assms by (intro dot_joined_join) (auto simp: name_labels_def)
  ultimately show ?thesis by (simp add: LocalDns_ReverseIpv4Components_def)
qed

section \<open>Lemmas: IPv6 text\<close>

lemma ipv6_text_groups_nibbles:
  "ipv6_text_groups (map (\<lambda>c. [c]) cs) = (if cs = [] then [] else take 4 cs # ipv6_text_groups (map (\<lambda>c. [c]) (drop 4 cs)))"
proof -
  have "concat (map (\<lambda>c. [c]) xs) = xs" for xs :: string by (induction xs) auto
  then show ?thesis by (subst ipv6_text_groups.simps) (simp add: take_map drop_map)
qed

text \<open>The longest run that the scan reports consists of zero groups.\<close>

definition zero_run :: "string list \<Rightarrow> nat \<times> nat \<Rightarrow> bool" where
  "zero_run gs r \<longleftrightarrow> fst r + snd r \<le> length gs \<and> (\<forall>i. fst r \<le> i \<and> i < fst r + snd r \<longrightarrow> gs ! i = ''0'')"

lemma zero_runs_zero:
  assumes "zero_run (pre @ gs) mx" and "snd cur > 0 \<Longrightarrow> zero_run pre cur \<and> fst cur + snd cur = length pre"
    and "snd mx = 0 \<Longrightarrow> mx = (0, 0)"
  shows "zero_run (pre @ gs) (zero_runs gs (length pre) mx cur)"
  using assms
proof (induction gs arbitrary: pre mx cur)
  case Nil
  then show ?case by auto
next
  case (Cons g gs)
  have keep: "zero_run (pre @ g # gs) cur" if "snd cur > 0"
    using Cons.prems(2) [OF that] by (auto simp: zero_run_def nth_append)
  show ?case
  proof (cases "g = ''0''")
    case True
    have "zero_run (pre @ [g]) (if snd cur = 0 then length pre else fst cur, snd cur + 1)"
      using Cons.prems(2) True by (auto simp: zero_run_def nth_append less_Suc_eq)
    then show ?thesis
      using Cons.IH [of "pre @ [g]" mx "(if snd cur = 0 then length pre else fst cur, snd cur + 1)"] Cons.prems True
      by auto
  next
    case False
    then show ?thesis
      using Cons.IH [of "pre @ [g]" "if snd cur > snd mx then cur else mx" "(fst cur, 0)"] Cons.prems keep
      by (auto split: if_splits)
  qed
qed

lemma zero_runs_longest: "zero_run gs (zero_runs gs 0 (0, 0) (0, 0))"
  using zero_runs_zero [of "[]" gs "(0, 0)" "(0, 0)"] by (simp add: zero_run_def)

lemma join_last:
  assumes "ls \<noteq> []" "\<forall>g\<in>set ls. g \<noteq> [] \<and> c \<notin> set g"
  shows "last (join_with c ls) \<noteq> c \<and> join_with c ls \<noteq> []"
proof -
  have "last (join_with c ls) = last (last ls)"
    using assms by (induction ls) (auto simp: join_with_Cons join_with_eq_Nil)
  moreover have "last ls \<in> set ls" using assms(1) by simp
  moreover have "last g \<noteq> c" if "g \<noteq> []" "c \<notin> set g" for g using that last_in_set by metis
  ultimately show ?thesis using assms by (auto simp: join_with_eq_Nil)
qed

lemma needs_colon:
  "r \<noteq> [] \<Longrightarrow> last r \<noteq> CHR '':'' \<Longrightarrow>
   (r \<noteq> [] \<and> \<not> (length r \<ge> 2 \<and> r ! (length r - 1) = CHR '':'' \<and> r ! (length r - 2) = CHR '':''))"
  by (auto simp: last_conv_nth)

lemma compress_before:
  "i \<le> s \<Longrightarrow> s < length gs \<Longrightarrow> \<forall>g\<in>set gs. g \<noteq> [] \<and> CHR '':'' \<notin> set g \<Longrightarrow> r = join_with CHR '':'' (take i gs) \<Longrightarrow>
   compress_zeros gs s n i r =
     compress_zeros gs s n (s + (n - 1) + 1) (join_with CHR '':'' (take s gs) @ ''::'')"
proof (induction "s - i" arbitrary: i r)
  case 0
  then show ?case by (subst compress_zeros.simps) simp
next
  case (Suc d)
  have take: "take (Suc i) gs = take i gs @ [gs ! i]" using Suc by (simp add: take_Suc_conv_app_nth)
  have g: "gs ! i \<noteq> []" using Suc by simp
  have "last r \<noteq> CHR '':'' \<and> r \<noteq> []" if "take i gs \<noteq> []"
    unfolding Suc.prems(4) using Suc.prems(3) that by (intro join_last) (auto dest: in_set_takeD)
  moreover have "r = []" if "take i gs = []" using Suc.prems(4) that by simp
  ultimately have sep: "(if r \<noteq> [] \<and> \<not> (length r \<ge> 2 \<and> r ! (length r - 1) = CHR '':'' \<and> r ! (length r - 2) = CHR '':'')
      then r @ '':'' else r) @ gs ! i = join_with CHR '':'' (take (Suc i) gs)"
    using Suc.prems(4) join_with_append [of "take i gs" "[gs ! i]" "CHR '':''"] needs_colon [of r]
    by (cases "take i gs = []") (simp_all only: take if_True, simp_all)
  have "\<not> length gs \<le> i" "i \<noteq> s" using Suc.hyps(2) Suc.prems(2) by auto
  then have "compress_zeros gs s n i r = compress_zeros gs s n (i + 1) (join_with CHR '':'' (take (Suc i) gs))"
    by (subst compress_zeros.simps) (simp only: sep if_False)
  then show ?case using Suc.hyps Suc.prems by simp
qed

lemma compress_after:
  "s < i \<Longrightarrow> \<forall>g\<in>set gs. g \<noteq> [] \<and> CHR '':'' \<notin> set g \<Longrightarrow> r = pre @ ''::'' @ join_with CHR '':'' mid \<Longrightarrow>
   \<forall>g\<in>set mid. g \<noteq> [] \<and> CHR '':'' \<notin> set g \<Longrightarrow>
   compress_zeros gs s n i r = pre @ ''::'' @ join_with CHR '':'' (mid @ drop i gs)"
proof (induction "length gs - i" arbitrary: i r mid)
  case 0
  then show ?case by (subst compress_zeros.simps) simp
next
  case (Suc d)
  have drop: "drop i gs = gs ! i # drop (Suc i) gs" using Suc.hyps(2) by (simp add: Cons_nth_drop_Suc)
  have g: "gs ! i \<in> set gs" using Suc.hyps(2) by simp
  have sep: "(if r \<noteq> [] \<and> \<not> (length r \<ge> 2 \<and> r ! (length r - 1) = CHR '':'' \<and> r ! (length r - 2) = CHR '':'')
      then r @ '':'' else r) = (if mid = [] then r else r @ '':'')"
  proof (cases "mid = []")
    case True
    then show ?thesis using Suc.prems(3) by (simp add: nth_append)
  next
    case False
    then have "last r \<noteq> CHR '':''" "r \<noteq> []"
      using Suc.prems(3,4) join_last [of mid "CHR '':''"] by (auto simp: last_append)
    then show ?thesis using False needs_colon [of r] by (simp only: if_True) simp
  qed
  have step: "(if mid = [] then r else r @ '':'') @ gs ! i = pre @ ''::'' @ join_with CHR '':'' (mid @ [gs ! i])"
    using Suc.prems(3) join_with_append [of mid "[gs ! i]" "CHR '':''"] by auto
  have "\<not> length gs \<le> i" "i \<noteq> s" using Suc.hyps(2) Suc.prems(1) by auto
  then have "compress_zeros gs s n i r = compress_zeros gs s n (i + 1) (pre @ ''::'' @ join_with CHR '':'' (mid @ [gs ! i]))"
    by (subst compress_zeros.simps) (simp only: sep step if_False)
  then show ?case
    using Suc.hyps Suc.prems g drop Suc.hyps(1) [of "i + 1" _ "mid @ [gs ! i]"] by simp
qed

definition ipv6_text_ok :: "string list \<Rightarrow> bool" where
  "ipv6_text_ok gs \<longleftrightarrow> (\<forall>g\<in>set gs. g \<noteq> [] \<and> CHR '':'' \<notin> set g)"

lemma SimplifyIpv6_join:
  assumes "ipv6_text_ok (map strip_zeros gs)" and "gs \<noteq> []" and "\<forall>g\<in>set gs. CHR '':'' \<notin> set g"
    and "zero_runs (map strip_zeros gs) 0 (0, 0) (0, 0) = (s, n)"
  shows "LocalDns_SimplifyIpv6 (join_with CHR '':'' gs) =
    (let hs = map strip_zeros gs in
     if n < 2 then join_with CHR '':'' hs
     else join_with CHR '':'' (take s hs) @ ''::'' @ join_with CHR '':'' (drop (s + n) hs))"
proof (cases "n < 2")
  case True
  then show ?thesis using assms by (simp add: LocalDns_SimplifyIpv6_def segments_join)
next
  case False
  let ?hs = "map strip_zeros gs"
  have run: "s + n \<le> length ?hs" using zero_runs_longest [of ?hs] assms(4) by (simp add: zero_run_def)
  then have "compress_zeros ?hs s n 0 [] = compress_zeros ?hs s n (s + n) (join_with CHR '':'' (take s ?hs) @ ''::'')"
    using compress_before [of 0 s ?hs "[]" n] False assms(1) by (simp add: ipv6_text_ok_def)
  also have "\<dots> = join_with CHR '':'' (take s ?hs) @ ''::'' @ join_with CHR '':'' ([] @ drop (s + n) ?hs)"
    using False assms(1) by (intro compress_after) (simp_all add: ipv6_text_ok_def)
  finally show ?thesis using assms False by (simp add: LocalDns_SimplifyIpv6_def segments_join)
qed

lemma SplitByColon_join: "ipv6_text_ok gs \<Longrightarrow> SplitByColon (join_with CHR '':'' gs) = gs"
proof (cases "gs = []")
  case False
  assume "ipv6_text_ok gs"
  moreover from this False have "split_on CHR '':'' (join_with CHR '':'' gs) = (butlast gs, last gs)"
    by (intro split_on_join) (auto simp: ipv6_text_ok_def)
  ultimately show ?thesis using False by (auto simp: SplitByColon_def join_with_eq_Nil ipv6_text_ok_def)
qed (simp add: SplitByColon_def)

lemma split_double_colon_at:
  "ipv6_text_ok gs \<Longrightarrow> split_double_colon (join_with CHR '':'' gs @ ''::'' @ r) = Some (join_with CHR '':'' gs, r)"
proof (induction gs)
  case (Cons g gs)
  show ?case
  proof (cases "gs = []")
    case True
    then show ?thesis using Cons.prems split_double_colon_no_colon [of g "''::'' @ r"] by (simp add: ipv6_text_ok_def)
  next
    case False
    let ?t = "join_with CHR '':'' gs @ ''::'' @ r"
    have "hd ?t \<noteq> CHR '':''"
      using False Cons.prems by (cases gs; cases "hd gs") (auto simp: join_with_Cons ipv6_text_ok_def)
    moreover have "split_double_colon ?t = Some (join_with CHR '':'' gs, r)" using Cons by (simp add: ipv6_text_ok_def)
    ultimately have "split_double_colon (CHR '':'' # ?t) = Some (CHR '':'' # join_with CHR '':'' gs, r)" by simp
    then show ?thesis
      using False Cons.prems split_double_colon_no_colon [of g "CHR '':'' # ?t"]
      by (simp add: join_with_Cons ipv6_text_ok_def)
  qed
qed simp

lemma ipv6_groups_plain: "ipv6_text_ok hs \<Longrightarrow> length hs = 8 \<Longrightarrow> ipv6_groups (join_with CHR '':'' hs) = Some hs"
  using split_double_colon_join [of hs] SplitByColon_join [of hs]
  by (simp add: ipv6_groups_def ipv6_text_ok_def SplitByColon_def [of "[]"])

lemma ipv6_groups_compressed:
  assumes "ipv6_text_ok hs" "length hs = 8" "zero_run hs (s, n)"
  shows "ipv6_groups (join_with CHR '':'' (take s hs) @ ''::'' @ join_with CHR '':'' (drop (s + n) hs)) = Some hs"
proof -
  have run: "s + n \<le> 8" "\<forall>i. s \<le> i \<and> i < s + n \<longrightarrow> hs ! i = ''0''" using assms by (auto simp: zero_run_def)
  have ok: "ipv6_text_ok (take s hs)" "ipv6_text_ok (drop (s + n) hs)"
    using assms(1) by (auto simp: ipv6_text_ok_def dest: in_set_takeD in_set_dropD)
  have "take s hs @ replicate n ''0'' @ drop (s + n) hs = hs"
    using run assms(2) by (intro nth_equalityI) (auto simp: nth_append)
  then show ?thesis
    using ok run(1) assms(2) split_double_colon_at [OF ok(1)]
    by (auto simp: ipv6_groups_def SplitByColon_join min_def Let_def)
qed

lemma strip_zeros_pad:
  assumes "length g = 4" and "map tolower g = g"
  shows "pad4 (strip_zeros g) = g" and "strip_zeros g \<noteq> []" and "length (strip_zeros g) \<le> 4"
proof -
  have rep: "takeWhile (\<lambda>c. c = CHR ''0'') g = replicate (length (takeWhile (\<lambda>c. c = CHR ''0'') g)) CHR ''0''"
    by (rule replicate_length_same [symmetric]) (auto dest: set_takeWhileD)
  have len: "length (takeWhile (\<lambda>c. c = CHR ''0'') g) + length (dropWhile (\<lambda>c. c = CHR ''0'') g) = length g"
    by (metis length_append takeWhile_dropWhile_id)
  have low: "map tolower (dropWhile (\<lambda>c. c = CHR ''0'') g) = dropWhile (\<lambda>c. c = CHR ''0'') g"
    using assms(2) by (metis dropWhile_eq_drop drop_map)
  show "pad4 (strip_zeros g) = g"
  proof (cases "dropWhile (\<lambda>c. c = CHR ''0'') g = []")
    case True
    then have "g = replicate 4 CHR ''0''" using rep assms(1) by (metis append_Nil2 takeWhile_dropWhile_id)
    then show ?thesis by simp (simp add: strip_zeros_def pad4_def tolower_def isupper_def numeral_eq_Suc)
  next
    case False
    then have "strip_zeros g = dropWhile (\<lambda>c. c = CHR ''0'') g" by (simp only: strip_zeros_def Let_def if_False)
    moreover have "4 - length (dropWhile (\<lambda>c. c = CHR ''0'') g) = length (takeWhile (\<lambda>c. c = CHR ''0'') g)"
      using len assms(1) by simp
    ultimately have "pad4 (strip_zeros g) = replicate (length (takeWhile (\<lambda>c. c = CHR ''0'') g)) CHR ''0''
        @ dropWhile (\<lambda>c. c = CHR ''0'') g"
      by (simp only: pad4_def low)
    also have "\<dots> = takeWhile (\<lambda>c. c = CHR ''0'') g @ dropWhile (\<lambda>c. c = CHR ''0'') g" using rep by simp
    finally show ?thesis by simp
  qed
  show "strip_zeros g \<noteq> []" by (simp add: strip_zeros_def Let_def)
  show "length (strip_zeros g) \<le> 4" using len assms(1) by (simp add: strip_zeros_def Let_def)
qed

lemma nibble_groups:
  assumes "length cs = 4 * k"
  shows "concat (ipv6_text_groups (map (\<lambda>c. [c]) cs)) = cs"
    and "length (ipv6_text_groups (map (\<lambda>c. [c]) cs)) = k"
    and "\<forall>g\<in>set (ipv6_text_groups (map (\<lambda>c. [c]) cs)). length g = 4 \<and> set g \<subseteq> set cs"
  using assms
proof (induction k arbitrary: cs)
  case (Suc k)
  { case 1 then show ?case using Suc(1) [of "drop 4 cs"] by (subst ipv6_text_groups_nibbles) auto
  next case 2 then show ?case using Suc(2) [of "drop 4 cs"] by (subst ipv6_text_groups_nibbles) auto
  next
    case 3
    then have "cs \<noteq> []" "length (take 4 cs) = 4" "length (drop 4 cs) = 4 * k" by auto
    moreover have "\<forall>g\<in>set (ipv6_text_groups (map (\<lambda>c. [c]) (drop 4 cs))). length g = 4 \<and> set g \<subseteq> set cs"
      using Suc(3) [OF calculation(3)] set_drop_subset [of 4 cs] by blast
    ultimately show ?case
      using set_take_subset [of 4 cs] by (subst ipv6_text_groups_nibbles) (simp only: if_False list.set ball_simps simp_thms) }
qed (simp_all add: ipv6_text_groups.simps)

text \<open>A name of 32 nibbles is turned into a text that denotes the same address.\<close>

lemma ip6_name_text:
  assumes "length cs = 32" and "\<forall>c\<in>set cs. tolower c = c \<and> c \<noteq> CHR ''.'' \<and> c \<noteq> CHR '':''"
  shows "\<exists>gs. ipv6_groups (LocalDns_SimplifyIpv6 (LocalDns_ReverseIpv6Components (join_with CHR ''.'' (map (\<lambda>c. [c]) cs)))) = Some gs \<and>
    list_all (\<lambda>g. length g \<le> 4) gs \<and> concat (map pad4 gs) = rev cs"
proof -
  let ?ls = "map (\<lambda>c. [c]) cs"
  let ?gs = "ipv6_text_groups (map (\<lambda>c. [c]) (rev cs))"
  let ?hs = "map strip_zeros ?gs"
  have gs: "concat ?gs = rev cs" "length ?gs = 8" "\<forall>g\<in>set ?gs. length g = 4 \<and> set g \<subseteq> set cs"
    using nibble_groups [of "rev cs" 8] assms(1) by simp_all
  have low: "map tolower g = g" if "g \<in> set ?gs" for g
    using gs(3) assms(2) that by (intro map_idI) blast
  have pad: "map pad4 ?hs = ?gs" using gs(3) low strip_zeros_pad(1) by (simp add: map_idI)
  have short: "list_all (\<lambda>g. length g \<le> 4) ?hs" using gs(3) low strip_zeros_pad(3) by (simp add: list_all_iff)
  have "set (strip_zeros g) \<subseteq> set g \<union> {CHR ''0''}" for g by (auto simp: strip_zeros_def Let_def dest: set_dropWhileD)
  then have colon: "\<forall>g\<in>set ?gs. CHR '':'' \<notin> set g \<and> CHR '':'' \<notin> set (strip_zeros g)" using gs(3) assms(2) by fastforce
  then have ok: "ipv6_text_ok ?hs" using gs(3) low strip_zeros_pad(2) by (auto simp: ipv6_text_ok_def)
  have ne: "?ls \<noteq> []" "?gs \<noteq> []" using assms(1) gs(2) by auto
  have "segments CHR ''.'' (join_with CHR ''.'' ?ls) = ?ls" using assms(2) ne by (intro segments_join) auto
  then have rev6: "LocalDns_ReverseIpv6Components (join_with CHR ''.'' ?ls) = join_with CHR '':'' ?gs"
    using ne(1) by (simp add: LocalDns_ReverseIpv6Components_def join_with_eq_Nil rev_map) (use ne(1) in auto)
  obtain s n where run: "zero_runs ?hs 0 (0, 0) (0, 0) = (s, n)" by (metis surj_pair)
  then have "zero_run ?hs (s, n)" using zero_runs_longest by metis
  then have "ipv6_groups (LocalDns_SimplifyIpv6 (join_with CHR '':'' ?gs)) = Some ?hs"
    using SimplifyIpv6_join [OF ok ne(2) _ run] ipv6_groups_plain [OF ok] ipv6_groups_compressed [OF ok] gs(2) colon
    by (simp add: Let_def)
  then show ?thesis using pad short gs(1) rev6 by auto
qed

section \<open>Lemmas: records\<close>

text \<open>The value that a zone assigns to a subdomain: the apex entry, or the first item whose pattern matches in the
  order of the zone, or the wildcard entry.\<close>

definition zone_value :: "'j json \<Rightarrow> (string \<Rightarrow> string \<Rightarrow> bool) \<Rightarrow> 'j \<Rightarrow> string \<Rightarrow> 'j option" where
  "zone_value js m records sub =
     (let entry = (\<lambda>key. if json_contains js records key then Some (json_at js records key) else None)
      in if sub = [] then entry ''@''
         else case find (\<lambda>(k, v). m k sub) (json_items js records) of
             Some (k, v) \<Rightarrow> Some v
           | None \<Rightarrow> entry wildcard_key)"

lemma type_match_value:
  assumes "ready eng cache" and "json_contains js zone t" and "json_is_object js (json_at js zone t)"
    and "valid_items eng (json_items js (json_at js zone t))"
  shows "\<exists>cache'. ready eng cache' \<and>
    type_match js eng ttl zone p t out cache = Some
      (case zone_value js (pattern_matches eng) (json_at js zone t) (prs_SubDomain p) of
         None \<Rightarrow> (-1, out)
       | Some v \<Rightarrow> if IsForwardValue js v then (-1, out)
                   else answered (DispatchSingleOrMulti js ttl t (prs_Packet p) v out), cache')"
proof (cases "prs_SubDomain p = []")
  case True
  then show ?thesis using assms(1-3) by (auto simp: type_match_def lookup_records_def zone_value_def)
next
  case False
  have "yields eng (first_match eng (\<lambda>_. False) (prs_SubDomain p) (json_items js (json_at js zone t)) cache)
     (map_option snd (find (\<lambda>(k, v). pattern_matches eng k (prs_SubDomain p)) (json_items js (json_at js zone t))))"
    using first_match_ready [OF assms(1), of "json_items js (json_at js zone t)" "\<lambda>_. False" "prs_SubDomain p"] assms(4)
    by (simp add: valid_items_def)
  then show ?thesis
    using False assms(2,3)
    by (auto simp: yields_def type_match_def lookup_records_def zone_value_def Let_def split: option.split)
qed

text \<open>The record that the zones hold for a name and a type, read off the zones without any cache.\<close>

definition local_record :: "'j json \<Rightarrow> 'r regex_engine \<Rightarrow> 'j \<Rightarrow> string \<Rightarrow> string \<Rightarrow> 'j option" where
  "local_record js eng zones name t =
     (case lookup_split (if name \<noteq> [] \<and> last name = CHR ''.'' then butlast name else name) of
        None \<Rightarrow> None
      | Some (root, sub) \<Rightarrow>
          let zone = json_at js zones root in
          if t \<noteq> [] \<and> json_contains js zones root \<and> json_is_object js zone \<and> json_contains js zone t \<and>
             json_is_object js (json_at js zone t)
          then (case zone_value js (pattern_matches eng) (json_at js zone t) sub of
                  None \<Rightarrow> None
                | Some v \<Rightarrow> if IsForwardValue js v then None else Some v)
          else None)"

lemma lookup_records_value:
  assumes "ready eng cache" and "valid_items eng (json_items js records)"
  shows "yields eng (lookup_records js eng records sub cache)
    (case zone_value js (pattern_matches eng) records sub of
       None \<Rightarrow> None | Some v \<Rightarrow> if IsForwardValue js v then None else Some v)"
proof (cases "sub = []")
  case True
  then show ?thesis using assms(1) by (simp add: yields_def lookup_records_def zone_value_def)
next
  case False
  have "yields eng (first_match eng (\<lambda>_. False) sub (json_items js records) cache)
     (map_option snd (find (\<lambda>(k, v). pattern_matches eng k sub) (json_items js records)))"
    using first_match_ready [OF assms(1), of "json_items js records" "\<lambda>_. False" sub] assms(2)
    by (simp add: valid_items_def)
  then show ?thesis
    using False by (auto simp: yields_def lookup_records_def zone_value_def Let_def split: option.split)
qed

lemma LookupLocalRecord_value:
  assumes "valid_patterns js eng zones" and "ready eng cache"
  shows "yields eng (LocalDns_LookupLocalRecord js eng zones name t cache) (local_record js eng zones name t)"
proof -
  let ?s = "if name \<noteq> [] \<and> last name = CHR ''.'' then butlast name else name"
  have none: "yields eng (Some (None, cache)) None" using assms(2) by (simp add: yields_def)
  have empty: "lookup_split [] = None" by code_simp
  show ?thesis
  proof (cases "lookup_split ?s")
    case None
    then have "LocalDns_LookupLocalRecord js eng zones name t cache = Some (None, cache)"
      by (auto simp: LocalDns_LookupLocalRecord_def Let_def)
    then show ?thesis using None none by (simp add: local_record_def)
  next
    case (Some rs)
    obtain root sub where rs: "rs = (root, sub)" by (cases rs)
    have ne: "?s \<noteq> []" "name \<noteq> []" using Some empty by auto
    show ?thesis
    proof (cases "t \<noteq> [] \<and> json_contains js zones root \<and> json_is_object js (json_at js zones root) \<and>
        json_contains js (json_at js zones root) t \<and> json_is_object js (json_at js (json_at js zones root) t)")
      case True
      then have "valid_items eng (json_items js (json_at js (json_at js zones root) t))"
        using assms(1) by (simp add: valid_patterns_def)
      from lookup_records_value [OF assms(2) this] show ?thesis
        using True Some rs ne by (simp add: LocalDns_LookupLocalRecord_def local_record_def Let_def)
    next
      case False
      then have "LocalDns_LookupLocalRecord js eng zones name t cache = Some (None, cache)"
        using Some rs by (auto simp: LocalDns_LookupLocalRecord_def Let_def)
      moreover have "local_record js eng zones name t = None"
        using False Some rs by (auto simp: local_record_def Let_def)
      ultimately show ?thesis using none by simp
    qed
  qed
qed

text \<open>The values that a zone value stands for: the elements of an array, or itself.\<close>

definition zone_elements :: "'j json \<Rightarrow> 'j \<Rightarrow> 'j list" where
  "zone_elements js d = (if json_is_array js d then json_elements js d else [d])"

definition record_list :: "'j json \<Rightarrow> string \<Rightarrow> string \<Rightarrow> 'j \<Rightarrow> 'j AnswerRecord list" where
  "record_list js t owner d = map (\<lambda>x. \<lparr>ans_Type = t, ans_Data = x, ans_Name = owner\<rparr>) (zone_elements js d)"

text \<open>What follows the CNAME of the name asked, if at most \<open>n\<close> further CNAMEs are followed from \<open>owner\<close>, where the zones
  hold \<open>zone\<close>: the CNAME of each target in turn; the chain ends where the bound is reached, or at the first target
  that has no CNAME, and there with all of the target's records of the type asked (none for ANY). A CNAME
  that is not a text breaks the chain (\<open>None\<close>).\<close>

inductive cname_answers ::
  "'j json \<Rightarrow> (string \<Rightarrow> string \<Rightarrow> 'j option) \<Rightarrow> string \<Rightarrow> nat \<Rightarrow> string \<Rightarrow> 'j AnswerRecord list option \<Rightarrow> bool"
  for js zone t where
  bound: "cname_answers js zone t 0 owner (Some [])"
| link: "zone owner ''CNAME'' = Some d \<Longrightarrow> json_string js d = Some target \<Longrightarrow> cname_answers js zone t n target r \<Longrightarrow>
    cname_answers js zone t (Suc n) owner (map_option (Cons \<lparr>ans_Type = ''CNAME'', ans_Data = d, ans_Name = owner\<rparr>) r)"
| broken: "zone owner ''CNAME'' = Some d \<Longrightarrow> json_string js d = None \<Longrightarrow> cname_answers js zone t (Suc n) owner None"
| resolved: "zone owner ''CNAME'' = None \<Longrightarrow> t \<noteq> ''*'' \<Longrightarrow> zone owner t = Some d \<Longrightarrow>
    cname_answers js zone t (Suc n) owner (Some (record_list js t owner d))"
| unresolved: "zone owner ''CNAME'' = None \<Longrightarrow> t = ''*'' \<or> zone owner t = None \<Longrightarrow>
    cname_answers js zone t (Suc n) owner (Some [])"

lemma Expand_records: "ExpandAnswerRecords js t d owner rs = rs @ record_list js t owner d"
  by (simp add: ExpandAnswerRecords_def record_list_def zone_elements_def)

lemma cname_chain_answers:
  assumes "valid_patterns js eng zones"
  shows "ready eng cache \<Longrightarrow> \<exists>r cache'. ready eng cache' \<and> cname_answers js (local_record js eng zones) t n owner r \<and>
    cname_chain js eng zones t n owner rs cache =
      Some (case r of None \<Rightarrow> Inl Json_type_error | Some new \<Rightarrow> Inr (rs @ new), cache')"
proof (induction n arbitrary: owner rs cache)
  case 0
  then show ?case by (auto intro!: exI [of _ "Some []"] cname_answers.bound)
next
  case (Suc n)
  obtain c1 where l: "LocalDns_LookupLocalRecord js eng zones owner ''CNAME'' cache =
      Some (local_record js eng zones owner ''CNAME'', c1)" and c1: "ready eng c1"
    using LookupLocalRecord_value [OF assms Suc.prems, of owner "''CNAME''"] by (auto simp: yields_def)
  show ?case
  proof (cases "local_record js eng zones owner ''CNAME''")
    case (Some d)
    show ?thesis
    proof (cases "json_string js d")
      case None
      then show ?thesis using l c1 Some by (auto intro!: exI [of _ None] cname_answers.broken)
    next
      case target: (Some target)
      let ?rec = "\<lparr>ans_Type = ''CNAME'', ans_Data = d, ans_Name = owner\<rparr>"
      obtain r cache' where "ready eng cache'" "cname_answers js (local_record js eng zones) t n target r"
        "cname_chain js eng zones t n target (rs @ [?rec]) c1 =
          Some (case r of None \<Rightarrow> Inl Json_type_error | Some new \<Rightarrow> Inr ((rs @ [?rec]) @ new), cache')"
        using Suc.IH [OF c1] by blast
      then show ?thesis
        using l Some target cname_answers.link [of "local_record js eng zones" owner d js target t n r]
        by (intro exI [of _ "map_option (Cons ?rec) r"] exI [of _ cache']) (auto split: option.split)
    qed
  next
    case None
    obtain c2 where l2: "LocalDns_LookupLocalRecord js eng zones owner t c1 = Some (local_record js eng zones owner t, c2)"
      and c2: "ready eng c2"
      using LookupLocalRecord_value [OF assms c1, of owner t] by (auto simp: yields_def)
    show ?thesis
    proof (cases "t \<noteq> ''*'' \<and> local_record js eng zones owner t \<noteq> None")
      case True
      then obtain d where d: "local_record js eng zones owner t = Some d" by auto
      with True None l l2 c2 show ?thesis
        by (auto simp: Expand_records intro!: exI [of _ "Some (record_list js t owner d)"] cname_answers.resolved)
    next
      case False
      then show ?thesis
        using None l l2 c1 c2 by (auto intro!: exI [of _ "Some []"] cname_answers.unresolved)
    qed
  qed
qed

lemma RecordTypes_distinct: "distinct (map snd RecordTypes)"
  by code_simp

lemma RecordTypes_name: "map_of RecordTypes q = Some t \<Longrightarrow> t \<notin> set [[], ''NXDOMAIN'', ''NOTIMP'', ''FORMERR'', ''SERVFAIL'', ''REFUSED'']"
proof -
  have names: "list_all (\<lambda>x. snd x \<notin> set [[], ''NXDOMAIN'', ''NOTIMP'', ''FORMERR'', ''SERVFAIL'', ''REFUSED'']) RecordTypes"
    by code_simp
  assume "map_of RecordTypes q = Some t"
  from bspec [OF names [unfolded list_all_iff] map_of_SomeD [OF this]] show ?thesis by (simp only: snd_conv) simp
qed

lemma record_codes:
  "(1, ''A'') \<in> set RecordTypes" "(28, ''AAAA'') \<in> set RecordTypes" "(5, ''CNAME'') \<in> set RecordTypes"
  "(2, ''NS'') \<in> set RecordTypes" "(12, ''PTR'') \<in> set RecordTypes" "(6, ''SOA'') \<in> set RecordTypes"
  "(15, ''MX'') \<in> set RecordTypes" "(16, ''TXT'') \<in> set RecordTypes" "(33, ''SRV'') \<in> set RecordTypes"
  by code_simp+

lemma record_rdata_code:
  assumes "record_rdata js t d = Some (ty, rd)"
  shows "(ty, t) \<in> set RecordTypes"
proof -
  from record_rdata_known [OF assms] consider "t = ''A''" | "t = ''AAAA''" | "t = ''CNAME''" | "t = ''NS''"
    | "t = ''PTR''" | "t = ''SOA''" | "t = ''MX''" | "t = ''TXT''" | "t = ''SRV''"
    unfolding record_types_def by (rule nine_cases)
  then show ?thesis
    by cases (use assms record_codes in \<open>simp_all only: record_rdata_plain\<close>,
      use assms record_codes record_rdata_type [of js d ty rd] in \<open>simp_all only:\<close>, auto)
qed

lemma type_code: "map_of RecordTypes q = Some t \<Longrightarrow> record_rdata js t d = Some (ty, rd) \<Longrightarrow> ty = q"
proof -
  have "x = y" if "distinct (map snd xs)" "(x, t) \<in> set xs" "(y, t) \<in> set xs" for x y :: u16 and t and xs
    using that by (induction xs) (auto simp: image_iff)
  then show "map_of RecordTypes q = Some t \<Longrightarrow> record_rdata js t d = Some (ty, rd) \<Longrightarrow> ty = q"
    using RecordTypes_distinct record_rdata_code map_of_SomeD by metis
qed

text \<open>When every element of a value can be encoded, the builder succeeds and writes one record per element.\<close>

lemma DispatchSingleOrMulti_answers:
  assumes "question_ok p" and "zone_elements js d \<noteq> []" and "length (zone_elements js d) \<le> 65535"
    and "\<forall>x\<in>set (zone_elements js d). record_rdata js t x \<noteq> None"
  shows "\<exists>out. DispatchSingleOrMulti js ttl t p d out0 = (Inr 0, out) \<and>
    DnsResponse_MultiAnswer js ttl p (record_list js t [] d) [] = (Inr 0, out)"
proof -
  let ?rs = "record_list js t [] d" and ?c = "question_class p"
  have "name_ok []" by code_simp
  then have images: "\<forall>r\<in>set ?rs. record_image js ttl ?c r \<noteq> None"
    using assms(4) by (auto simp: record_list_def record_image_def split: option.split)
  let ?out = "answer_start p (of_nat (length ?rs)) @ concat (map (\<lambda>r. the (record_image js ttl ?c r)) ?rs)"
  have multi: "DnsResponse_MultiAnswer js ttl p ?rs o0 = (Inr 0, ?out)" for o0
    using assms(1-3) images by (simp add: MultiAnswer_ok append_answers_ok record_list_def)
  show ?thesis
  proof (cases "json_is_array js d")
    case True
    then have "DispatchSingleOrMulti js ttl t p d out0 = (Inr 0, ?out)"
      using multi [of out0] by (simp add: DispatchSingleOrMulti_def record_list_def zone_elements_def)
    then show ?thesis using multi by blast
  next
    case False
    then have one: "?rs = [\<lparr>ans_Type = t, ans_Data = d, ans_Name = []\<rparr>]"
      by (simp add: record_list_def zone_elements_def)
    have "record_rdata js t d \<noteq> None" using False assms(4) by (simp add: zone_elements_def)
    then have "t \<in> set record_types" using record_rdata_known [of js t d] by auto
    moreover have "DispatchAppendAnswer js ttl t ?c d (answer_start p 1) [] = (Inr 0, ?out)"
      using images DispatchAppendAnswer_image [of js ttl "hd ?rs" ?c "answer_start p 1" ?out] by (auto simp: one)
    ultimately have "DispatchSingleOrMulti js ttl t p d out0 = (Inr 0, ?out)"
      using False assms(1) by (simp add: DispatchSingleOrMulti_def CallResponseFunction_ok)
    then show ?thesis using multi by blast
  qed
qed

section \<open>A concrete zone\<close>

text \<open>An engine whose only patterns are literal texts, and in which a text with a bracket does not compile.\<close>

definition sample_engine :: "string regex_engine" where
  "sample_engine =
     \<lparr>rx_compile = (\<lambda>p. if CHR ''['' \<in> set p then None else Some p), rx_match = (\<lambda>r s. Some (r = s))\<rparr>"

definition sample_zones :: sample_value where
  "sample_zones =
     S_Object [(''a.b'', S_Object [(''A'', S_Object [(''www'', S_String ''1234''), (''@'', S_String ''5678'')]),
                                   (''CNAME'', S_Object [(''x'', S_String ''x.a.b'')])]),
               (''c.d'', S_String ''{{BLOCKED}}'')]"

text \<open>A parsed query for the type \<open>ty\<close> of \<^verbatim>\<open>sub.root\<close>.\<close>

definition sample_parser :: "u16 \<Rightarrow> string \<Rightarrow> string \<Rightarrow> DnsParser" where
  "sample_parser ty sub root =
     \<lparr>prs_Packet = sample_query\<lparr>req_Questions := [DnsQuestion_ctor_name (sub @ ''.'' @ root) ty 1]\<rparr>,
      prs_Domain = sub @ ''.'' @ root, prs_RootDomain = root, prs_SubDomain = sub\<rparr>"

lemma sample_patterns: "valid_patterns sample_json sample_engine sample_zones"
  by (auto simp: valid_patterns_def valid_items_def sample_json_def sample_engine_def sample_zones_def
      split: if_splits)

text \<open>A zone whose value is \<^verbatim>\<open>{{BLOCKED}}\<close> overrules everything else: no pattern is tried.\<close>

lemma CheckLocalMatch_blocked:
  assumes "prs_RootDomain p \<noteq> []" and "json_contains js zones (prs_RootDomain p)"
    and "json_is_string js (json_at js zones (prs_RootDomain p))"
    and "json_string js (json_at js zones (prs_RootDomain p)) = Some ''{{BLOCKED}}''"
    and json: "\<And>s. json_is_string js (json_of_string js s) \<and> json_string js (json_of_string js s) = Some s"
  shows "LocalDns_CheckLocalMatch js eng ttl zones p out cache =
    Some ((0, snd (DnsResponse_NXDOMAIN ttl (prs_Packet p) (prs_RootDomain p))), cache)"
proof -
  have "DnsParser_RecordType p \<noteq> []"
    using RecordTypes_name by (auto simp: DnsParser_RecordType_def split: list.split option.split)
  then show ?thesis
    using assms by (simp add: LocalDns_CheckLocalMatch_def Let_def DnsResponse_CallResponseFunction_def answered_def
        split: prod.split)
qed

section \<open>Properties\<close>

text \<open>C26: with patterns that all compile, the cache of compiled patterns is never in a state in which a null
  pointer is dereferenced, and it cannot be observed: the result and the output of \<^verbatim>\<open>CheckLocalMatch\<close> are the same
  from every ready cache, and the cache that it leaves behind is ready for the next query.\<close>

theorem CheckLocalMatch_cache_transparent:
  assumes "valid_patterns js eng zones"
  shows "\<exists>result. \<forall>cache. ready eng cache \<longrightarrow>
    (\<exists>cache'. LocalDns_CheckLocalMatch js eng ttl zones p out cache = Some (result, cache') \<and> ready eng cache')"
  using pure_CheckLocalMatch [OF assms] by (simp add: pure_def yields_def)

theorem CheckLocalMatch_cache_transparent_witness:
  "\<exists>result. \<forall>cache. ready sample_engine cache \<longrightarrow>
    (\<exists>cache'. LocalDns_CheckLocalMatch sample_json sample_engine 300 sample_zones (sample_parser 1 ''www'' ''a.b'') [] cache
       = Some (result, cache') \<and> ready sample_engine cache')"
  by (rule CheckLocalMatch_cache_transparent [OF sample_patterns])

text \<open>C32: \<^verbatim>\<open>SafeRegexMatch\<close> answers what the pattern itself would answer (no match for a pattern that does not
  compile) and keeps at most 1024 entries, each with what its pattern compiles to; it is undefined exactly when the
  pattern's entry is null. A pattern that does not compile leaves such an entry, so that its next use, before
  the cache is cleared, dereferences a null pointer.\<close>

theorem SafeRegexMatch_correct:
  assumes "cache_ok eng cache"
  shows "(case LocalDns_SafeRegexMatch eng cache s p of
        None \<Rightarrow> map_of cache p = Some None
      | Some (b, cache') \<Rightarrow> b = pattern_matches eng p s \<and> cache_ok eng cache' \<and>
          (rx_compile eng p = None \<and> length cache' < DNS_REGEX_CACHE_SIZE \<longrightarrow>
             (\<forall>s'. LocalDns_SafeRegexMatch eng cache' s' p = None)))"
proof (cases "LocalDns_SafeRegexMatch eng cache s p")
  case None
  then show ?thesis using SafeRegexMatch_result [OF assms, where p = p and s = s] by simp
next
  case (Some r)
  obtain b cache' where r: "r = (b, cache')" by (cases r)
  have "LocalDns_SafeRegexMatch eng cache' s' p = None"
    if "rx_compile eng p = None" "length cache' < DNS_REGEX_CACHE_SIZE" for s'
    using that SafeRegexMatch_result [OF assms, where p = p and s = s] Some r
    by (simp add: LocalDns_SafeRegexMatch_def [of _ cache'])
  then show ?thesis using SafeRegexMatch_result [OF assms, where p = p and s = s] Some r by simp
qed

theorem SafeRegexMatch_correct_witness:
  "LocalDns_SafeRegexMatch sample_engine [] ''www'' ''[a'' = Some (False, [(''[a'', None)]) \<and>
   LocalDns_SafeRegexMatch sample_engine [(''[a'', None)] ''www'' ''[a'' = None"
proof -
  have "LocalDns_SafeRegexMatch sample_engine [] ''www'' ''[a'' = Some (False, [(''[a'', None)])" by code_simp
  moreover have "rx_compile sample_engine ''[a'' = None" by (simp add: sample_engine_def)
  ultimately show ?thesis
    using SafeRegexMatch_correct [of sample_engine "[]", where p = "''[a''" and s = "''www''"]
    by (simp add: cache_ok_def DNS_REGEX_CACHE_SIZE_def)
qed

text \<open>A query for a type that a zone has as an object is answered from the value that the zone assigns to its
  subdomain by the first pattern that matches, and from no other: without a value, or with the value
  \<^verbatim>\<open>{{FORWARD}}\<close>, it is left to the upstream resolver and the output is untouched.\<close>

theorem type_match_first:
  assumes "ready eng cache" and "json_contains js zone t" and "json_is_object js (json_at js zone t)"
    and "valid_items eng (json_items js (json_at js zone t))"
  shows "\<exists>cache'. ready eng cache' \<and>
    type_match js eng ttl zone p t out cache = Some
      (case zone_value js (pattern_matches eng) (json_at js zone t) (prs_SubDomain p) of
         None \<Rightarrow> (-1, out)
       | Some v \<Rightarrow> if IsForwardValue js v then (-1, out)
                   else answered (DispatchSingleOrMulti js ttl t (prs_Packet p) v out), cache')"
  by (rule type_match_value [OF assms])

theorem type_match_first_witness:
  "\<exists>cache'. ready sample_engine cache' \<and>
    type_match sample_json sample_engine 300 (json_at sample_json sample_zones ''a.b'') (sample_parser 1 ''www'' ''a.b'')
      ''A'' [] [] =
    Some (answered (DispatchSingleOrMulti sample_json 300 ''A'' (prs_Packet (sample_parser 1 ''www'' ''a.b''))
      (S_String ''1234'') []), cache')"
proof -
  let ?z = "json_at sample_json sample_zones ''a.b''"
  have z: "json_contains sample_json ?z ''A''" "json_is_object sample_json (json_at sample_json ?z ''A'')"
    "valid_items sample_engine (json_items sample_json (json_at sample_json ?z ''A''))" by code_simp+
  have "zone_value sample_json (pattern_matches sample_engine) (json_at sample_json ?z ''A'') ''www'' = Some (S_String ''1234'')"
    "\<not> IsForwardValue sample_json (S_String ''1234'')" "prs_SubDomain (sample_parser 1 ''www'' ''a.b'') = ''www''"
    by code_simp+
  then show ?thesis
    using type_match_first [OF ready_Nil z, where ttl = 300 and p = "sample_parser 1 ''www'' ''a.b''" and out = "[]"] by simp
qed

text \<open>The record lookup that follows CNAME targets splits a name at the same place as the parser, by a
  different method: for a name of at least two labels, with or without a final dot, it looks up the labels before
  the last two in the records of the zone of the last two.\<close>

theorem LookupLocalRecord_split:
  assumes "p = DnsParser_CacheDomainParts p0" and "prs_SubDomain p0 = []" and "req_Questions (prs_Packet p0) = [q]"
    and "zone_labels (m_Qname q)" and "2 \<le> length (m_Qname q)" and "t \<noteq> []"
    and "name = prs_Domain p \<or> name = prs_Domain p @ ''.''"
  shows "LocalDns_LookupLocalRecord js eng zones name t cache =
    (let zone = json_at js zones (prs_RootDomain p)
     in if json_contains js zones (prs_RootDomain p) \<and> json_is_object js zone \<and>
           json_contains js zone t \<and> json_is_object js (json_at js zone t)
        then lookup_records js eng (json_at js zone t) (prs_SubDomain p) cache
        else Some (None, cache))"
proof -
  let ?ls = "m_Qname q"
  let ?s = "join_with CHR ''.'' ?ls"
  have ne: "?ls \<noteq> []" using assms(5) by auto
  then have last: "last ?s \<noteq> CHR ''.''" "?s \<noteq> []"
    using join_last [of ?ls "CHR ''.''"] zone_labels_name [OF assms(4)] by (auto simp: name_labels_def)
  have p: "prs_Domain p = ?s" "prs_RootDomain p = join_with CHR ''.'' (drop (length ?ls - 2) ?ls)"
    "prs_SubDomain p = join_with CHR ''.'' (take (length ?ls - 2) ?ls)"
    by (simp_all add: assms(1) CacheDomainParts_split [OF assms(4,3,2)] Let_def)
  have "LocalDns_LookupLocalRecord js eng zones name t cache = LocalDns_LookupLocalRecord js eng zones ?s t cache"
    using assms(7) last unfolding p by (auto simp: LocalDns_LookupLocalRecord_def)
  then show ?thesis
    using last assms(6) lookup_split_join [OF zone_labels_name [OF assms(4)] assms(5)] unfolding p
    by (simp add: LocalDns_LookupLocalRecord_def Let_def)
qed

theorem LookupLocalRecord_split_witness:
  "\<exists>cache. LocalDns_LookupLocalRecord sample_json sample_engine sample_zones ''www.a.b.'' ''A'' [] =
    Some (Some (S_String ''1234''), cache)"
proof -
  let ?p0 = "(sample_parser 1 ''www'' ''a.b'')\<lparr>prs_SubDomain := []\<rparr>"
  let ?q = "DnsQuestion_ctor_name ''www.a.b'' 1 1"
  have q: "m_Qname ?q = [''www'', ''a'', ''b'']" by code_simp
  have p0: "req_Questions (prs_Packet ?p0) = [?q]" "prs_SubDomain ?p0 = []" by (simp_all add: sample_parser_def)
  have ls: "zone_labels (m_Qname ?q)" "2 \<le> length (m_Qname ?q)" by (simp_all add: q plain_def line_terminator_def)
  note p = CacheDomainParts_split [OF ls(1) p0, unfolded q, simplified]
  have zone: "json_contains sample_json sample_zones ''a.b''" "json_is_object sample_json (json_at sample_json sample_zones ''a.b'')"
    "json_contains sample_json (json_at sample_json sample_zones ''a.b'') ''A''"
    "json_is_object sample_json (json_at sample_json (json_at sample_json sample_zones ''a.b'') ''A'')"
    "case lookup_records sample_json sample_engine (json_at sample_json (json_at sample_json sample_zones ''a.b'') ''A'')
       ''www'' [] of None \<Rightarrow> False | Some (v, c) \<Rightarrow> v = Some (S_String ''1234'')"
    by code_simp+
  show ?thesis
    using LookupLocalRecord_split [OF refl p0(2,1) ls, where t = "''A''" and name = "''www.a.b.''" and js = sample_json
        and eng = sample_engine and zones = sample_zones and cache = "[]"] p zone
    by (auto simp: Let_def split: option.splits)
qed

text \<open>C28: when the name asked has a CNAME in its zone, what is sent is determined by the zones: that CNAME, then the CNAME
  of its target, and so on, each record owned by the target of the one before, until a target has no CNAME or eight
  were followed; the chain that ends at a target without a CNAME is completed by all of the target's records of
  the type asked, if the zones hold any (and the type is not ANY). These records, in this order, are what the builder
  is given; a CNAME that is not a text leaves the query to the upstream resolver, with the output untouched.\<close>

theorem cname_chain_linked:
  assumes "valid_patterns js eng zones" and "ready eng cache" and "json_string js d = Some target"
  shows "\<exists>r cache'. ready eng cache' \<and> cname_answers js (local_record js eng zones) t 8 target r \<and>
    cname_match js eng ttl zones p t d out cache =
      Some (case r of
              None \<Rightarrow> (-1, out)
            | Some new \<Rightarrow> answered (DnsResponse_MultiAnswer js ttl (prs_Packet p)
                (\<lparr>ans_Type = ''CNAME'', ans_Data = d, ans_Name = []\<rparr> # new) out), cache')"
proof -
  obtain r cache' where "ready eng cache'" "cname_answers js (local_record js eng zones) t 8 target r"
    "cname_chain js eng zones t 8 target [\<lparr>ans_Type = ''CNAME'', ans_Data = d, ans_Name = []\<rparr>] cache =
      Some (case r of None \<Rightarrow> Inl Json_type_error
            | Some new \<Rightarrow> Inr ([\<lparr>ans_Type = ''CNAME'', ans_Data = d, ans_Name = []\<rparr>] @ new), cache')"
    using cname_chain_answers [OF assms(1,2)] by blast
  then show ?thesis
    using assms(3) by (intro exI [of _ r] exI [of _ cache']) (auto simp: cname_match_def DNS_MAX_CNAME_DEPTH_def split: option.split)
qed

inductive_cases cname_answers_SucE: "cname_answers js zone t (Suc n) owner r"

theorem cname_chain_linked_witness:
  "\<exists>cache'. cname_match sample_json sample_engine 300 sample_zones (sample_parser 1 ''y'' ''a.b'') ''A''
      (S_String ''www.a.b'') [] [] =
    Some (answered (DnsResponse_MultiAnswer sample_json 300 (prs_Packet (sample_parser 1 ''y'' ''a.b''))
      [\<lparr>ans_Type = ''CNAME'', ans_Data = S_String ''www.a.b'', ans_Name = []\<rparr>,
       \<lparr>ans_Type = ''A'', ans_Data = S_String ''1234'', ans_Name = ''www.a.b''\<rparr>] []), cache')"
proof -
  have s: "json_string sample_json (S_String ''www.a.b'') = Some ''www.a.b''" by code_simp
  have v: "local_record sample_json sample_engine sample_zones ''www.a.b'' ''CNAME'' = None"
    "local_record sample_json sample_engine sample_zones ''www.a.b'' ''A'' = Some (S_String ''1234'')"
    "record_list sample_json ''A'' ''www.a.b'' (S_String ''1234'') =
       [\<lparr>ans_Type = ''A'', ans_Data = S_String ''1234'', ans_Name = ''www.a.b''\<rparr>]" by code_simp+
  have "r = Some (record_list sample_json ''A'' ''www.a.b'' (S_String ''1234''))"
    if "cname_answers sample_json (local_record sample_json sample_engine sample_zones) ''A'' (Suc 7) ''www.a.b'' r" for r
    using that v by (elim cname_answers_SucE) auto
  then show ?thesis
    using cname_chain_linked [OF sample_patterns ready_Nil s, where t = "''A''" and ttl = 300 and out = "[]" and
        p = "sample_parser 1 ''y'' ''a.b''"] v(3)
    by (force simp: numeral_eq_Suc)
qed

text \<open>A CNAME that points at itself ends the chain after eight steps with the record repeated; the loop of
  \<^verbatim>\<open>CheckLocalMatch\<close> always returns.\<close>

theorem cname_loop_stops:
  assumes "\<And>cache. ready eng cache \<Longrightarrow>
      yields eng (LocalDns_LookupLocalRecord js eng zones owner ''CNAME'' cache) (Some d)"
    and "json_string js d = Some owner" and "ready eng cache"
  shows "\<exists>cache'. cname_chain js eng zones t DNS_MAX_CNAME_DEPTH owner rs cache =
    Some (Inr (rs @ replicate 8 \<lparr>ans_Type = ''CNAME'', ans_Data = d, ans_Name = owner\<rparr>), cache')"
proof -
  have "\<exists>cache'. cname_chain js eng zones t n owner rs cache =
      Some (Inr (rs @ replicate n \<lparr>ans_Type = ''CNAME'', ans_Data = d, ans_Name = owner\<rparr>), cache')" for n
    using assms(3)
  proof (induction n arbitrary: rs cache)
    case (Suc n)
    obtain c where c: "LocalDns_LookupLocalRecord js eng zones owner ''CNAME'' cache = Some (Some d, c)" "ready eng c"
      using assms(1) [OF Suc.prems] by (auto simp: yields_def)
    from Suc.IH [OF c(2), of "rs @ [\<lparr>ans_Type = ''CNAME'', ans_Data = d, ans_Name = owner\<rparr>]"] c(1) assms(2)
    show ?case by (simp add: replicate_append_same)
  qed simp
  then show ?thesis by (simp add: DNS_MAX_CNAME_DEPTH_def)
qed

theorem cname_loop_stops_witness:
  "\<exists>cache'. cname_chain sample_json sample_engine sample_zones ''A'' DNS_MAX_CNAME_DEPTH ''x.a.b'' [] [] =
    Some (Inr (replicate 8 \<lparr>ans_Type = ''CNAME'', ans_Data = S_String ''x.a.b'', ans_Name = ''x.a.b''\<rparr>), cache')"
proof -
  have lookup: "map_option fst (LocalDns_LookupLocalRecord sample_json sample_engine sample_zones ''x.a.b'' ''CNAME'' []) =
      Some (Some (S_String ''x.a.b''))" by code_simp
  obtain v where v: "\<And>cache. ready sample_engine cache \<Longrightarrow> yields sample_engine
      (LocalDns_LookupLocalRecord sample_json sample_engine sample_zones ''x.a.b'' ''CNAME'' cache) v"
    using pure_LookupLocalRecord [OF sample_patterns] unfolding pure_def by blast
  from v [OF ready_Nil] lookup have "v = Some (S_String ''x.a.b'')"
    by (auto simp: yields_def)
  then show ?thesis
    using cname_loop_stops [of sample_engine sample_json sample_zones "''x.a.b''" "S_String ''x.a.b''" "[]" "''A''" "[]"] v
    by (simp add: sample_json_def [THEN arg_cong [where f = json_string]])
qed

text \<open>C30: a reverse query that \<^verbatim>\<open>SetPTRFromIp\<close> made is turned back into its address. For IPv4, the text before
  \<^verbatim>\<open>in-addr.arpa\<close> reversed is the address that the query was made for; for IPv6, the shortened text made of the
  32 nibbles before \<^verbatim>\<open>ip6.arpa\<close> is an address whose reverse query has exactly these nibbles.\<close>

theorem reverse_query_roundtrip:
  assumes "octets \<noteq> []" and "\<forall>l\<in>set octets. l \<noteq> [] \<and> CHR ''.'' \<notin> set l \<and> CHR '':'' \<notin> set l"
    and "length nibbles = 32" and "\<forall>c\<in>set nibbles. tolower c = c \<and> c \<noteq> CHR ''.'' \<and> c \<noteq> CHR '':''"
  shows "(let ls = m_Qname (DnsQuestion_SetPTRFromIp (join_with CHR ''.'' octets) q) in
      join_with CHR ''.'' (drop (length ls - 2) ls) = ''in-addr.arpa'' \<and>
      LocalDns_ReverseIpv4Components (join_with CHR ''.'' (take (length ls - 2) ls)) = join_with CHR ''.'' octets) \<and>
    (let sub = map (\<lambda>c. [c]) nibbles;
         ip = LocalDns_SimplifyIpv6 (LocalDns_ReverseIpv6Components (join_with CHR ''.'' sub))
     in m_Qname (DnsQuestion_SetPTRFromIp ip q) = sub @ [''ip6'', ''arpa''])"
proof (rule conjI)
  have "join_with CHR ''.'' octets \<noteq> []" "CHR '':'' \<notin> set (join_with CHR ''.'' octets)"
    using assms(1,2) by (induction "CHR ''.''" octets rule: join_with.induct) auto
  moreover have "ptr_octets (join_with CHR ''.'' octets) = octets"
    using assms(1,2) split_on_join [of octets "CHR ''.''"] by (simp add: ptr_octets_def)
  ultimately have "m_Qname (DnsQuestion_SetPTRFromIp (join_with CHR ''.'' octets) q) = rev octets @ [''in-addr'', ''arpa'']"
    by (simp add: DnsQuestion_SetPTRFromIp_def ptr_labels_def)
  moreover have "LocalDns_ReverseIpv4Components (join_with CHR ''.'' (rev octets)) = join_with CHR ''.'' octets"
    using ReverseIpv4_join [of "rev octets"] assms(1,2) by (simp add: name_labels_def)
  ultimately show "let ls = m_Qname (DnsQuestion_SetPTRFromIp (join_with CHR ''.'' octets) q) in
      join_with CHR ''.'' (drop (length ls - 2) ls) = ''in-addr.arpa'' \<and>
      LocalDns_ReverseIpv4Components (join_with CHR ''.'' (take (length ls - 2) ls)) = join_with CHR ''.'' octets"
    by (simp add: Let_def)
next
  let ?ip = "LocalDns_SimplifyIpv6 (LocalDns_ReverseIpv6Components (join_with CHR ''.'' (map (\<lambda>c. [c]) nibbles)))"
  obtain gs where gs: "ipv6_groups ?ip = Some gs" "list_all (\<lambda>g. length g \<le> 4) gs" "concat (map pad4 gs) = rev nibbles"
    using ip6_name_text [OF assms(3,4)] by auto
  have "CHR '':'' \<in> set ?ip"
  proof (rule ccontr)
    assume no: "CHR '':'' \<notin> set ?ip"
    have "split_double_colon s = None" if "CHR '':'' \<notin> set s" for s using that by (induction s) auto
    with no gs(1) ipv6_groups_length [OF gs(1)] show False
      by (auto simp: ipv6_groups_def SplitByColon_def split: if_splits)
  qed
  moreover from this have "?ip \<noteq> []" by auto
  ultimately show "let sub = map (\<lambda>c. [c]) nibbles;
      ip = LocalDns_SimplifyIpv6 (LocalDns_ReverseIpv6Components (join_with CHR ''.'' sub))
    in m_Qname (DnsQuestion_SetPTRFromIp ip q) = sub @ [''ip6'', ''arpa'']"
    using gs by (simp add: Let_def DnsQuestion_SetPTRFromIp_def ptr_labels_def ipv6_expand_eq)
qed

theorem reverse_query_roundtrip_witness:
  "LocalDns_ReverseIpv4Components ''1.2.0.192'' = ''192.0.2.1'' \<and>
   m_Qname (DnsQuestion_SetPTRFromIp (LocalDns_SimplifyIpv6 (LocalDns_ReverseIpv6Components
     (join_with CHR ''.'' (map (\<lambda>c. [c]) (CHR ''1'' # replicate 31 CHR ''0''))))) DnsQuestion_default) =
   map (\<lambda>c. [c]) (CHR ''1'' # replicate 31 CHR ''0'') @ [''ip6'', ''arpa'']"
proof -
  have plain: "\<forall>c\<in>set (CHR ''1'' # replicate 31 CHR ''0''). tolower c = c \<and> c \<noteq> CHR ''.'' \<and> c \<noteq> CHR '':''"
    by code_simp
  have "m_Qname (DnsQuestion_SetPTRFromIp (join_with CHR ''.'' [''192'', ''0'', ''2'', ''1'']) DnsQuestion_default) =
      [''1'', ''2'', ''0'', ''192'', ''in-addr'', ''arpa'']" by code_simp
  then show ?thesis
    using reverse_query_roundtrip [of "[''192'', ''0'', ''2'', ''1'']" "CHR ''1'' # replicate 31 CHR ''0''" DnsQuestion_default] plain
    by (simp add: Let_def)
qed



end
