(* ===== verification/Doh.thy ===== *)
theory Doh
  imports Chukei_Prelude "HOL-Library.Sublist"
begin

unbundle bit_operations_syntax

text \<open>
  \<^verbatim>\<open>class DnsOverHttps\<close> (\<^verbatim>\<open>include/dns_over_https.h\<close>, \<^verbatim>\<open>src/dns_over_https.cc\<close>): forwarding a query to a list of
  HTTPS resolvers in random order with failover inside a time budget.

  libcurl, the clock and the random engine are parameters: the fields of \<open>doh_env\<close> are functions over an arbitrary
  world \<open>'w\<close>. A transfer delivers chunks, which the model passes to \<^verbatim>\<open>WriteCallback\<close>, and ends with the messages of
  the multi handle. The model is the build for a PC; the console builds differ in where certificates come from.
\<close>

section \<open>Types\<close>

datatype ResolveResult =
    Resolve_Success | InvalidInput | CurlError | BadRequest | PayloadTooLarge | UnsupportedMediaType
  | TooManyRequests | InternalServerError | NotImplemented | BadGateway | GatewayTimeout | UnknownHttpError

datatype HttpMethod = Http_POST | Http_GET

record DnsOverHttps =
  doh_Resolvers :: "string list"
  doh_Useragent :: string
  doh_HttpMethod :: HttpMethod
  doh_CacertPath :: string
  doh_TimeoutMs :: int
  doh_MultiHandle :: bool

text \<open>What an easy handle is set up with.\<close>

record easy_handle =
  easy_url :: string
  easy_useragent :: string
  easy_timeout :: int
  easy_connect_timeout :: int
  easy_cainfo :: "string option"
  easy_headers :: "string list"
  easy_post :: "bytes option"

datatype curl_message = Message_done bool | Message_other

text \<open>A transfer: whether the handle could be added, whether the multi interface worked to the end, the chunks that
  arrived, the messages, and the HTTP status code.\<close>

record transfer =
  tr_added :: bool
  tr_performed :: bool
  tr_chunks :: "bytes list"
  tr_messages :: "curl_message list"
  tr_http_code :: int

record 'w doh_env =
  env_now :: "'w \<Rightarrow> int \<times> 'w"
  env_shuffle :: "string list \<Rightarrow> 'w \<Rightarrow> string list \<times> 'w"
  env_easy_init :: "'w \<Rightarrow> bool \<times> 'w"
  env_transfer :: "easy_handle \<Rightarrow> 'w \<Rightarrow> transfer \<times> 'w"

section \<open>Settings\<close>

definition DnsOverHttps_Useragent :: "string \<Rightarrow> DnsOverHttps \<Rightarrow> cpp_error + DnsOverHttps" where
  "DnsOverHttps_Useragent p_Useragent d =
     (if p_Useragent = [] then Inl (Invalid_argument ''User agent cannot be empty'')
      else Inr (d\<lparr>doh_Useragent := p_Useragent\<rparr>))"

definition DnsOverHttps_Resolvers :: "string list \<Rightarrow> DnsOverHttps \<Rightarrow> cpp_error + DnsOverHttps" where
  "DnsOverHttps_Resolvers p_Resolvers d =
     (if p_Resolvers = [] then Inl (Invalid_argument ''p_Resolvers argument must contain at least one resolver'')
      else Inr (d\<lparr>doh_Resolvers := p_Resolvers\<rparr>))"

definition DnsOverHttps_Method :: "HttpMethod \<Rightarrow> DnsOverHttps \<Rightarrow> DnsOverHttps" where
  "DnsOverHttps_Method p_Method d = d\<lparr>doh_HttpMethod := p_Method\<rparr>"

definition DnsOverHttps_DohTimeoutMs :: "int \<Rightarrow> DnsOverHttps \<Rightarrow> DnsOverHttps" where
  "DnsOverHttps_DohTimeoutMs p_TimeoutMs d =
     (let p_TimeoutMs = (if p_TimeoutMs < 100 then 100 else p_TimeoutMs);
          p_TimeoutMs = (if p_TimeoutMs > 60000 then 60000 else p_TimeoutMs)
      in d\<lparr>doh_TimeoutMs := p_TimeoutMs\<rparr>)"

text \<open>\<open>readable\<close> tells whether the file can be opened.\<close>

definition DnsOverHttps_CacertPath :: "(string \<Rightarrow> bool) \<Rightarrow> string \<Rightarrow> DnsOverHttps \<Rightarrow> DnsOverHttps" where
  "DnsOverHttps_CacertPath readable p_Path d =
     (if p_Path = [] then d\<lparr>doh_CacertPath := []\<rparr>
      else if p_Path = doh_CacertPath d then d
      else if \<not> readable p_Path then d\<lparr>doh_CacertPath := []\<rparr>
      else d\<lparr>doh_CacertPath := p_Path\<rparr>)"

text \<open>The constructor; \<open>curl\<close> tells whether libcurl, the multi handle and its headers could be initialised
  (the steps of the latter, and the other message when a header fails, are in \<open>Curl_Handles\<close>).\<close>

definition DnsOverHttps_ctor ::
  "bool \<times> bool \<Rightarrow> (string \<Rightarrow> bool) \<Rightarrow> string \<Rightarrow> string list \<Rightarrow> string \<Rightarrow> int \<Rightarrow> cpp_error + DnsOverHttps" where
  "DnsOverHttps_ctor curl readable p_Useragent p_Resolvers p_CacertPath p_DohTimeoutMs =
     (if \<not> fst curl then Inl (Runtime_error ''Failed to initialize libcurl'')
      else
        case DnsOverHttps_Useragent p_Useragent \<lparr>doh_Resolvers = [], doh_Useragent = [], doh_HttpMethod = Http_POST,
               doh_CacertPath = [], doh_TimeoutMs = 15000, doh_MultiHandle = False\<rparr> of
          Inl e \<Rightarrow> Inl e
        | Inr d \<Rightarrow>
            (case DnsOverHttps_Resolvers p_Resolvers d of
               Inl e \<Rightarrow> Inl e
             | Inr d \<Rightarrow>
                 let d = DnsOverHttps_DohTimeoutMs p_DohTimeoutMs d;
                     d = (if p_CacertPath \<noteq> [] then DnsOverHttps_CacertPath readable p_CacertPath d else d)
                 in if snd curl then Inr (d\<lparr>doh_MultiHandle := True\<rparr>)
                    else Inl (Runtime_error ''Failed to create CURL multi handle'')))"

section \<open>Results\<close>

definition DnsOverHttps_IsRetryable :: "ResolveResult \<Rightarrow> bool" where
  "DnsOverHttps_IsRetryable p_Result =
     (case p_Result of
        CurlError \<Rightarrow> True | InternalServerError \<Rightarrow> True | BadGateway \<Rightarrow> True
      | GatewayTimeout \<Rightarrow> True | TooManyRequests \<Rightarrow> True | _ \<Rightarrow> False)"

definition DnsOverHttps_HttpCodeToResult :: "int \<Rightarrow> ResolveResult" where
  "DnsOverHttps_HttpCodeToResult p_HttpCode =
     (if p_HttpCode = 200 then Resolve_Success
      else if p_HttpCode = 400 then BadRequest
      else if p_HttpCode = 413 then PayloadTooLarge
      else if p_HttpCode = 415 then UnsupportedMediaType
      else if p_HttpCode = 429 then TooManyRequests
      else if p_HttpCode = 500 then InternalServerError
      else if p_HttpCode = 501 then NotImplemented
      else if p_HttpCode = 502 then BadGateway
      else if p_HttpCode = 504 then GatewayTimeout
      else UnknownHttpError)"

section \<open>The query in a URL\<close>

definition base64url_table :: string where
  "base64url_table = ''ABCDEFGHIJKLMNOPQRSTUVWXYZabcdefghijklmnopqrstuvwxyz0123456789-_''"

text \<open>The characters for one, two or three octets.\<close>

definition base64url_group :: "bytes \<Rightarrow> string" where
  "base64url_group s_Input =
     (let s_N = push_bit 16 (ucast (s_Input ! 0)) :: u32;
          s_N = (if 1 < length s_Input then s_N OR push_bit 8 (ucast (s_Input ! 1)) else s_N);
          s_N = (if 2 < length s_Input then s_N OR ucast (s_Input ! 2) else s_N);
          digit = (\<lambda>k. base64url_table ! unat (drop_bit k s_N AND 0x3F))
      in [digit 18, digit 12] @ (if 1 < length s_Input then [digit 6] else [])
           @ (if 2 < length s_Input then [digit 0] else []))"

function DnsOverHttps_Base64UrlEncode :: "bytes \<Rightarrow> string" where
  "DnsOverHttps_Base64UrlEncode p_Data =
     (if p_Data = [] then [] else base64url_group (take 3 p_Data) @ DnsOverHttps_Base64UrlEncode (drop 3 p_Data))"
  by pat_completeness auto
termination
  by (relation "measure length") auto

declare DnsOverHttps_Base64UrlEncode.simps [simp del]

section \<open>One transfer\<close>

definition MAX_DOH_RESPONSE_SIZE :: nat where "MAX_DOH_RESPONSE_SIZE = 65535"

text \<open>\<^verbatim>\<open>WriteCallback\<close> on a chunk of \<open>p_Size * p_DataSize\<close> octets, with a \<^verbatim>\<open>size_t\<close> of 64 bits: the number of octets
  taken (0 signals an error to libcurl) and the buffer. \<^verbatim>\<open>realloc\<close> is taken to succeed for these sizes.\<close>

definition size_t_range :: nat where "size_t_range = 2 ^ 64"

abbreviation SIZE_MAX :: nat where "SIZE_MAX \<equiv> size_t_range - 1"

definition DnsOverHttps_WriteCallback :: "bytes \<Rightarrow> nat \<Rightarrow> nat \<Rightarrow> bytes \<Rightarrow> nat \<times> bytes" where
  "DnsOverHttps_WriteCallback p_Pointer p_Size p_DataSize s_Response =
     (if p_Size > 0 \<and> p_DataSize > SIZE_MAX div p_Size then (0, s_Response)
      else
        let s_RealSize = p_Size * p_DataSize in
        if (length s_Response + s_RealSize) mod size_t_range > MAX_DOH_RESPONSE_SIZE then (0, s_Response)
        else if length s_Response > (SIZE_MAX + size_t_range - s_RealSize - 1) mod size_t_range then (0, s_Response)
        else (s_RealSize, s_Response @ take s_RealSize p_Pointer))"

text \<open>libcurl calls it with chunks of elements of size 1 and gives up when it does not take a whole chunk.\<close>

primrec receive_body :: "bytes list \<Rightarrow> bytes \<Rightarrow> bool \<times> bytes" where
  "receive_body [] s_Buffer = (True, s_Buffer)"
| "receive_body (chunk # chunks) s_Buffer =
     (let (taken, s_Buffer) = DnsOverHttps_WriteCallback chunk 1 (length chunk) s_Buffer
      in if taken = length chunk then receive_body chunks s_Buffer else (False, s_Buffer))"

definition DnsOverHttps_CreateEasyHandle :: "DnsOverHttps \<Rightarrow> string \<Rightarrow> bytes \<Rightarrow> int \<Rightarrow> easy_handle" where
  "DnsOverHttps_CreateEasyHandle d p_Url p_Data p_TimeoutMs =
     (let s_TimeoutSec = max 1 (p_TimeoutMs div 1000);
          s_ConnectTimeoutSec = max 1 (min 5 (s_TimeoutSec div 2))
      in \<lparr>easy_url = p_Url, easy_useragent = doh_Useragent d, easy_timeout = s_TimeoutSec,
          easy_connect_timeout = s_ConnectTimeoutSec,
          easy_cainfo = (if doh_CacertPath d \<noteq> [] then Some (doh_CacertPath d) else None),
          easy_headers = (case doh_HttpMethod d of
             Http_POST \<Rightarrow> [''Content-Type: application/dns-message'', ''Accept: application/dns-message'']
           | Http_GET \<Rightarrow> [''Accept: application/dns-message'']),
          easy_post = (case doh_HttpMethod d of Http_POST \<Rightarrow> Some p_Data | Http_GET \<Rightarrow> None)\<rparr>)"

definition transfer_result :: "transfer \<Rightarrow> ResolveResult" where
  "transfer_result tr =
     foldl (\<lambda>s_Result s_Msg. case s_Msg of
         Message_other \<Rightarrow> s_Result
       | Message_done ok \<Rightarrow> if \<not> ok then CurlError else DnsOverHttps_HttpCodeToResult (tr_http_code tr))
       CurlError (tr_messages tr)"

definition DnsOverHttps_PerformSingleTransfer ::
  "'w doh_env \<Rightarrow> easy_handle \<Rightarrow> 'w \<Rightarrow> ResolveResult \<times> bytes \<times> 'w" where
  "DnsOverHttps_PerformSingleTransfer env p_Easy w =
     (let (tr, w) = env_transfer env p_Easy w;
          s_Buffer = snd (receive_body (tr_chunks tr) [])
      in if \<not> tr_added tr \<or> \<not> tr_performed tr then (CurlError, s_Buffer, w)
         else (transfer_result tr, s_Buffer, w))"

section \<open>Failover\<close>

definition DnsOverHttps_ShuffledResolvers :: "'w doh_env \<Rightarrow> DnsOverHttps \<Rightarrow> 'w \<Rightarrow> string list \<times> 'w" where
  "DnsOverHttps_ShuffledResolvers env d w =
     (if length (doh_Resolvers d) > 1 then env_shuffle env (doh_Resolvers d) w else (doh_Resolvers d, w))"

definition resolver_url :: "DnsOverHttps \<Rightarrow> string \<Rightarrow> string \<Rightarrow> string" where
  "resolver_url d s_ResolverUrl s_Base64Query =
     (case doh_HttpMethod d of
        Http_POST \<Rightarrow> s_ResolverUrl
      | Http_GET \<Rightarrow> s_ResolverUrl @ (if CHR ''?'' \<in> set s_ResolverUrl then ''&dns='' else ''?dns='') @ s_Base64Query)"

text \<open>The loop over the resolvers. The clock is read in nanoseconds and never runs backwards.\<close>

primrec resolve_loop ::
  "'w doh_env \<Rightarrow> DnsOverHttps \<Rightarrow> bytes \<Rightarrow> string \<Rightarrow> int \<Rightarrow> string list \<Rightarrow> ResolveResult \<Rightarrow> bytes \<Rightarrow> 'w \<Rightarrow>
    ResolveResult \<times> bytes \<times> 'w" where
  "resolve_loop env d p_Data s_Base64Query s_StartTime [] s_LastResult p_Output w = (s_LastResult, p_Output, w)"
| "resolve_loop env d p_Data s_Base64Query s_StartTime (s_ResolverUrl # urls) s_LastResult p_Output w =
     (let (now, w) = env_now env w;
          s_RemainingMs = doh_TimeoutMs d - (now - s_StartTime) div 1000000
      in if s_RemainingMs \<le> 0 then (s_LastResult, p_Output, w)
         else
           let (s_Easy, w) = env_easy_init env w in
           if \<not> s_Easy then resolve_loop env d p_Data s_Base64Query s_StartTime urls s_LastResult p_Output w
           else
             let (s_Result, s_Buffer, w) = DnsOverHttps_PerformSingleTransfer env
                   (DnsOverHttps_CreateEasyHandle d (resolver_url d s_ResolverUrl s_Base64Query) p_Data s_RemainingMs) w
             in if s_Result = Resolve_Success then (Resolve_Success, if s_Buffer \<noteq> [] then s_Buffer else p_Output, w)
                else if \<not> DnsOverHttps_IsRetryable s_Result then (s_Result, p_Output, w)
                else resolve_loop env d p_Data s_Base64Query s_StartTime urls s_Result p_Output w)"

definition DnsOverHttps_Resolve ::
  "'w doh_env \<Rightarrow> DnsOverHttps \<Rightarrow> bytes option \<Rightarrow> nat \<Rightarrow> bytes \<Rightarrow> 'w \<Rightarrow> ResolveResult \<times> bytes \<times> 'w" where
  "DnsOverHttps_Resolve env d p_Data p_DataLength p_Output w =
     (case p_Data of
        None \<Rightarrow> (InvalidInput, p_Output, w)
      | Some data \<Rightarrow>
          if p_DataLength = 0 then (InvalidInput, p_Output, w)
          else if \<not> doh_MultiHandle d then (CurlError, p_Output, w)
          else
            let p_Data = take p_DataLength data;
                s_Base64Query = (case doh_HttpMethod d of Http_GET \<Rightarrow> DnsOverHttps_Base64UrlEncode p_Data | Http_POST \<Rightarrow> []);
                (s_Resolvers, w) = DnsOverHttps_ShuffledResolvers env d w;
                (s_StartTime, w) = env_now env w
            in resolve_loop env d p_Data s_Base64Query s_StartTime s_Resolvers CurlError p_Output w)"

section \<open>Lemmas: base64url\<close>

definition sextet :: "char \<Rightarrow> u32" where
  "sextet c = of_nat (length (takeWhile (\<lambda>x. x \<noteq> c) base64url_table))"

text \<open>The octets that the characters of RFC 4648 stand for, without padding.\<close>

fun base64url_octets :: "string \<Rightarrow> bytes" where
  "base64url_octets (a # b # c # d # s) =
     (let n = push_bit 18 (sextet a) OR push_bit 12 (sextet b) OR push_bit 6 (sextet c) OR sextet d
      in ucast (drop_bit 16 n) # ucast (drop_bit 8 n) # ucast n # base64url_octets s)"
| "base64url_octets [a, b, c] =
     (let n = push_bit 18 (sextet a) OR push_bit 12 (sextet b) OR push_bit 6 (sextet c)
      in [ucast (drop_bit 16 n), ucast (drop_bit 8 n)])"
| "base64url_octets [a, b] = [ucast (drop_bit 16 (push_bit 18 (sextet a) OR push_bit 12 (sextet b)))]"
| "base64url_octets _ = []"

lemma sextet_digit: "sextet (base64url_table ! unat (x AND 0x3F :: u32)) = x AND 0x3F"
proof -
  have "list_all (\<lambda>i. length (takeWhile (\<lambda>x. x \<noteq> base64url_table ! i) base64url_table) = i) [0..<64]" by code_simp
  then have table: "length (takeWhile (\<lambda>x. x \<noteq> base64url_table ! i) base64url_table) = i" if "i < 64" for i
    using that by (simp only: list_all_iff set_upt atLeastLessThan_iff) simp
  have "x AND 0x3F \<le> 0x3F" by (rule word_and_le1)
  then have "unat (x AND 0x3F) \<le> unat (0x3F :: u32)" by (simp only: word_le_nat_alt)
  then have "unat (x AND 0x3F) < 64" by simp
  then show ?thesis by (simp add: sextet_def table)
qed

definition six_bits :: "u32 \<Rightarrow> nat \<Rightarrow> u32" where
  "six_bits n k = drop_bit k n AND 0x3F"

lemma bit_window: "bit (push_bit k (six_bits n k)) i \<longleftrightarrow> bit n i \<and> k \<le> i \<and> i < k + 6"
proof -
  have "six_bits n k = drop_bit k n AND mask 6" by (simp add: six_bits_def mask_eq_exp_minus_1)
  then show ?thesis by (auto simp: bit_simps dest: bit_imp_le_length)
qed

lemma bit_octets:
  fixes a b c :: byte
  shows "bit (push_bit 16 (ucast a) OR push_bit 8 (ucast b) OR ucast c :: u32) i \<longleftrightarrow>
    16 \<le> i \<and> bit a (i - 16) \<or> 8 \<le> i \<and> bit b (i - 8) \<or> bit c i"
  by (auto simp: bit_simps dest: bit_imp_le_length)

lemma sextet_six_bits: "sextet (base64url_table ! unat (drop_bit k n AND 0x3F)) = six_bits n k"
  by (simp only: sextet_digit six_bits_def)

lemma octet_of:
  fixes x :: u32 and a :: byte
  assumes "\<And>i. i < 8 \<Longrightarrow> bit x (i + k) = bit a i"
  shows "ucast (drop_bit k x) = a"
proof (rule bit_word_eqI)
  fix i assume "i < LENGTH(8)"
  then show "bit (ucast (drop_bit k x) :: byte) i = bit a i" using assms [of i] by (simp add: bit_simps add.commute)
qed

lemma bit_joined:
  "i < 24 \<Longrightarrow> bit (push_bit 18 (six_bits n 18) OR push_bit 12 (six_bits n 12) OR push_bit 6 (six_bits n 6) OR six_bits n 0) i = bit n i"
  "6 \<le> i \<Longrightarrow> i < 24 \<Longrightarrow> bit (push_bit 18 (six_bits n 18) OR push_bit 12 (six_bits n 12) OR push_bit 6 (six_bits n 6)) i = bit n i"
  "12 \<le> i \<Longrightarrow> i < 24 \<Longrightarrow> bit (push_bit 18 (six_bits n 18) OR push_bit 12 (six_bits n 12)) i = bit n i"
  using bit_window [of 0 n i] by (auto simp only: bit_or_iff bit_window push_bit_0_id id_apply)

lemma octets_of_sextets:
  fixes a b c :: byte and n m :: u32
  assumes n: "\<And>i. bit n i \<longleftrightarrow> 16 \<le> i \<and> bit a (i - 16) \<or> 8 \<le> i \<and> bit b (i - 8) \<or> bit c i"
    and m: "\<And>i. l \<le> i \<Longrightarrow> i < 24 \<Longrightarrow> bit m i \<longleftrightarrow> bit n i"
  shows "l \<le> 16 \<Longrightarrow> ucast (drop_bit 16 m) = a" "l \<le> 8 \<Longrightarrow> ucast (drop_bit 8 m) = b" "l = 0 \<Longrightarrow> ucast m = c"
proof -
  have short: "\<not> bit w i" if "8 \<le> i" for w :: byte and i using that by (auto dest: bit_imp_le_length)
  show "ucast (drop_bit 16 m) = a" if "l \<le> 16" by (rule octet_of) (simp add: m n short that trans_le_add2)
  show "ucast (drop_bit 8 m) = b" if "l \<le> 8" by (rule octet_of) (simp add: m n short that trans_le_add2)
  show "ucast m = c" if "l = 0" using octet_of [of m 0 c] by (simp add: m n short that)
qed

lemma base64url_octets_group:
  "base64url_octets (base64url_group [a, b, c] @ s) = a # b # c # base64url_octets s"
  "base64url_octets (base64url_group [a, b]) = [a, b]"
  "base64url_octets (base64url_group [a]) = [a]"
proof -
  have n2: "bit (push_bit 16 (ucast a) OR push_bit 8 (ucast b) :: u32) i \<longleftrightarrow> 16 \<le> i \<and> bit a (i - 16) \<or> 8 \<le> i \<and> bit b (i - 8) \<or> bit (0 :: byte) i"
    for b :: byte and i using bit_octets [of a b 0 i] by simp
  have n1: "bit (push_bit 16 (ucast a) :: u32) i \<longleftrightarrow> 16 \<le> i \<and> bit a (i - 16) \<or> 8 \<le> i \<and> bit (0 :: byte) (i - 8) \<or> bit (0 :: byte) i"
    for i using bit_octets [of a 0 0 i] by simp
  note three = octets_of_sextets [where l = 0, OF bit_octets bit_joined(1)]
    and two = octets_of_sextets [where l = 6, OF n2 bit_joined(2)]
    and one = octets_of_sextets [where l = 12, OF n1 bit_joined(3)]
  let ?d = "\<lambda>n k. base64url_table ! unat (drop_bit k n AND 0x3F :: u32)"
  have group: "base64url_group [a, b, c] = (let n = push_bit 16 (ucast a) OR push_bit 8 (ucast b) OR ucast c in [?d n 18, ?d n 12, ?d n 6, ?d n 0])"
    "base64url_group [a, b] = (let n = push_bit 16 (ucast a) OR push_bit 8 (ucast b) in [?d n 18, ?d n 12, ?d n 6])"
    "base64url_group [a] = (let n = push_bit 16 (ucast a) in [?d n 18, ?d n 12])"
    by (simp_all add: base64url_group_def Let_def or.assoc)
  note calc = group base64url_octets.simps sextet_six_bits Let_def append.simps list.inject
  show "base64url_octets (base64url_group [a, b, c] @ s) = a # b # c # base64url_octets s"
    using three [of a b c] by (simp only: calc)
  show "base64url_octets (base64url_group [a, b]) = [a, b]"
    using two [of b] by (simp only: calc)
  show "base64url_octets (base64url_group [a]) = [a]"
    using one by (simp only: calc)
qed

lemma length_base64url_group:
  "bs \<noteq> [] \<Longrightarrow> length bs \<le> 3 \<Longrightarrow> length (base64url_group bs) = length bs + 1"
  by (cases bs; cases "tl bs"; cases "tl (tl bs)"; cases "tl (tl (tl bs))") (auto simp: base64url_group_def Let_def)

lemma set_base64url_group: "bs \<noteq> [] \<Longrightarrow> set (base64url_group bs) \<subseteq> set base64url_table"
proof -
  have "base64url_table ! unat (x AND 0x3F :: u32) \<in> set base64url_table" for x
  proof -
    have "x AND 0x3F \<le> 0x3F" by (rule word_and_le1)
    then have "unat (x AND 0x3F) \<le> unat (0x3F :: u32)" by (simp only: word_le_nat_alt)
    then show ?thesis by (intro nth_mem) (simp add: base64url_table_def)
  qed
  then show ?thesis by (simp add: base64url_group_def Let_def)
qed

section \<open>Lemmas: transfers\<close>

lemma WriteCallback_bound:
  assumes call: "DnsOverHttps_WriteCallback ptr m n buf = (taken, buf')" and "length buf \<le> 65535"
    and "m * n = length ptr" and "length ptr < SIZE_MAX"
  shows "length buf' \<le> 65535 \<and>
    (taken = length ptr \<and> buf' = buf @ ptr \<and> length buf + length ptr \<le> 65535 \<or> taken = 0 \<and> buf' = buf)"
proof -
  let ?W = size_t_range
  have W: "0 < ?W" by (simp add: size_t_range_def)
  have room: "length buf + length ptr \<le> 65535"
    if fits: "(length buf + length ptr) mod ?W \<le> 65535" "length buf \<le> (SIZE_MAX + ?W - length ptr - 1) mod ?W"
  proof -
    have "SIZE_MAX + ?W - length ptr - 1 = ?W + (SIZE_MAX - length ptr - 1)" using assms(4) by simp
    then have "(SIZE_MAX + ?W - length ptr - 1) mod ?W = (SIZE_MAX - length ptr - 1) mod ?W"
      by (simp only: mod_add_self1)
    also have "\<dots> = SIZE_MAX - length ptr - 1" by (rule mod_less) (use W in simp)
    finally have "length buf + length ptr < ?W" using fits(2) assms(4) by simp
    then show ?thesis using fits(1) by (simp only: mod_less)
  qed
  have ret: "(taken, buf') = (if m > 0 \<and> n > SIZE_MAX div m then (0, buf)
      else if (length buf + length ptr) mod ?W > 65535 then (0, buf)
      else if length buf > (SIZE_MAX + ?W - length ptr - 1) mod ?W then (0, buf) else (length ptr, buf @ ptr))"
    using call assms(3) by (simp only: DnsOverHttps_WriteCallback_def MAX_DOH_RESPONSE_SIZE_def Let_def take_all order_refl)
  consider "taken = 0" "buf' = buf"
    | "(length buf + length ptr) mod ?W \<le> 65535" "length buf \<le> (SIZE_MAX + ?W - length ptr - 1) mod ?W"
      "taken = length ptr" "buf' = buf @ ptr"
  proof (cases "m > 0 \<and> n > SIZE_MAX div m \<or> (length buf + length ptr) mod ?W > 65535 \<or>
      length buf > (SIZE_MAX + ?W - length ptr - 1) mod ?W")
    case True
    then have "(taken, buf') = (0, buf)" using ret by (elim disjE) (simp_all only: if_True if_cancel simp_thms split: if_split)
    then show ?thesis using that(1) by simp
  next
    case False
    then have "(taken, buf') = (length ptr, buf @ ptr)" using ret by (simp only: de_Morgan_disj if_False)
    then show ?thesis using that(2) False by (simp only: de_Morgan_disj not_less prod.inject)
  qed
  then show ?thesis
    by cases (use assms(2) room in auto)
qed

lemma receive_body_bound:
  assumes "\<forall>c\<in>set chunks. length c < SIZE_MAX" and "length buf \<le> 65535"
  shows "length (snd (receive_body chunks buf)) \<le> 65535 \<and>
    (fst (receive_body chunks buf) \<longrightarrow> snd (receive_body chunks buf) = buf @ concat chunks)"
  using assms
proof (induction chunks arbitrary: buf)
  case (Cons c cs)
  obtain taken buf' where call: "DnsOverHttps_WriteCallback c 1 (length c) buf = (taken, buf')" by (metis surj_pair)
  have b: "length buf' \<le> 65535 \<and>
    (taken = length c \<and> buf' = buf @ c \<and> length buf + length c \<le> 65535 \<or> taken = 0 \<and> buf' = buf)"
    using Cons.prems by (intro WriteCallback_bound [OF call]) auto
  show ?case using b call Cons by (auto simp: Let_def)
qed simp

definition transfer_outcome :: "transfer \<Rightarrow> ResolveResult" where
  "transfer_outcome tr = (if \<not> tr_added tr \<or> \<not> tr_performed tr then CurlError else transfer_result tr)"

definition transfer_body :: "transfer \<Rightarrow> bytes" where
  "transfer_body tr = snd (receive_body (tr_chunks tr) [])"

lemma PerformSingleTransfer_eq:
  "DnsOverHttps_PerformSingleTransfer env e w =
     (let (tr, w) = env_transfer env e w in (transfer_outcome tr, transfer_body tr, w))"
  by (simp add: DnsOverHttps_PerformSingleTransfer_def transfer_outcome_def transfer_body_def split: prod.split)

lemma transfer_outcome_not_invalid: "transfer_outcome tr \<noteq> InvalidInput"
proof -
  have "foldl (\<lambda>r m. case m of Message_other \<Rightarrow> r
      | Message_done ok \<Rightarrow> if \<not> ok then CurlError else DnsOverHttps_HttpCodeToResult c) r0 ms \<noteq> InvalidInput"
    if "r0 \<noteq> InvalidInput" for r0 ms c
    using that
    by (induction ms arbitrary: r0) (auto simp: DnsOverHttps_HttpCodeToResult_def split: curl_message.split)
  then show ?thesis by (simp add: transfer_outcome_def transfer_result_def)
qed

text \<open>An environment that also keeps a log: the readings of the clock and the transfers, in order.\<close>

datatype event = Ev_Now int | Ev_Transfer easy_handle transfer

fun transfers :: "event list \<Rightarrow> (easy_handle \<times> transfer) list" where
  "transfers [] = []"
| "transfers (Ev_Transfer e tr # evs) = (e, tr) # transfers evs"
| "transfers (Ev_Now t # evs) = transfers evs"

definition logged :: "'w doh_env \<Rightarrow> ('w \<times> event list) doh_env" where
  "logged env =
     \<lparr>env_now = (\<lambda>(w, log). let (t, w) = env_now env w in (t, (w, log @ [Ev_Now t]))),
      env_shuffle = (\<lambda>us (w, log). let (us, w) = env_shuffle env us w in (us, (w, log))),
      env_easy_init = (\<lambda>(w, log). let (ok, w) = env_easy_init env w in (ok, (w, log))),
      env_transfer = (\<lambda>e (w, log). let (tr, w) = env_transfer env e w in (tr, (w, log @ [Ev_Transfer e tr])))\<rparr>"

text \<open>What is left of the budget at a reading of the clock, in whole milliseconds, and what it means that every transfer
  keeps to it: it directly follows a reading of the clock, something is left at that reading, and its handle is set
  up with exactly that much.\<close>

definition budget_left :: "DnsOverHttps \<Rightarrow> int \<Rightarrow> int \<Rightarrow> int" where
  "budget_left d start t = doh_TimeoutMs d - (t - start) div 1000000"

fun in_budget :: "DnsOverHttps \<Rightarrow> bytes \<Rightarrow> int \<Rightarrow> event list \<Rightarrow> bool" where
  "in_budget d data start [] \<longleftrightarrow> True"
| "in_budget d data start (Ev_Transfer e tr # evs) \<longleftrightarrow> False"
| "in_budget d data start (Ev_Now t # Ev_Transfer e tr # evs) \<longleftrightarrow>
     0 < budget_left d start t \<and> e = DnsOverHttps_CreateEasyHandle d (easy_url e) data (budget_left d start t) \<and>
     in_budget d data start evs"
| "in_budget d data start (Ev_Now t # evs) \<longleftrightarrow> in_budget d data start evs"

lemma in_budget_Now: "in_budget d data start evs \<Longrightarrow> in_budget d data start (Ev_Now t # evs)"
  by (cases evs rule: transfers.cases) simp_all

definition log_ok :: "DnsOverHttps \<Rightarrow> bytes \<Rightarrow> string \<Rightarrow> int \<Rightarrow> string list \<Rightarrow> event list \<Rightarrow> bool" where
  "log_ok d data q start urls log \<longleftrightarrow>
     subseq (map (easy_url \<circ> fst) (transfers log)) (map (\<lambda>u. resolver_url d u q) urls) \<and>
     in_budget d data start log \<and>
     (\<forall>(e, tr)\<in>set (butlast (transfers log)). DnsOverHttps_IsRetryable (transfer_outcome tr))"

lemma resolve_loop_log:
  assumes "resolve_loop (logged env) d data q start urls last0 out (w, log0) = (r, out', (w', log))"
  shows "\<exists>new. log = log0 @ new \<and> log_ok d data q start urls new \<and>
    r = (if transfers new = [] then last0 else transfer_outcome (snd (last (transfers new)))) \<and>
    out' = (if transfers new \<noteq> [] \<and> r = Resolve_Success \<and> transfer_body (snd (last (transfers new))) \<noteq> []
            then transfer_body (snd (last (transfers new))) else out)"
  using assms
proof (induction urls arbitrary: last0 w log0)
  case Nil
  then show ?case by (auto simp: log_ok_def)
next
  case (Cons url urls)
  obtain t w1 where now: "env_now env w = (t, w1)" by (metis surj_pair)
  obtain ok w2 where easy: "env_easy_init env w1 = (ok, w2)" by (metis surj_pair)
  let ?ms = "doh_TimeoutMs d - (t - start) div 1000000"
  let ?e = "DnsOverHttps_CreateEasyHandle d (resolver_url d url q) data ?ms"
  obtain tr w3 where tr: "env_transfer env ?e w2 = (tr, w3)" by (metis surj_pair)
  have url: "easy_url ?e = resolver_url d url q" by (simp add: DnsOverHttps_CreateEasyHandle_def Let_def)
  let ?log1 = "log0 @ [Ev_Now t]" and ?log2 = "log0 @ [Ev_Now t, Ev_Transfer ?e tr]"
  have step: "log_ok d data q start (url # urls) (Ev_Now t # Ev_Transfer ?e tr # new)"
    if "0 < ?ms" "log_ok d data q start urls new" "transfers new \<noteq> [] \<Longrightarrow> DnsOverHttps_IsRetryable (transfer_outcome tr)" for new
    using that url by (simp add: log_ok_def budget_left_def)
  have skip: "log_ok d data q start (url # urls) (Ev_Now t # new)" if "log_ok d data q start urls new" for new
    using that in_budget_Now by (auto simp: log_ok_def)
  have empty: "log_ok d data q start us []" for us by (simp add: log_ok_def)
  have logged: "env_now (logged env) (w, log0) = (t, (w1, ?log1))"
    "env_easy_init (logged env) (w1, ?log1) = (ok, (w2, ?log1))"
    "env_transfer (logged env) ?e (w2, ?log1) = (tr, (w3, ?log2))"
    using now easy tr by (simp_all add: logged_def)
  note run = Cons.prems [unfolded resolve_loop.simps logged(1) Let_def prod.case]
  consider "?ms \<le> 0" | "0 < ?ms" "\<not> ok" | "0 < ?ms" ok "transfer_outcome tr = Resolve_Success"
    | "0 < ?ms" ok "transfer_outcome tr \<noteq> Resolve_Success" "\<not> DnsOverHttps_IsRetryable (transfer_outcome tr)"
    | "0 < ?ms" ok "transfer_outcome tr \<noteq> Resolve_Success" "DnsOverHttps_IsRetryable (transfer_outcome tr)"
    by linarith
  then show ?case
  proof cases
    case 1
    then have "r = last0" "out' = out" "log = ?log1" using run by simp_all
    then show ?thesis using skip [OF empty] by (intro exI [of _ "[Ev_Now t]"]) simp
  next
    case 2
    then have "resolve_loop (logged env) d data q start urls last0 out (w2, ?log1) = (r, out', (w', log))"
      using run logged(2) by simp
    from Cons.IH [OF this] obtain new where "log = ?log1 @ new" "log_ok d data q start urls new"
      "r = (if transfers new = [] then last0 else transfer_outcome (snd (last (transfers new))))"
      "out' = (if transfers new \<noteq> [] \<and> r = Resolve_Success \<and> transfer_body (snd (last (transfers new))) \<noteq> []
            then transfer_body (snd (last (transfers new))) else out)"
      by blast
    then show ?thesis using skip by (intro exI [of _ "Ev_Now t # new"]) simp
  next
    case 3
    then show ?thesis
      using run logged(2,3) step [OF _ empty]
      by (intro exI [of _ "[Ev_Now t, Ev_Transfer ?e tr]"]) (auto simp: PerformSingleTransfer_eq)
  next
    case 4
    then show ?thesis
      using run logged(2,3) step [OF _ empty]
      by (intro exI [of _ "[Ev_Now t, Ev_Transfer ?e tr]"]) (auto simp: PerformSingleTransfer_eq)
  next
    case 5
    then have "resolve_loop (logged env) d data q start urls (transfer_outcome tr) out (w3, ?log2) = (r, out', (w', log))"
      using run logged(2,3) by (simp add: PerformSingleTransfer_eq)
    from Cons.IH [OF this] obtain new where new: "log = ?log2 @ new" "log_ok d data q start urls new"
      "r = (if transfers new = [] then transfer_outcome tr else transfer_outcome (snd (last (transfers new))))"
      "out' = (if transfers new \<noteq> [] \<and> r = Resolve_Success \<and> transfer_body (snd (last (transfers new))) \<noteq> []
            then transfer_body (snd (last (transfers new))) else out)"
      by blast
    show ?thesis
      using step [OF 5(1) new(2) 5(4)] new(1,3,4) 5(3)
      by (intro exI [of _ "Ev_Now t # Ev_Transfer ?e tr # new"]) auto
  qed
qed

lemma Resolve_unfold:
  "n \<noteq> 0 \<Longrightarrow> doh_MultiHandle d \<Longrightarrow> DnsOverHttps_Resolve env d (Some data) n out w =
     (let (urls, w) = DnsOverHttps_ShuffledResolvers env d w; (start, w) = env_now env w
      in resolve_loop env d (take n data)
           (case doh_HttpMethod d of Http_GET \<Rightarrow> DnsOverHttps_Base64UrlEncode (take n data) | Http_POST \<Rightarrow> [])
           start urls CurlError out w)"
  by (simp add: DnsOverHttps_Resolve_def Let_def)

lemma resolve_loop_not_invalid:
  "last0 \<noteq> InvalidInput \<Longrightarrow> fst (resolve_loop env d data q start urls last0 out w) \<noteq> InvalidInput"
  by (induction urls arbitrary: last0 w)
    (auto simp: PerformSingleTransfer_eq transfer_outcome_not_invalid Let_def split: prod.split)

lemma Resolve_not_invalid: "n \<noteq> 0 \<Longrightarrow> fst (DnsOverHttps_Resolve env d (Some data) n out w) \<noteq> InvalidInput"
  by (cases "doh_MultiHandle d")
    (auto simp: Resolve_unfold resolve_loop_not_invalid DnsOverHttps_Resolve_def Let_def split: prod.split)

section \<open>Concrete resolvers\<close>

text \<open>A world that is the number of transfers made so far: the first resolver is out of order, every other answers.\<close>

definition sample_env :: "nat doh_env" where
  "sample_env =
     \<lparr>env_now = (\<lambda>w. (5, w)), env_shuffle = (\<lambda>us w. (rev us, w)), env_easy_init = (\<lambda>w. (True, w)),
      env_transfer = (\<lambda>e w. (\<lparr>tr_added = True, tr_performed = True, tr_chunks = [[1, 2], [3]],
        tr_messages = [Message_done True], tr_http_code = (if w = 0 then 502 else 200)\<rparr>, Suc w))\<rparr>"

definition sample_doh :: DnsOverHttps where
  "sample_doh =
     \<lparr>doh_Resolvers = [''https://x/q'', ''https://y/q''], doh_Useragent = ''u'', doh_HttpMethod = Http_POST,
      doh_CacertPath = [], doh_TimeoutMs = 15000, doh_MultiHandle = True\<rparr>"

section \<open>Properties\<close>

text \<open>What \<^verbatim>\<open>Base64UrlEncode\<close> writes into the URL of a GET request decodes to the query, consists of the 64
  characters of the URL-safe alphabet, and has no padding.\<close>

theorem Base64UrlEncode_roundtrip:
  "base64url_octets (DnsOverHttps_Base64UrlEncode data) = data \<and>
   set (DnsOverHttps_Base64UrlEncode data) \<subseteq> set base64url_table \<and>
   length (DnsOverHttps_Base64UrlEncode data) = (4 * length data + 2) div 3"
proof (induction data rule: DnsOverHttps_Base64UrlEncode.induct)
  case (1 data)
  consider "data = []" | a where "data = [a]" | a b where "data = [a, b]" | a b c rest where "data = a # b # c # rest"
    by (cases data; cases "tl data"; cases "tl (tl data)") auto
  then show ?case
  proof cases
    case 1
    then show ?thesis by (simp add: DnsOverHttps_Base64UrlEncode.simps)
  next
    case (2 a)
    then have "DnsOverHttps_Base64UrlEncode data = base64url_group [a]"
      by (subst DnsOverHttps_Base64UrlEncode.simps) (simp add: DnsOverHttps_Base64UrlEncode.simps)
    then show ?thesis using 2 set_base64url_group [of "[a]"] by (simp add: base64url_octets_group length_base64url_group)
  next
    case (3 a b)
    then have "DnsOverHttps_Base64UrlEncode data = base64url_group [a, b]"
      by (subst DnsOverHttps_Base64UrlEncode.simps) (simp add: DnsOverHttps_Base64UrlEncode.simps)
    then show ?thesis using 3 set_base64url_group [of "[a, b]"] by (simp add: base64url_octets_group length_base64url_group)
  next
    case (4 a b c rest)
    then have "DnsOverHttps_Base64UrlEncode data = base64url_group [a, b, c] @ DnsOverHttps_Base64UrlEncode rest"
      by (subst DnsOverHttps_Base64UrlEncode.simps) simp
    then show ?thesis
      using 1 4 set_base64url_group [of "[a, b, c]"] by (simp add: base64url_octets_group length_base64url_group)
  qed
qed

text \<open>C23: failover. However the network, the clock and the random engine behave, the transfers of one resolution go
  to distinct places of the shuffled resolver list in its order; right before each of them the clock is read, at that
  reading something is left of the budget, counted from the reading at the start, and the handle is given exactly what
  is left (libcurl takes whole seconds, and at least one: \<open>DnsOverHttps_CreateEasyHandle\<close>); every transfer before the
  last had a transient failure; the result is that of the last transfer (or a curl error without any), and the output
  is replaced only by the body of a successful one.\<close>

theorem Resolve_failover:
  assumes "n \<noteq> 0" and "doh_MultiHandle d"
    and "DnsOverHttps_ShuffledResolvers env d w = (urls, w1)"
    and "DnsOverHttps_Resolve (logged env) d (Some data) n out (w, []) = (r, out', (w', log))"
  shows "\<exists>start evs. log = Ev_Now start # evs \<and> start = fst (env_now env w1) \<and>
    log_ok d (take n data)
      (case doh_HttpMethod d of Http_GET \<Rightarrow> DnsOverHttps_Base64UrlEncode (take n data) | Http_POST \<Rightarrow> []) start urls evs \<and>
    r = (if transfers log = [] then CurlError else transfer_outcome (snd (last (transfers log)))) \<and>
    out' = (if transfers log \<noteq> [] \<and> r = Resolve_Success \<and> transfer_body (snd (last (transfers log))) \<noteq> []
            then transfer_body (snd (last (transfers log))) else out)"
proof -
  let ?q = "case doh_HttpMethod d of Http_GET \<Rightarrow> DnsOverHttps_Base64UrlEncode (take n data) | Http_POST \<Rightarrow> []"
  obtain start w2 where start: "env_now env w1 = (start, w2)" by (metis surj_pair)
  have "DnsOverHttps_ShuffledResolvers (logged env) d (w, []) = (urls, (w1, []))"
    using assms(3) by (auto simp: DnsOverHttps_ShuffledResolvers_def logged_def split: if_splits)
  moreover have "env_now (logged env) (w1, []) = (start, (w2, [Ev_Now start]))" using start by (simp add: logged_def)
  ultimately have "resolve_loop (logged env) d (take n data) ?q start urls CurlError out (w2, [Ev_Now start]) =
      (r, out', (w', log))"
    using assms(4) Resolve_unfold [OF assms(1,2), of "logged env"] by simp
  from resolve_loop_log [OF this] show ?thesis using start by auto
qed

text \<open>A clock that moves on by four seconds with every reading: a second attempt gets what the first has left.\<close>

definition slow_env :: "nat doh_env" where
  "slow_env =
     \<lparr>env_now = (\<lambda>w. (4000000000 * int w, Suc w)), env_shuffle = (\<lambda>us w. (rev us, w)), env_easy_init = (\<lambda>w. (True, w)),
      env_transfer = (\<lambda>e w. (\<lparr>tr_added = True, tr_performed = True, tr_chunks = [[1, 2], [3]],
        tr_messages = [Message_done True], tr_http_code = (if w = 2 then 502 else 200)\<rparr>, w))\<rparr>"

theorem Resolve_failover_witness:
  "\<exists>evs. DnsOverHttps_Resolve (logged slow_env) sample_doh (Some [7, 7]) 2 [] (0, []) =
      (Resolve_Success, [1, 2, 3], (3, Ev_Now 0 # evs)) \<and>
    map (\<lambda>(e, tr). (easy_url e, easy_timeout e)) (transfers evs) = [(''https://y/q'', 11), (''https://x/q'', 7)] \<and>
    log_ok sample_doh [7, 7] [] 0 [''https://y/q'', ''https://x/q''] evs"
proof -
  have body: "snd (receive_body [[1, 2], [3]] []) = [1, 2, 3]"
    by (simp add: DnsOverHttps_WriteCallback_def MAX_DOH_RESPONSE_SIZE_def size_t_range_def)
  have "case DnsOverHttps_Resolve (logged slow_env) sample_doh (Some [7, 7]) 2 [] (0, []) of
      (r, out, (w, log)) \<Rightarrow> r = Resolve_Success \<and> out = [1, 2, 3] \<and> w = 3 \<and>
        map (\<lambda>(e, tr). (easy_url e, easy_timeout e)) (transfers log) = [(''https://y/q'', 11), (''https://x/q'', 7)]"
    by (simp add: DnsOverHttps_Resolve_def DnsOverHttps_ShuffledResolvers_def sample_doh_def slow_env_def logged_def
        PerformSingleTransfer_eq transfer_outcome_def transfer_result_def transfer_body_def body
        DnsOverHttps_CreateEasyHandle_def resolver_url_def DnsOverHttps_HttpCodeToResult_def
        DnsOverHttps_IsRetryable_def Let_def del: receive_body.simps)
  then obtain log where run: "DnsOverHttps_Resolve (logged slow_env) sample_doh (Some [7, 7]) 2 [] (0, []) =
      (Resolve_Success, [1, 2, 3], (3, log))"
    "map (\<lambda>(e, tr). (easy_url e, easy_timeout e)) (transfers log) = [(''https://y/q'', 11), (''https://x/q'', 7)]"
    by (auto split: prod.splits)
  have env: "DnsOverHttps_ShuffledResolvers slow_env sample_doh 0 = ([''https://y/q'', ''https://x/q''], 0)"
    "doh_MultiHandle sample_doh" "doh_HttpMethod sample_doh = Http_POST" "(2 :: nat) \<noteq> 0" "fst (env_now slow_env 0) = 0"
    by (simp_all add: DnsOverHttps_ShuffledResolvers_def slow_env_def sample_doh_def)
  show ?thesis
    using Resolve_failover [OF env(4,2,1) run(1)] run env(3,5) by auto
qed

text \<open>C25: whatever a resolver sends, what is kept of it never exceeds 65535 octets, and if the transfer was not
  aborted it is exactly what was sent.\<close>

theorem response_size_bounded:
  assumes "\<forall>c\<in>set chunks. length c < SIZE_MAX"
  shows "length (snd (receive_body chunks [])) \<le> 65535 \<and>
    (fst (receive_body chunks []) \<longrightarrow> snd (receive_body chunks []) = concat chunks)"
  using receive_body_bound [OF assms, of "[]"] by simp

theorem response_size_bounded_witness:
  "length (snd (receive_body [[1, 2], [3]] [])) \<le> 65535 \<and> snd (receive_body [[1, 2], [3]] []) = [1, 2, 3]"
proof -
  have "fst (receive_body [[1, 2], [3]] [])"
    by (simp add: DnsOverHttps_WriteCallback_def MAX_DOH_RESPONSE_SIZE_def size_t_range_def)
  then show ?thesis
    using response_size_bounded [of "[[1, 2], [3]]"] by (simp add: size_t_range_def)
qed

end
