(* ===== verification/Server.thy ===== *)
theory Server
  imports Local_Dns Doh
begin

text \<open>
  What the UDP and TCP servers do with a message (\<^verbatim>\<open>src/udp_server.cc\<close>, \<^verbatim>\<open>src/tcp_server.cc\<close>): parse it, answer EDNS
  errors and other opcodes, look the name up in the local zones, then in the response cache, then upstream, append an
  OPT record, and send the result.

  A datagram and the bytes of a connection are arguments, and what is sent is a result; how many octets of a reply a
  TCP socket takes at once is an argument too (\<open>tcp_session\<close>), because the rest is read from a destroyed buffer. The
  configuration, the JSON library, the pattern engine and the environment of the DNS-over-HTTPS client are fields of
  \<open>server_config\<close>; the clock is the clock of that environment. The state of a server is its response cache, the
  cache of compiled patterns and the world. The outer \<open>None\<close> is undefined behaviour.
\<close>

record ('j, 'r, 'w) server_config =
  cfg_json :: "'j json"
  cfg_engine :: "'r regex_engine"
  cfg_env :: "'w doh_env"
  cfg_DefaultTtl :: int
  cfg_Zones :: 'j
  cfg_DohOnly :: bool
  cfg_Doh :: DnsOverHttps

record ('r, 'w) server_state =
  m_DnsCache :: DnsCache
  m_RegexCache :: "'r regex_cache"
  srv_world :: 'w

definition DNS_MIN_PACKET_SIZE :: nat where "DNS_MIN_PACKET_SIZE = 12"
definition DEFAULT_DNS_PACKET_SIZE :: nat where "DEFAULT_DNS_PACKET_SIZE = 512"

section \<open>One query\<close>

text \<open>The responses that need no lookup: EDNS errors and opcodes other than QUERY.\<close>

definition early_reply :: "DnsRequestPacket \<Rightarrow> bytes option" where
  "early_reply s_Pkt =
     (let s_EdnsStatus = req_EdnsStatus s_Pkt;
          s_EdnsPtr = (if DnsRequestPacket_HasEdns s_Pkt then req_Edns s_Pkt else None)
      in if s_EdnsStatus = Edns_DuplicateOpt \<or> s_EdnsStatus = Edns_Malformed
         then Some (snd (DnsResponse_FORMERR_OPT s_Pkt s_EdnsPtr))
         else if s_EdnsStatus = Edns_BadVersion then Some (snd (DnsResponse_BADVERS s_Pkt s_EdnsPtr))
         else if DnsHeader_Opcode (req_Header s_Pkt) False \<noteq> 0 then
           (let s_Output = snd (DnsResponse_NOTIMP s_Pkt)
            in Some (if s_EdnsStatus = Edns_Ok then DnsResponse_AppendOpt s_Output 0 s_EdnsPtr else s_Output))
         else None)"

text \<open>Cache and upstream: whether the name was found, and the output.\<close>

definition resolve_upstream ::
  "('j, 'r, 'w) server_config \<Rightarrow> bytes \<Rightarrow> DnsParser \<Rightarrow> bytes \<Rightarrow> ('r, 'w) server_state \<Rightarrow>
    (bool \<times> bytes \<times> ('r, 'w) server_state) option" where
  "resolve_upstream cfg s_Data s_ParsedRequest s_Output st =
     (let s_TxnId = DnsHeader_Id (req_Header (prs_Packet s_ParsedRequest)) False;
          s_Qtype = DnsQuestion_Qtype (hd (req_Questions (prs_Packet s_ParsedRequest))) False;
          s_Domain = prs_Domain s_ParsedRequest;
          (t_Lookup, w) = env_now (cfg_env cfg) (srv_world st)
      in case DnsCache_Lookup s_Domain s_Qtype s_TxnId t_Lookup s_Output (m_DnsCache st) of
           None \<Rightarrow> None
         | Some (hit, s_Output, c) \<Rightarrow>
         if hit then Some (True, s_Output, st\<lparr>m_DnsCache := c, srv_world := w\<rparr>)
         else
           let (s_DohResponse, s_Output, w) = DnsOverHttps_Resolve (cfg_env cfg) (cfg_Doh cfg) (Some s_Data) (length s_Data) s_Output w
           in if s_DohResponse = Resolve_Success then
                (let (t_Evict, w) = env_now (cfg_env cfg) w; (t_Now, w) = env_now (cfg_env cfg) w
                 in case DnsCache_Insert s_Domain s_Qtype s_Output t_Evict t_Now c of
                      None \<Rightarrow> None
                    | Some c \<Rightarrow> Some (True, s_Output, st\<lparr>m_DnsCache := c, srv_world := w\<rparr>))
              else if s_DohResponse \<noteq> InvalidInput then
                Some (True, snd (DnsResponse_SERVFAIL (prs_Packet s_ParsedRequest)), st\<lparr>m_DnsCache := c, srv_world := w\<rparr>)
              else Some (False, s_Output, st\<lparr>m_DnsCache := c, srv_world := w\<rparr>))"

text \<open>Local zones, cache, upstream, and NXDOMAIN if nothing was found.\<close>

definition resolve_query ::
  "('j, 'r, 'w) server_config \<Rightarrow> bytes \<Rightarrow> DnsParser \<Rightarrow> ('r, 'w) server_state \<Rightarrow>
    (bytes \<times> ('r, 'w) server_state) option" where
  "resolve_query cfg s_Data s_ParsedRequest st =
     (case (if \<not> cfg_DohOnly cfg
            then LocalDns_CheckLocalMatch (cfg_json cfg) (cfg_engine cfg) (cfg_DefaultTtl cfg) (cfg_Zones cfg)
                   s_ParsedRequest [] (m_RegexCache st)
            else Some ((-1, []), m_RegexCache st)) of
        None \<Rightarrow> None
      | Some ((local, s_Output), rc) \<Rightarrow>
          let st = st\<lparr>m_RegexCache := rc\<rparr> in
          if local = 0 then Some (s_Output, st)
          else case resolve_upstream cfg s_Data s_ParsedRequest s_Output st of
              None \<Rightarrow> None
            | Some (s_Found, s_Output, st) \<Rightarrow>
                Some (if \<not> s_Found
                      then snd (DnsResponse_NXDOMAIN (cfg_DefaultTtl cfg) (prs_Packet s_ParsedRequest) [])
                      else s_Output, st))"

section \<open>UDP\<close>

text \<open>The TC bit is set in place, in the flags at offset 2.\<close>

definition set_tc :: "bytes \<Rightarrow> bytes" where
  "set_tc s_Output =
     (if length s_Output \<ge> 4 then
        (let s_Flags = NetworkToHost (load16 s_Output 2) OR 0x0200
         in overwrite s_Output 2 (mem16 (HostToNetwork s_Flags)))
      else s_Output)"

definition udp_finish :: "DnsRequestPacket \<Rightarrow> bytes \<Rightarrow> bytes" where
  "udp_finish s_Pkt s_Output =
     (let s_EdnsPtr = (if DnsRequestPacket_HasEdns s_Pkt then req_Edns s_Pkt else None)
      in if req_EdnsStatus s_Pkt = Edns_Ok then
           (let s_Output = DnsResponse_AppendOpt s_Output 0 s_EdnsPtr;
                s_ClientMax = (case s_EdnsPtr of Some e \<Rightarrow> m_UdpPayloadSize e | None \<Rightarrow> of_nat DEFAULT_DNS_PACKET_SIZE)
            in if length s_Output > unat s_ClientMax then set_tc s_Output else s_Output)
         else s_Output)"

text \<open>\<^verbatim>\<open>Send\<close> drops an empty message; otherwise one datagram goes out.\<close>

definition UdpServer_Send :: "bytes \<Rightarrow> bytes list" where
  "UdpServer_Send p_Data = (if p_Data = [] then [] else [p_Data])"

definition UdpServer_Receive ::
  "('j, 'r, 'w) server_config \<Rightarrow> bytes \<Rightarrow> ('r, 'w) server_state \<Rightarrow> (bytes list \<times> ('r, 'w) server_state) option" where
  "UdpServer_Receive cfg s_Data st =
     (let p_BytesReceived = length s_Data in
      if p_BytesReceived = 0 then Some ([], st)
      else if p_BytesReceived < DNS_MIN_PACKET_SIZE then Some ([], st)
      else if p_BytesReceived > DEFAULT_DNS_PACKET_SIZE then Some ([], st)
      else case DnsParser_ctor (Some s_Data) p_BytesReceived of
          Inl e \<Rightarrow>
            (let s_ErrorResponse = snd (DnsResponse_CallResponseFunction_raw ''FORMERR'' (Some s_Data) p_BytesReceived [])
             in Some (if s_ErrorResponse \<noteq> [] then UdpServer_Send s_ErrorResponse else [], st))
        | Inr s_ParsedRequest \<Rightarrow>
            (case early_reply (prs_Packet s_ParsedRequest) of
               Some s_Output \<Rightarrow> Some (UdpServer_Send s_Output, st)
             | None \<Rightarrow>
                 (case resolve_query cfg s_Data s_ParsedRequest st of
                    None \<Rightarrow> None
                  | Some (s_Output, st) \<Rightarrow> Some (UdpServer_Send (udp_finish (prs_Packet s_ParsedRequest) s_Output), st))))"

section \<open>TCP\<close>

text \<open>The message that \<^verbatim>\<open>Send\<close> hands to \<^verbatim>\<open>async_write\<close>; nothing for an empty reply. What becomes of it is below.\<close>

definition TcpSession_Send :: "bytes \<Rightarrow> bytes list" where
  "TcpSession_Send p_Data =
     (if p_Data = [] then []
      else [of_nat (length p_Data div 256) # of_nat (length p_Data) # p_Data])"

definition tcp_finish :: "DnsRequestPacket \<Rightarrow> bytes \<Rightarrow> bytes" where
  "tcp_finish s_Pkt s_Output =
     (let s_EdnsPtr = (if DnsRequestPacket_HasEdns s_Pkt then req_Edns s_Pkt else None)
      in if req_EdnsStatus s_Pkt = Edns_Ok then DnsResponse_AppendOpt s_Output 0 s_EdnsPtr else s_Output)"

definition TcpSession_ReadMessage ::
  "('j, 'r, 'w) server_config \<Rightarrow> bytes \<Rightarrow> ('r, 'w) server_state \<Rightarrow> (bytes list \<times> ('r, 'w) server_state) option" where
  "TcpSession_ReadMessage cfg s_Data st =
     (case DnsParser_ctor (Some s_Data) (length s_Data) of
        Inl e \<Rightarrow>
          (let s_ErrorResponse = snd (DnsResponse_CallResponseFunction_raw ''FORMERR'' (Some s_Data) (length s_Data) [])
           in Some (if s_ErrorResponse \<noteq> [] then TcpSession_Send s_ErrorResponse else [], st))
      | Inr s_ParsedRequest \<Rightarrow>
          (case early_reply (prs_Packet s_ParsedRequest) of
             Some s_Output \<Rightarrow> Some (TcpSession_Send s_Output, st)
           | None \<Rightarrow>
               (case resolve_query cfg s_Data s_ParsedRequest st of
                  None \<Rightarrow> None
                | Some (s_Output, st) \<Rightarrow> Some (TcpSession_Send (tcp_finish (prs_Packet s_ParsedRequest) s_Output), st))))"

text \<open>A connection: \<^verbatim>\<open>ReadLength\<close> and \<^verbatim>\<open>ReadMessage\<close> call each other until the input ends inside a length or a
  message, or a length is too small.\<close>

definition message_length :: "bytes \<Rightarrow> u16" where
  "message_length m_LengthBuf = push_bit 8 (ucast (m_LengthBuf ! 0)) OR ucast (m_LengthBuf ! 1)"

function TcpSession_ReadLength ::
  "('j, 'r, 'w) server_config \<Rightarrow> bytes \<Rightarrow> ('r, 'w) server_state \<Rightarrow> (bytes list \<times> ('r, 'w) server_state) option" where
  "TcpSession_ReadLength cfg input st =
     (if length input < 2 then Some ([], st)
      else
        let s_MessageLength = message_length input; input' = drop 2 input in
        if unat s_MessageLength < DNS_MIN_PACKET_SIZE then Some ([], st)
        else if length input' < unat s_MessageLength then Some ([], st)
        else case TcpSession_ReadMessage cfg (take (unat s_MessageLength) input') st of
            None \<Rightarrow> None
          | Some (sent, st) \<Rightarrow>
              (case TcpSession_ReadLength cfg (drop (unat s_MessageLength) input') st of
                 None \<Rightarrow> None
               | Some (rest, st) \<Rightarrow> Some (sent @ rest, st)))"
  by pat_completeness auto
termination
  by (relation "measure (\<lambda>(cfg, input, st). length input)") (auto simp: DNS_MIN_PACKET_SIZE_def)

declare TcpSession_ReadLength.simps [simp del]

text \<open>\<^verbatim>\<open>async_write\<close> gets a view of the vector \<^verbatim>\<open>s_Message\<close>, a local variable of \<^verbatim>\<open>Send\<close> (its handler only keeps a copy).
  What the socket takes during the call, \<open>room\<close> octets at most, is written; if that is not the whole message, the
  rest is read after the vector is destroyed, and another reply may be written in between.\<close>

definition TcpSession_write :: "nat \<Rightarrow> bytes \<Rightarrow> bytes option" where
  "TcpSession_write room s_Message = (if length s_Message \<le> room then Some s_Message else None)"

text \<open>A connection with its writes: the octets that the client gets.\<close>

definition tcp_session ::
  "('j, 'r, 'w) server_config \<Rightarrow> (nat \<Rightarrow> nat) \<Rightarrow> bytes \<Rightarrow> ('r, 'w) server_state \<Rightarrow> (bytes \<times> ('r, 'w) server_state) option" where
  "tcp_session cfg room input st =
     (case TcpSession_ReadLength cfg input st of
        None \<Rightarrow> None
      | Some (sent, st) \<Rightarrow>
          (case those (map (\<lambda>i. TcpSession_write (room i) (sent ! i)) [0..<length sent]) of
             None \<Rightarrow> None
           | Some written \<Rightarrow> Some (concat written, st)))"

section \<open>Lemmas: the state of a server\<close>

definition server_inv :: "('j, 'r, 'w) server_config \<Rightarrow> ('r, 'w) server_state \<Rightarrow> bool" where
  "server_inv cfg st \<longleftrightarrow> ready (cfg_engine cfg) (m_RegexCache st) \<and> cache_inv (m_DnsCache st) \<and>
     0 < m_MaxEntries (m_DnsCache st)"

lemma Lookup_total: "\<exists>hit out' c'. DnsCache_Lookup d t x now out c = Some (hit, out', c')"
  by (auto simp: Lookup_eq Let_def split: option.split)

lemma Lookup_inv:
  assumes "DnsCache_Lookup d t x now out c = Some (hit, out', c')" and "cache_inv c"
  shows "cache_inv c' \<and> m_MaxEntries c' = m_MaxEntries c"
proof -
  have "map_option (snd \<circ> snd) (DnsCache_Lookup d t x now out c) = Some c'" by (simp add: assms(1))
  then have "map_option (snd \<circ> snd) (DnsCache_Lookup d t x now [] c) = Some c'" by (simp only: Lookup_state)
  then show ?thesis using cache_step_inv [OF assms(2), of "Op_Lookup d t x now" c'] by simp
qed

lemma resolve_upstream_inv:
  assumes "server_inv cfg st"
  shows "\<exists>found out' st'. resolve_upstream cfg q p out st = Some (found, out', st') \<and> server_inv cfg st'"
proof -
  let ?env = "cfg_env cfg" and ?d = "prs_Domain p" and ?t = "DnsQuestion_Qtype (hd (req_Questions (prs_Packet p))) False"
  obtain t0 w0 where now: "env_now ?env (srv_world st) = (t0, w0)" by (metis surj_pair)
  obtain hit out1 c where l: "DnsCache_Lookup ?d ?t (DnsHeader_Id (req_Header (prs_Packet p)) False) t0 out (m_DnsCache st) = Some (hit, out1, c)"
    using Lookup_total by blast
  have c: "cache_inv c" "0 < m_MaxEntries c"
    using Lookup_inv [OF l] assms by (simp_all add: server_inv_def)
  obtain r out2 w1 where res: "DnsOverHttps_Resolve ?env (cfg_Doh cfg) (Some q) (length q) out1 w0 = (r, out2, w1)"
    by (metis prod_cases3)
  obtain te w2 where te: "env_now ?env w1 = (te, w2)" by (metis surj_pair)
  obtain tn w3 where tn: "env_now ?env w2 = (tn, w3)" by (metis surj_pair)
  obtain c' where i: "DnsCache_Insert ?d ?t out2 te tn c = Some c'" using Insert_total [OF c(2)] by blast
  have c': "cache_inv c'" "0 < m_MaxEntries c'"
    using cache_step_inv [OF c(1), of "Op_Insert ?d ?t out2 te tn" c'] i c(2) by simp_all
  show ?thesis
    using assms c c' by (auto simp: resolve_upstream_def now l res te tn i Let_def server_inv_def)
qed

lemma resolve_query_inv:
  assumes "server_inv cfg st" and "valid_patterns (cfg_json cfg) (cfg_engine cfg) (cfg_Zones cfg)"
  shows "\<exists>out st'. resolve_query cfg q p st = Some (out, st') \<and> server_inv cfg st'"
proof -
  let ?check = "LocalDns_CheckLocalMatch (cfg_json cfg) (cfg_engine cfg) (cfg_DefaultTtl cfg) (cfg_Zones cfg) p []"
  have "ready (cfg_engine cfg) (m_RegexCache st)" using assms(1) by (simp add: server_inv_def)
  moreover have "pure (cfg_engine cfg) ?check" by (rule pure_CheckLocalMatch [OF assms(2)])
  ultimately obtain l o1 rc where "?check (m_RegexCache st) = Some ((l, o1), rc)" "ready (cfg_engine cfg) rc"
    unfolding pure_def yields_def by (metis surj_pair)
  then obtain l o1 rc where check: "(if \<not> cfg_DohOnly cfg then ?check (m_RegexCache st) else Some ((-1, []), m_RegexCache st)) =
      Some ((l, o1), rc)" and rc: "ready (cfg_engine cfg) rc"
    using \<open>ready (cfg_engine cfg) (m_RegexCache st)\<close> by (cases "cfg_DohOnly cfg") auto
  have inv: "server_inv cfg (st\<lparr>m_RegexCache := rc\<rparr>)" using assms(1) rc by (simp add: server_inv_def)
  then obtain f o2 st' where "resolve_upstream cfg q p o1 (st\<lparr>m_RegexCache := rc\<rparr>) = Some (f, o2, st')" "server_inv cfg st'"
    using resolve_upstream_inv by blast
  then show ?thesis using check inv by (simp add: resolve_query_def Let_def)
qed

lemma UdpServer_Receive_inv:
  assumes "server_inv cfg st" and "valid_patterns (cfg_json cfg) (cfg_engine cfg) (cfg_Zones cfg)"
  shows "\<exists>sent st'. UdpServer_Receive cfg q st = Some (sent, st') \<and> server_inv cfg st' \<and> length sent \<le> 1"
proof (cases "DnsParser_ctor (Some q) (length q)")
  case (Inr p)
  obtain out st' where "resolve_query cfg q p st = Some (out, st')" "server_inv cfg st'"
    using resolve_query_inv [OF assms] by blast
  then show ?thesis
    using assms(1) Inr by (simp add: UdpServer_Receive_def Let_def UdpServer_Send_def split: option.split)
qed (use assms(1) in \<open>simp add: UdpServer_Receive_def Let_def UdpServer_Send_def\<close>)

lemma TcpSession_ReadMessage_inv:
  assumes "server_inv cfg st" and "valid_patterns (cfg_json cfg) (cfg_engine cfg) (cfg_Zones cfg)"
  shows "\<exists>sent st'. TcpSession_ReadMessage cfg q st = Some (sent, st') \<and> server_inv cfg st' \<and> length sent \<le> 1"
proof (cases "DnsParser_ctor (Some q) (length q)")
  case (Inr p)
  obtain out st' where "resolve_query cfg q p st = Some (out, st')" "server_inv cfg st'"
    using resolve_query_inv [OF assms] by blast
  then show ?thesis
    using assms(1) Inr by (simp add: TcpSession_ReadMessage_def TcpSession_Send_def split: option.split)
qed (use assms(1) in \<open>simp add: TcpSession_ReadMessage_def Let_def TcpSession_Send_def\<close>)

section \<open>The contract of a message handler\<close>

text \<open>A server that handles one message after the other, and what it promises if its handler keeps an invariant and
  sends at most one reply.\<close>

primrec serve_all :: "(bytes \<Rightarrow> 's \<Rightarrow> (bytes list \<times> 's) option) \<Rightarrow> bytes list \<Rightarrow> 's \<Rightarrow> (bytes list \<times> 's) option" where
  "serve_all handle [] st = Some ([], st)"
| "serve_all handle (q # qs) st =
     (case handle q st of
        None \<Rightarrow> None
      | Some (sent, st) \<Rightarrow>
          (case serve_all handle qs st of None \<Rightarrow> None | Some (rest, st) \<Rightarrow> Some (sent @ rest, st)))"

locale message_handler =
  fixes handle :: "bytes \<Rightarrow> 's \<Rightarrow> (bytes list \<times> 's) option"
    and inv :: "'s \<Rightarrow> bool"
  assumes handle_ok: "inv st \<Longrightarrow> \<exists>sent st'. handle q st = Some (sent, st') \<and> inv st' \<and> length sent \<le> 1"
begin

lemma serve_all_total:
  assumes "inv st"
  shows "\<exists>sent st'. serve_all handle qs st = Some (sent, st') \<and> inv st' \<and> length sent \<le> length qs"
  using assms
proof (induction qs arbitrary: st)
  case (Cons q qs)
  obtain sent st1 where step: "handle q st = Some (sent, st1)" "inv st1" "length sent \<le> 1"
    using handle_ok [OF Cons.prems] by blast
  obtain rest st2 where "serve_all handle qs st1 = Some (rest, st2)" "inv st2" "length rest \<le> length qs"
    using Cons.IH [OF step(2)] by blast
  then show ?case using step by simp
qed simp

end

interpretation udp: message_handler "UdpServer_Receive cfg"
  "\<lambda>st. server_inv cfg st \<and> valid_patterns (cfg_json cfg) (cfg_engine cfg) (cfg_Zones cfg)" for cfg
  by unfold_locales (use UdpServer_Receive_inv in blast)

interpretation tcp: message_handler "TcpSession_ReadMessage cfg"
  "\<lambda>st. server_inv cfg st \<and> valid_patterns (cfg_json cfg) (cfg_engine cfg) (cfg_Zones cfg)" for cfg
  by unfold_locales (use TcpSession_ReadMessage_inv in blast)

section \<open>Lemmas: writing\<close>

lemma those_Some: "(\<forall>x\<in>set xs. f x = Some (g x)) \<Longrightarrow> those (map f xs) = Some (map g xs)"
  by (induction xs) simp_all

lemma those_None: "x \<in> set xs \<Longrightarrow> f x = None \<Longrightarrow> those (map f xs) = None"
  by (induction xs) (auto split: option.split)

lemma tcp_session_writes:
  assumes "TcpSession_ReadLength cfg input st = Some (sent, st')"
  shows "tcp_session cfg room input st =
    (if \<forall>i<length sent. length (sent ! i) \<le> room i then Some (concat sent, st') else None)"
proof (cases "\<forall>i<length sent. length (sent ! i) \<le> room i")
  case True
  then have "those (map (\<lambda>i. TcpSession_write (room i) (sent ! i)) [0..<length sent]) = Some (map (\<lambda>i. sent ! i) [0..<length sent])"
    by (intro those_Some) (simp add: TcpSession_write_def)
  then show ?thesis using True assms by (simp add: tcp_session_def map_nth)
next
  case False
  then obtain i where "i < length sent" "\<not> length (sent ! i) \<le> room i" by blast
  then have "those (map (\<lambda>i. TcpSession_write (room i) (sent ! i)) [0..<length sent]) = None"
    by (intro those_None [of i]) (simp_all add: TcpSession_write_def)
  then show ?thesis using False assms by (auto simp: tcp_session_def)
qed

section \<open>Lemmas: framing\<close>

lemma message_length_bytes: "unat (message_length (a # b # s)) = 256 * unat a + unat b"
proof -
  have "push_bit 8 (ucast a) OR ucast b = (push_bit 8 (ucast a) + ucast b :: u16)"
    by (subst disjunctive_add) (auto simp: bit_simps dest: bit_imp_le_length)
  moreover have "unat (push_bit 8 (ucast a) + ucast b :: u16) = 256 * unat a + unat b"
  proof -
    have "unat a < 256" "unat b < 256" using unsigned_less [of a, where ?'a = nat] unsigned_less [of b, where ?'a = nat] by simp_all
    moreover from this have "unat (ucast a :: u16) = unat a" "unat (ucast b :: u16) = unat b"
      by (simp_all add: unsigned_ucast_eq take_bit_nat_eq_self)
    ultimately show ?thesis by (simp add: unat_word_ariths push_bit_eq_mult)
  qed
  ultimately show ?thesis by (simp add: message_length_def)
qed

lemma message_length_frame:
  "unat (message_length (of_nat (n div 256) # of_nat n # s)) = n mod 65536"
proof -
  have "n mod 65536 = 256 * (n div 256 mod 256) + n mod 256" using mod_mult2_eq [of n 256 256] by simp
  then show ?thesis by (simp add: message_length_bytes unat_of_nat)
qed

text \<open>The messages that a session takes from the octets of its connection, as a list.\<close>

function tcp_messages :: "bytes \<Rightarrow> bytes list" where
  "tcp_messages input =
     (let n = unat (message_length input) in
      if length input < 2 \<or> n < 12 \<or> length input < 2 + n then []
      else take n (drop 2 input) # tcp_messages (drop (2 + n) input))"
  by pat_completeness auto
termination by (relation "measure length") auto

declare tcp_messages.simps [simp del]

lemma ReadLength_serves: "TcpSession_ReadLength cfg input st = serve_all (TcpSession_ReadMessage cfg) (tcp_messages input) st"
proof (induction input arbitrary: st rule: tcp_messages.induct)
  case (1 input)
  let ?n = "unat (message_length input)"
  show ?case
  proof (cases "length input < 2 \<or> ?n < 12 \<or> length input < 2 + ?n")
    case True
    then show ?thesis
      by (auto simp: TcpSession_ReadLength.simps [of cfg input] tcp_messages.simps [of input] DNS_MIN_PACKET_SIZE_def Let_def)
  next
    case False
    then have m: "tcp_messages input = take ?n (drop 2 input) # tcp_messages (drop (2 + ?n) input)"
      by (subst tcp_messages.simps) (simp add: Let_def)
    have "TcpSession_ReadLength cfg (drop ?n (drop 2 input)) st' =
        serve_all (TcpSession_ReadMessage cfg) (tcp_messages (drop (2 + ?n) input)) st'" for st'
      using 1 [OF refl False] by (simp only: drop_drop add.commute [of ?n])
    moreover have "\<not> length (drop 2 input) < ?n" using False by auto
    ultimately show ?thesis
      using False unfolding m
      by (subst TcpSession_ReadLength.simps) (simp add: DNS_MIN_PACKET_SIZE_def Let_def del: drop_drop length_drop
          split: option.split prod.split)
  qed
qed

lemma tcp_messages_Send:
  assumes "12 \<le> length m" and "length m \<le> 65535"
  shows "tcp_messages (concat (TcpSession_Send m) @ rest) = m # tcp_messages rest"
proof -
  have "concat (TcpSession_Send m) @ rest = of_nat (length m div 256) # of_nat (length m) # m @ rest"
    using assms(1) by (auto simp: TcpSession_Send_def)
  moreover have "unat (message_length (of_nat (length m div 256) # of_nat (length m) # m @ rest)) = length m"
    using assms(2) by (simp add: message_length_frame)
  ultimately show ?thesis
    using assms(1) by (subst tcp_messages.simps) (simp add: Let_def)
qed

lemma tcp_messages_framed:
  assumes "\<forall>m\<in>set ms. 12 \<le> length m \<and> length m \<le> 65535"
  shows "tcp_messages (concat (map (concat \<circ> TcpSession_Send) ms) @ rest) = ms @ tcp_messages rest"
  using assms by (induction ms) (simp_all add: tcp_messages_Send)

section \<open>Lemmas: the last touches on a response\<close>

lemma set_tc_image: "set_tc (DnsHeader_image h @ x) = DnsHeader_image (DnsHeader_SetTc True False h) @ x"
proof -
  have "load16 (DnsHeader_image h @ x) 2 = m_Flags h" by (simp add: DnsHeader_image_def load16_skip load16_hit)
  moreover have "4 \<le> length (DnsHeader_image h @ x)" by simp
  ultimately have "set_tc (DnsHeader_image h @ x) =
      overwrite (DnsHeader_image h @ x) 2 (mem16 (HostToNetwork (NetworkToHost (m_Flags h) OR 0x0200)))"
    by (simp add: set_tc_def)
  then show ?thesis
    by (simp add: DnsHeader_image_def overwrite_def mem16_def DnsHeader_SetTc_def DnsHeader_SetFlagBit_def
        DnsHeader_SetFlags_def DnsHeader_Flags_def push_bit_eq_mult)
qed

definition with_tc :: "DnsResponsePacket \<Rightarrow> DnsResponsePacket" where
  "with_tc r = r\<lparr>resp_Header := DnsHeader_SetTc True False (resp_Header r)\<rparr>"

lemma set_tc_built:
  assumes "built out r"
  shows "built (set_tc out) (with_tc r)"
proof -
  let ?h = "resp_Header r"
  have view: "header_view (DnsHeader_SetTc True False ?h) = (header_view ?h)\<lparr>v_tc := True\<rparr>" by simp
  then have "DnsHeader_Valid (DnsHeader_SetTc True False ?h) = DnsHeader_Valid ?h"
    "DnsHeader_IsResponse (DnsHeader_SetTc True False ?h) = DnsHeader_IsResponse ?h"
    "DnsHeader_Qdcount (DnsHeader_SetTc True False ?h) False = DnsHeader_Qdcount ?h False"
    "DnsHeader_Ancount (DnsHeader_SetTc True False ?h) False = DnsHeader_Ancount ?h False"
    "DnsHeader_Nscount (DnsHeader_SetTc True False ?h) False = DnsHeader_Nscount ?h False"
    "DnsHeader_Arcount (DnsHeader_SetTc True False ?h) False = DnsHeader_Arcount ?h False"
    by (simp_all add: header_view_def DnsHeader_Valid_def DnsHeader_IsResponse_def)
  then show ?thesis
    using assms unfolding built_def with_tc_def by (fastforce simp: set_tc_image)
qed

lemma FORMERR_raw_image:
  assumes "4 \<le> n"
  shows "\<exists>h. DnsResponse_FORMERR_raw (Some d) n [] = (0, DnsHeader_image h) \<and> m_Id h = load16 d 0 \<and>
    DnsHeader_Valid h \<and> DnsHeader_IsResponse h \<and> DnsHeader_Rcode h False = 1 \<and>
    DnsHeader_Qdcount h False = 0 \<and> DnsHeader_Ancount h False = 0 \<and> DnsHeader_Nscount h False = 0 \<and>
    DnsHeader_Arcount h False = 0"
proof -
  let ?f = "if NetworkToHost (load16 d 2) AND 0x0100 \<noteq> 0 then 0x8181 else 0x8081 :: u16"
  let ?h = "\<lparr>m_Id = load16 d 0, m_Flags = HostToNetwork ?f, m_Qdcount = HostToNetwork 0, m_Ancount = HostToNetwork 0,
      m_Nscount = HostToNetwork 0, m_Arcount = HostToNetwork 0\<rparr>"
  have "DnsResponse_FORMERR_raw (Some d) n [] = (0, DnsHeader_image ?h)"
    using assms
    by (simp add: DnsResponse_FORMERR_raw_def DnsHeader_HeaderSize_def Response_WriteUint16_eq Let_def)
      (simp add: DnsHeader_image_def overwrite_def mem16_def numeral_eq_Suc)
  then show ?thesis
    by (intro exI [of _ ?h]) (simp add: DnsHeader_Valid_def DnsHeader_IsResponse_def DnsHeader_Z_def DnsHeader_Qr_def
        DnsHeader_Rcode_def DnsHeader_Flags_def DnsHeader_Qdcount_def DnsHeader_Ancount_def DnsHeader_Nscount_def
        DnsHeader_Arcount_def)
qed

section \<open>Lemmas: no reply is empty\<close>

lemma Edns_ptr [simp]: "(if DnsRequestPacket_HasEdns p then req_Edns p else None) = req_Edns p"
  by (simp add: DnsRequestPacket_HasEdns_def)

lemma Response_WriteUint16_length [simp]: "length (Response_WriteUint16 out i v) = length out"
  by (simp add: Response_WriteUint16_def Let_def)

lemma Response_WriteUint16_nonempty [simp]: "Response_WriteUint16 out i v = [] \<longleftrightarrow> out = []"
  using Response_WriteUint16_length [of out i v] by (metis length_0_conv)

lemma header_image_nonempty [simp]: "DnsHeader_image h \<noteq> []"
  by (simp add: DnsHeader_image_def mem16_def)

lemma AppendOpt_length: "length (DnsResponse_AppendOpt out ext edns) = length out + length (answer_image (opt_record ext edns))"
  by (simp add: AppendOpt_eq increment_arcount_def Let_def)

lemma AppendOpt_nonempty [simp]: "DnsResponse_AppendOpt out ext edns \<noteq> []"
  using AppendOpt_length [of out ext edns] by (auto simp: answer_image_def mem16_def)

lemma bare_response_nonempty [simp]: "snd (bare_response p rc) \<noteq> []"
  by (simp add: bare_response_def WriteQuestion_ok WriteStandardHeader_image)

lemma FORMERR_nonempty [simp]: "snd (DnsResponse_FORMERR p) \<noteq> []"
  by (simp add: DnsResponse_FORMERR_def WriteQuestion_ok WriteStandardHeader_image Let_def)

lemma set_tc_length [simp]: "length (set_tc out) = length out"
  by (simp add: set_tc_def mem16_def Let_def)

lemma set_tc_nonempty [simp]: "set_tc out = [] \<longleftrightarrow> out = []"
  using set_tc_length [of out] by (metis length_0_conv)

lemma finish_nonempty: "out \<noteq> [] \<Longrightarrow> udp_finish p out \<noteq> []"
  by (simp add: udp_finish_def Let_def)

lemma early_reply_nonempty: "early_reply p = Some out \<Longrightarrow> out \<noteq> []"
proof -
  have "snd (DnsResponse_FORMERR_OPT p e) \<noteq> []" "snd (DnsResponse_BADVERS p e) \<noteq> []" "snd (DnsResponse_NOTIMP p) \<noteq> []" for e
    using FORMERR_nonempty [of p]
    by (auto simp: DnsResponse_FORMERR_OPT_def DnsResponse_BADVERS_def DnsResponse_NOTIMP_def WriteQuestion_ok
        WriteStandardHeader_image simp del: FORMERR_nonempty split: prod.split)
  then show "early_reply p = Some out \<Longrightarrow> out \<noteq> []"
    by (auto simp: early_reply_def Let_def split: if_splits)
qed

lemma Lookup_nonempty:
  assumes "DnsCache_Lookup d t x now out c = Some (True, out', c')" and "cache_inv c"
  shows "out' \<noteq> []"
proof -
  from assms(1) obtain e where e: "map_of (m_Cache c) (ToLower d, t) = Some e" and
    out: "out' = snd (AdjustTtls (if length (ce_response e) \<ge> 2 then WriteUint16 (ce_response e) 0 x else ce_response e)
      (of_int (elapsed_seconds now (ce_insert_time e))))"
    by (auto simp: Lookup_eq Let_def split: option.splits if_splits)
  have "12 \<le> length (ce_response e)" using assms(2) map_of_SomeD [OF e] by (auto simp: cache_inv_def entry_ok_def)
  then have "length out' \<noteq> 0" using out AdjustTtls_length by (auto simp: WriteUint16_def)
  then show ?thesis by auto
qed

lemma Lookup_miss: "DnsCache_Lookup d t x now out c = Some (False, out', c') \<Longrightarrow> out' = out"
  by (auto simp: Lookup_eq Let_def split: option.splits if_splits)

text \<open>The NXDOMAIN at the end of the resolution is never reached: \<^verbatim>\<open>Resolve\<close> does not return \<^verbatim>\<open>InvalidInput\<close> for
  the octets of a message.\<close>

lemma upstream_always_found:
  assumes "resolve_upstream cfg q p out st = Some (found, out', st')" and "q \<noteq> []"
  shows "found"
  using assms(1) Resolve_not_invalid [of "length q" "cfg_env cfg" "cfg_Doh cfg" q] assms(2)
  by (auto simp: resolve_upstream_def Let_def split: prod.splits if_splits option.splits) (metis fst_conv)+

text \<open>When the resolution of a query gives an empty output: nothing was found locally but something is said to be found
  upstream, where the cache has nothing and a resolver answers with an empty body; or a builder of a local answer failed
  before it wrote anything. \<open>local_result\<close> is what the zones give, from any ready cache of patterns.\<close>

definition local_result :: "('j, 'r, 'w) server_config \<Rightarrow> DnsParser \<Rightarrow> int \<times> bytes" where
  "local_result cfg p =
     (if cfg_DohOnly cfg then (-1, [])
      else case LocalDns_CheckLocalMatch (cfg_json cfg) (cfg_engine cfg) (cfg_DefaultTtl cfg) (cfg_Zones cfg) p [] [] of
          Some (r, _) \<Rightarrow> r
        | None \<Rightarrow> (-1, []))"

definition upstream_empty :: "('j, 'r, 'w) server_config \<Rightarrow> bytes \<Rightarrow> DnsParser \<Rightarrow> ('r, 'w) server_state \<Rightarrow> bool" where
  "upstream_empty cfg q p st =
     (let (now, w) = env_now (cfg_env cfg) (srv_world st)
      in (case DnsCache_Lookup (prs_Domain p) (DnsQuestion_Qtype (hd (req_Questions (prs_Packet p))) False)
              (DnsHeader_Id (req_Header (prs_Packet p)) False) now [] (m_DnsCache st) of
            Some (hit, _) \<Rightarrow> \<not> hit | None \<Rightarrow> False) \<and>
         (case DnsOverHttps_Resolve (cfg_env cfg) (cfg_Doh cfg) (Some q) (length q) [] w of
            (r, body, _) \<Rightarrow> r = Resolve_Success \<and> body = []))"

definition silent :: "('j, 'r, 'w) server_config \<Rightarrow> bytes \<Rightarrow> DnsParser \<Rightarrow> ('r, 'w) server_state \<Rightarrow> bool" where
  "silent cfg q p st \<longleftrightarrow> early_reply (prs_Packet p) = None \<and> req_EdnsStatus (prs_Packet p) \<noteq> Edns_Ok \<and>
     snd (local_result cfg p) = [] \<and> (fst (local_result cfg p) = 0 \<or> upstream_empty cfg q p st)"

lemma resolve_loop_keeps: "out \<noteq> [] \<Longrightarrow> fst (snd (resolve_loop env d data q start urls last0 out w)) \<noteq> []"
  by (induction urls arbitrary: last0 w) (auto simp: Let_def split: prod.split)

lemma Resolve_keeps: "out \<noteq> [] \<Longrightarrow> fst (snd (DnsOverHttps_Resolve env d data n out w)) \<noteq> []"
  by (auto simp: DnsOverHttps_Resolve_def resolve_loop_keeps Let_def split: option.split prod.split)

lemma SERVFAIL_nonempty [simp]: "snd (DnsResponse_SERVFAIL p) \<noteq> []"
  by (simp add: DnsResponse_SERVFAIL_def)

lemma upstream_silent:
  assumes "server_inv cfg st" and "q \<noteq> []"
  shows "\<exists>out st'. resolve_upstream cfg q p out0 st = Some (True, out, st') \<and> server_inv cfg st' \<and>
    (out = [] \<longleftrightarrow> out0 = [] \<and> upstream_empty cfg q p st)"
proof -
  obtain found out st' where up: "resolve_upstream cfg q p out0 st = Some (found, out, st')" "server_inv cfg st'"
    using resolve_upstream_inv [OF assms(1)] by blast
  have found: "found" by (rule upstream_always_found [OF up(1) assms(2)])
  obtain now w where now: "env_now (cfg_env cfg) (srv_world st) = (now, w)" by (metis surj_pair)
  let ?look = "\<lambda>o0. DnsCache_Lookup (prs_Domain p) (DnsQuestion_Qtype (hd (req_Questions (prs_Packet p))) False)
      (DnsHeader_Id (req_Header (prs_Packet p)) False) now o0 (m_DnsCache st)"
  obtain hit out1 c where look: "?look out0 = Some (hit, out1, c)" using Lookup_total by blast
  have look0: "\<exists>o1. ?look [] = Some (hit, o1, c)" using look by (auto simp: Lookup_eq Let_def split: option.splits if_splits)
  have inv: "cache_inv (m_DnsCache st)" using assms(1) by (simp add: server_inv_def)
  have "out = [] \<longleftrightarrow> out0 = [] \<and> upstream_empty cfg q p st"
  proof (cases hit)
    case True
    then show ?thesis
      using up(1) look look0 Lookup_nonempty [of _ _ _ _ out0] inv
      by (auto simp: resolve_upstream_def upstream_empty_def now)
  next
    case False
    then have "?look out0 = Some (False, out1, c)" using look by simp
    from Lookup_miss [OF this] have out1: "out1 = out0" .
    obtain r body w' where res: "DnsOverHttps_Resolve (cfg_env cfg) (cfg_Doh cfg) (Some q) (length q) out0 w = (r, body, w')"
      by (metis prod_cases3)
    have keeps: "out0 \<noteq> [] \<Longrightarrow> body \<noteq> []"
      using Resolve_keeps [of out0 "cfg_env cfg" "cfg_Doh cfg" "Some q" "length q" w] by (simp add: res)
    have "out = (if r = Resolve_Success then body else snd (DnsResponse_SERVFAIL (prs_Packet p)))"
      using up(1) look False found
      by (auto simp: resolve_upstream_def now out1 res Let_def split: if_splits option.splits prod.splits)
    moreover have "upstream_empty cfg q p st \<longleftrightarrow> r = Resolve_Success \<and> body = []" if "out0 = []"
      using that look0 False res by (auto simp: upstream_empty_def now)
    ultimately show ?thesis using keeps by auto
  qed
  then show ?thesis using up found by (intro exI [of _ out] exI [of _ st']) simp
qed

lemma local_result_eq:
  assumes "server_inv cfg st" and "cfg_DohOnly cfg \<or> valid_patterns (cfg_json cfg) (cfg_engine cfg) (cfg_Zones cfg)"
  shows "\<exists>rc. ready (cfg_engine cfg) rc \<and>
    (if \<not> cfg_DohOnly cfg
     then LocalDns_CheckLocalMatch (cfg_json cfg) (cfg_engine cfg) (cfg_DefaultTtl cfg) (cfg_Zones cfg) p [] (m_RegexCache st)
     else Some ((-1, []), m_RegexCache st)) = Some (local_result cfg p, rc)"
proof (cases "cfg_DohOnly cfg")
  case True
  then show ?thesis using assms(1) by (simp add: local_result_def server_inv_def)
next
  case False
  let ?check = "LocalDns_CheckLocalMatch (cfg_json cfg) (cfg_engine cfg) (cfg_DefaultTtl cfg) (cfg_Zones cfg) p []"
  obtain v where v: "\<And>rc. ready (cfg_engine cfg) rc \<Longrightarrow> yields (cfg_engine cfg) (?check rc) v"
    using pure_CheckLocalMatch [of "cfg_json cfg" "cfg_engine cfg" "cfg_Zones cfg" "cfg_DefaultTtl cfg" p "[]"] assms(2) False
    unfolding pure_def by blast
  have "local_result cfg p = v" using v [OF ready_Nil] False by (auto simp: local_result_def yields_def)
  then show ?thesis using v [of "m_RegexCache st"] False assms(1) by (auto simp: yields_def server_inv_def)
qed

lemma query_silent:
  assumes "server_inv cfg st" and "q \<noteq> []"
    and "cfg_DohOnly cfg \<or> valid_patterns (cfg_json cfg) (cfg_engine cfg) (cfg_Zones cfg)"
  shows "\<exists>out st'. resolve_query cfg q p st = Some (out, st') \<and> server_inv cfg st' \<and>
    (out = [] \<longleftrightarrow> snd (local_result cfg p) = [] \<and> (fst (local_result cfg p) = 0 \<or> upstream_empty cfg q p st))"
proof -
  obtain rc where check: "(if \<not> cfg_DohOnly cfg
     then LocalDns_CheckLocalMatch (cfg_json cfg) (cfg_engine cfg) (cfg_DefaultTtl cfg) (cfg_Zones cfg) p [] (m_RegexCache st)
     else Some ((-1, []), m_RegexCache st)) = Some (local_result cfg p, rc)" and rc: "ready (cfg_engine cfg) rc"
    using local_result_eq [OF assms(1,3)] by blast
  obtain code out0 where l: "local_result cfg p = (code, out0)" by (metis surj_pair)
  have inv: "server_inv cfg (st\<lparr>m_RegexCache := rc\<rparr>)" using assms(1) rc by (simp add: server_inv_def)
  have same: "upstream_empty cfg q p (st\<lparr>m_RegexCache := rc\<rparr>) = upstream_empty cfg q p st"
    by (simp add: upstream_empty_def)
  obtain out st' where up: "resolve_upstream cfg q p out0 (st\<lparr>m_RegexCache := rc\<rparr>) = Some (True, out, st')"
    "server_inv cfg st'" "out = [] \<longleftrightarrow> out0 = [] \<and> upstream_empty cfg q p st"
    using upstream_silent [OF inv assms(2), of p out0] unfolding same by blast
  show ?thesis
  proof (cases "code = 0")
    case True
    then show ?thesis using check l inv by (simp add: resolve_query_def)
  next
    case False
    then show ?thesis using check l up by (simp add: resolve_query_def)
  qed
qed

section \<open>Lemmas: a message that parses\<close>

lemma UdpServer_Receive_parsed:
  assumes "12 \<le> length q" and "length q \<le> 512" and "DnsParser_ctor (Some q) (length q) = Inr p"
  shows "UdpServer_Receive cfg q st =
    (case early_reply (prs_Packet p) of
       Some out \<Rightarrow> Some ([out], st)
     | None \<Rightarrow> map_option (\<lambda>(out, st). (UdpServer_Send (udp_finish (prs_Packet p) out), st)) (resolve_query cfg q p st))"
proof -
  have "q \<noteq> []" using assms(1) by auto
  then show ?thesis
    using assms early_reply_nonempty [of "prs_Packet p"]
    by (auto simp: UdpServer_Receive_def DNS_MIN_PACKET_SIZE_def DEFAULT_DNS_PACKET_SIZE_def UdpServer_Send_def Let_def
        split: option.split)
qed

lemma TcpSession_ReadMessage_parsed:
  assumes "DnsParser_ctor (Some q) (length q) = Inr p"
  shows "TcpSession_ReadMessage cfg q st =
    (case early_reply (prs_Packet p) of
       Some out \<Rightarrow> Some (TcpSession_Send out, st)
     | None \<Rightarrow> map_option (\<lambda>(out, st). (TcpSession_Send (tcp_finish (prs_Packet p) out), st)) (resolve_query cfg q p st))"
  using assms by (auto simp: TcpSession_ReadMessage_def split: option.split)

lemma finish_parses:
  assumes "built out r" and "length (resp_Additional r) < 65535"
    and "req_EdnsStatus p = Edns_Ok" and "req_Edns p = Some e"
  shows "built (tcp_finish p out) (with_opt 0 (Some e) r)"
    and "built (udp_finish p out)
      (if length (tcp_finish p out) > unat (m_UdpPayloadSize e) then with_tc (with_opt 0 (Some e) r)
       else with_opt 0 (Some e) r)"
proof -
  have "tcp_finish p out = DnsResponse_AppendOpt out 0 (Some e)"
    using assms(3,4) by (simp add: tcp_finish_def)
  then show *: "built (tcp_finish p out) (with_opt 0 (Some e) r)"
    using AppendOpt_built [OF assms(1,2)] by simp
  have "udp_finish p out = (if length (tcp_finish p out) > unat (m_UdpPayloadSize e) then set_tc (tcp_finish p out)
      else tcp_finish p out)"
    using assms(3,4) by (simp add: udp_finish_def tcp_finish_def Let_def)
  then show "built (udp_finish p out)
      (if length (tcp_finish p out) > unat (m_UdpPayloadSize e) then with_tc (with_opt 0 (Some e) r)
       else with_opt 0 (Some e) r)"
    using * set_tc_built [OF *] by simp
qed

lemma set_tc_octet:
  assumes "4 \<le> length out"
  shows "set_tc out = out[2 := out ! 2 OR 2]"
proof -
  let ?f = "NetworkToHost (load16 out 2) OR 0x0200"
  have "mem16 (HostToNetwork ?f) = [out ! 2 OR 2, out ! 3]"
  proof -
    have "(0x0200 :: u16) = push_bit 8 (ucast (2 :: byte))" by simp
    then have f: "?f = push_bit 8 (ucast (out ! 2 OR 2)) OR ucast (out ! 3)"
      unfolding NetworkToHost_load16 by (simp only:) (rule bit_word_eqI, auto simp only: bit_simps, simp_all)
    have "(ucast (drop_bit 8 (push_bit 8 (ucast x) OR ucast y :: u16)) :: byte) = x"
      and "(ucast (push_bit 8 (ucast x) OR ucast y :: u16) :: byte) = y" for x y :: byte
      by (rule bit_word_eqI; auto simp: bit_simps dest: bit_imp_le_length)+
    then have "(ucast (drop_bit 8 ?f) :: byte) = out ! 2 OR 2" "(ucast ?f :: byte) = out ! 3" unfolding f by blast+
    then show ?thesis by (simp only: mem16_HostToNetwork)
  qed
  moreover have "out ! 3 # drop 4 out = drop 3 out" using assms Cons_nth_drop_Suc [of 3 out] by simp
  ultimately show ?thesis
    using assms by (simp add: set_tc_def Let_def overwrite_def upd_conv_take_nth_drop Cons_nth_drop_Suc)
qed

lemma increment_arcount_octets:
  assumes "12 \<le> length out"
  shows "ReadUint16 (increment_arcount out) 10 = ReadUint16 out 10 + 1" and "length (increment_arcount out) = length out"
    and "i \<noteq> 10 \<Longrightarrow> i \<noteq> 11 \<Longrightarrow> i < length out \<Longrightarrow> increment_arcount out ! i = out ! i"
proof -
  let ?v = "NetworkToHost (load16 out 10) + 1"
  have eq: "increment_arcount out = take 10 out @ mem16 (HostToNetwork ?v) @ drop 12 out"
    using assms
    by (simp add: increment_arcount_def DnsHeader_HeaderSize_def Response_WriteUint16_eq overwrite_def Let_def)
  have "load16 (increment_arcount out) 10 = HostToNetwork ?v"
    unfolding eq using assms by (intro load16_mem16) simp
  then show "ReadUint16 (increment_arcount out) 10 = ReadUint16 out 10 + 1" by (simp add: ReadUint16_load)
  show "length (increment_arcount out) = length out" using assms by (simp add: eq)
  show "i \<noteq> 10 \<Longrightarrow> i \<noteq> 11 \<Longrightarrow> i < length out \<Longrightarrow> increment_arcount out ! i = out ! i"
    using assms by (auto simp: eq nth_append mem16_def)
qed

lemma udp_finish_tcp: "udp_finish p out = tcp_finish p out \<or> udp_finish p out = set_tc (tcp_finish p out)"
  by (simp add: udp_finish_def tcp_finish_def Let_def)

lemma finish_parsed:
  assumes "built out r" and "length (resp_Additional r) < 65535"
    and "req_EdnsStatus p = Edns_Ok" and "req_Edns p = Some e"
  shows "\<exists>u t. DnsResponsePacket_FromWire (Some (udp_finish p out)) (length (udp_finish p out)) r0 = (True, u) \<and>
    DnsResponsePacket_FromWire (Some (tcp_finish p out)) (length (tcp_finish p out)) r0 = (True, t) \<and>
    header_view (resp_Header u) = (header_view (resp_Header t))
      \<lparr>v_tc := v_tc (header_view (resp_Header r)) \<or> length (udp_finish p out) > unat (m_UdpPayloadSize e)\<rparr> \<and>
    header_view (resp_Header t) = (header_view (resp_Header r))
      \<lparr>v_arcount := v_arcount (header_view (resp_Header r)) + 1\<rparr> \<and>
    resp_Additional t = resp_Additional r @ [opt_record 0 (Some e)] \<and>
    (\<forall>x\<in>{u, t}. resp_Questions x = resp_Questions r \<and> resp_Answers x = resp_Answers r \<and>
      resp_Authority x = resp_Authority r \<and> resp_Additional x = resp_Additional t)"
proof -
  let ?t = "with_opt 0 (Some e) r"
  let ?u = "if length (tcp_finish p out) > unat (m_UdpPayloadSize e) then with_tc ?t else ?t"
  have len: "length (udp_finish p out) = length (tcp_finish p out)" using udp_finish_tcp [of p out] by auto
  have ar: "DnsHeader_Arcount (resp_Header r) False = v_arcount (header_view (resp_Header r))"
    by (simp add: header_view_def)
  show ?thesis
    using built_parses [OF finish_parses(1) [OF assms], of r0] built_parses [OF finish_parses(2) [OF assms], of r0]
    by (intro exI [of _ ?u] exI [of _ ?t]) (simp add: len with_opt_def with_tc_def ar)
qed

section \<open>A concrete server\<close>

text \<open>The zones and resolvers of the samples. A transfer of the second world brings \<open>sample_message\<close>.\<close>

definition sample_cfg :: "(sample_value, string, nat) server_config" where
  "sample_cfg =
     \<lparr>cfg_json = sample_json, cfg_engine = sample_engine, cfg_env = sample_env, cfg_DefaultTtl = 300,
      cfg_Zones = sample_zones, cfg_DohOnly = False, cfg_Doh = sample_doh\<rparr>"

definition sample_state :: "(string, nat) server_state" where
  "sample_state = \<lparr>m_DnsCache = DnsCache_ctor 10, m_RegexCache = [], srv_world = 0\<rparr>"

lemma sample_inv: "server_inv sample_cfg sample_state"
  by (simp add: server_inv_def sample_cfg_def sample_state_def ready_def cache_ok_def cache_inv_def DnsCache_ctor_def)

lemma sample_valid: "valid_patterns (cfg_json sample_cfg) (cfg_engine sample_cfg) (cfg_Zones sample_cfg)"
  using sample_patterns by (simp add: sample_cfg_def)

text \<open>A query for the address of a name of two or three labels, as the parser leaves it.\<close>

lemma sample_parses:
  assumes "case DnsRequestPacket_FromWire (Some d) (length d) DnsRequestPacket_default of (ok, packet) \<Rightarrow>
      ok \<and> map m_Qname (req_Questions packet) = [ls] \<and> early_reply packet = None \<and> question_ok packet \<and>
      req_EdnsStatus packet = Edns_None"
    and "zone_labels ls" and "12 \<le> length d" and "length d \<le> 512"
  shows "\<exists>p. DnsParser_ctor (Some d) (length d) = Inr p \<and> prs_Domain p = join_with CHR ''.'' ls \<and>
    prs_RootDomain p = join_with CHR ''.'' (drop (length ls - 2) ls) \<and> early_reply (prs_Packet p) = None \<and>
    question_ok (prs_Packet p) \<and> req_EdnsStatus (prs_Packet p) = Edns_None"
proof -
  obtain packet q where "DnsRequestPacket_FromWire (Some d) (length d) DnsRequestPacket_default = (True, packet)"
    "req_Questions packet = [q]" "m_Qname q = ls" "early_reply packet = None" "question_ok packet"
    "req_EdnsStatus packet = Edns_None"
    using assms(1) by (auto split: prod.splits)
  then show ?thesis
    using assms(2-4) CacheDomainParts_labels [of packet q] DnsParser_ctor_cases [of d "length d"] by auto
qed

definition sample_datagram :: bytes where
  "sample_datagram = request_image (DnsRequestPacket_MakeAQuery 7 ''www.c.d'' True)"

lemma sample_datagram_parses:
  "\<exists>p. DnsParser_ctor (Some sample_datagram) (length sample_datagram) = Inr p \<and> prs_Domain p = ''www.c.d'' \<and>
    prs_RootDomain p = ''c.d'' \<and> early_reply (prs_Packet p) = None \<and>
    question_ok (prs_Packet p) \<and> req_EdnsStatus (prs_Packet p) = Edns_None"
proof -
  have "case DnsRequestPacket_FromWire (Some sample_datagram) (length sample_datagram) DnsRequestPacket_default of (ok, packet) \<Rightarrow>
      ok \<and> map m_Qname (req_Questions packet) = [[''www'', ''c'', ''d'']] \<and> early_reply packet = None \<and>
      question_ok packet \<and> req_EdnsStatus packet = Edns_None"
    by code_simp
  moreover have "12 \<le> length sample_datagram" "length sample_datagram \<le> 512" by code_simp+
  moreover have "zone_labels [''www'', ''c'', ''d'']" by (simp add: plain_def line_terminator_def)
  ultimately show ?thesis using sample_parses [where d = sample_datagram and ls = "[''www'', ''c'', ''d'']"] by (simp add: join_with_Cons)
qed

lemma sample_datagram_size: "12 \<le> length sample_datagram" "length sample_datagram \<le> 512" "sample_datagram \<noteq> []"
  by code_simp+

text \<open>A query whose OPT record announces room for 10 octets only.\<close>

definition sample_edns_query :: DnsRequestPacket where
  "sample_edns_query = sample_query
     \<lparr>req_EdnsStatus := Edns_Ok, req_Edns := Some \<lparr>m_UdpPayloadSize = 10, m_ExtendedRcode = 0, m_Version = 0,
        m_DoBit = False, m_Options = []\<rparr>\<rparr>"

text \<open>A network on which every transfer brings the response \<open>sample_response\<close>.\<close>

definition sample_net :: "(sample_value, string, nat) server_config" where
  "sample_net = sample_cfg\<lparr>cfg_env := sample_env\<lparr>env_transfer := (\<lambda>e w. (\<lparr>tr_added = True, tr_performed = True,
     tr_chunks = [(response_image sample_response)], tr_messages = [Message_done True], tr_http_code = 200\<rparr>, Suc w))\<rparr>\<rparr>"

lemma sample_answer_facts: "length (response_image sample_response) = 40"
    "ExtractMinTtl (response_image sample_response) 40 = 300"
proof -
  show l: "length (response_image sample_response) = 40" by code_simp
  show "ExtractMinTtl (response_image sample_response) 40 = 300" using sample_response_ttl unfolding l .
qed

lemma sample_net_resolves:
  "DnsOverHttps_Resolve (cfg_env sample_net) (cfg_Doh sample_net) (Some sample_datagram) (length sample_datagram) out w =
    (Resolve_Success, (response_image sample_response), Suc w)"
proof -
  have body: "snd (receive_body [(response_image sample_response)] []) = (response_image sample_response)"
    by (simp add: DnsOverHttps_WriteCallback_def MAX_DOH_RESPONSE_SIZE_def size_t_range_def sample_answer_facts)
  have "(response_image sample_response) \<noteq> []" using sample_answer_facts(1) by auto
  then show ?thesis
    using sample_datagram_size
    by (simp add: sample_net_def sample_cfg_def DnsOverHttps_Resolve_def DnsOverHttps_ShuffledResolvers_def sample_doh_def
        sample_env_def PerformSingleTransfer_eq transfer_outcome_def transfer_result_def transfer_body_def body
        DnsOverHttps_CreateEasyHandle_def resolver_url_def DnsOverHttps_HttpCodeToResult_def
        DnsOverHttps_IsRetryable_def Let_def del: receive_body.simps)
qed

section \<open>Lemmas: a blocked zone\<close>

lemma blocked_reply:
  assumes "DnsParser_ctor (Some q) (length q) = Inr p"
    and "early_reply (prs_Packet p) = None" and "question_ok (prs_Packet p)" and "\<not> cfg_DohOnly cfg"
    and "prs_RootDomain p \<noteq> []" and "json_contains (cfg_json cfg) (cfg_Zones cfg) (prs_RootDomain p)"
    and "json_is_string (cfg_json cfg) (json_at (cfg_json cfg) (cfg_Zones cfg) (prs_RootDomain p))"
    and "json_string (cfg_json cfg) (json_at (cfg_json cfg) (cfg_Zones cfg) (prs_RootDomain p)) = Some ''{{BLOCKED}}''"
    and "\<And>s. json_is_string (cfg_json cfg) (json_of_string (cfg_json cfg) s) \<and>
      json_string (cfg_json cfg) (json_of_string (cfg_json cfg) s) = Some s"
  shows "\<exists>out r. (length q \<le> 512 \<longrightarrow> UdpServer_Receive cfg q st = Some ([udp_finish (prs_Packet p) out], st)) \<and>
    TcpSession_ReadMessage cfg q st = Some (TcpSession_Send (tcp_finish (prs_Packet p) out), st) \<and>
    DnsResponsePacket_FromWire (Some out) (length out) r0 = (True, r) \<and>
    header_view (resp_Header r) =
      reply_view (prs_Packet p) True 3 1 0 (if zone_encodable (prs_RootDomain p) then 1 else 0) 0 \<and>
    resp_Questions r = [hd (req_Questions (prs_Packet p))] \<and> resp_Answers r = [] \<and> resp_Additional r = []"
proof -
  obtain out r where out: "DnsResponse_NXDOMAIN (cfg_DefaultTtl cfg) (prs_Packet p) (prs_RootDomain p) = (0, out)"
    "built out r"
    "header_view (resp_Header r) =
      reply_view (prs_Packet p) True 3 1 0 (if zone_encodable (prs_RootDomain p) then 1 else 0) 0"
    "resp_Questions r = [hd (req_Questions (prs_Packet p))]" "resp_Answers r = []" "resp_Additional r = []"
    using NXDOMAIN_built [OF assms(3)] by blast
  have "12 \<le> length q" using assms(1) by (simp add: DnsParser_ctor_cases)
  moreover have "resolve_query cfg q p st = Some (out, st)"
    using assms(4) out(1) by (simp add: resolve_query_def CheckLocalMatch_blocked [OF assms(5-9)])
  moreover have "out \<noteq> []" using out(2) by (auto simp: built_def)
  ultimately show ?thesis
    using assms(2) out built_parses [OF out(2), of r0] finish_nonempty [of out "prs_Packet p"]
    by (intro exI [of _ out] exI [of _ r])
      (simp add: UdpServer_Receive_parsed [OF _ _ assms(1)] TcpSession_ReadMessage_parsed [OF assms(1)] UdpServer_Send_def)
qed

section \<open>Properties\<close>






text \<open>The sample query is answered when the network delivers a body; it is not when the resolver's body is empty.\<close>

definition sample_mute :: "(sample_value, string, nat) server_config" where
  "sample_mute = sample_cfg\<lparr>cfg_DohOnly := True, cfg_env := sample_env\<lparr>env_transfer := (\<lambda>e w. (\<lparr>tr_added = True,
     tr_performed = True, tr_chunks = [], tr_messages = [Message_done True], tr_http_code = 200\<rparr>, Suc w))\<rparr>\<rparr>"

lemma sample_mute_resolves:
  "DnsOverHttps_Resolve (cfg_env sample_mute) (cfg_Doh sample_mute) (Some sample_datagram) (length sample_datagram) [] w =
    (Resolve_Success, [], Suc w)"
  using sample_datagram_size
  by (simp add: sample_mute_def sample_cfg_def DnsOverHttps_Resolve_def DnsOverHttps_ShuffledResolvers_def sample_doh_def
      sample_env_def PerformSingleTransfer_eq transfer_outcome_def transfer_result_def transfer_body_def
      DnsOverHttps_CreateEasyHandle_def resolver_url_def DnsOverHttps_HttpCodeToResult_def Let_def)


text \<open>C20: how the reply to an EDNS query is finished, wherever it comes from (built, cached, or sent by a resolver), if it
  has at least a header. On both transports one OPT record is appended, whether or not there is one already, the
  count of additional records goes up by one (modulo 65536), and no other octet changes; nothing is cut off. On UDP
  the TC bit is also switched on exactly when the octets exceed the payload size of the client; a TC bit that is on
  already stays. For a reply that a builder made, both parse as the reply with one OPT record more.\<close>

theorem edns_reply_finished:
  assumes "12 \<le> length out" and "req_EdnsStatus p = Edns_Ok" and "req_Edns p = Some e"
  shows "length (tcp_finish p out) = length out + length (answer_image (opt_record 0 (Some e))) \<and>
    drop (length out) (tcp_finish p out) = answer_image (opt_record 0 (Some e)) \<and>
    ReadUint16 (tcp_finish p out) 10 = ReadUint16 out 10 + 1 \<and>
    (\<forall>i<length out. i \<noteq> 10 \<and> i \<noteq> 11 \<longrightarrow> tcp_finish p out ! i = out ! i) \<and>
    udp_finish p out =
      (if length (tcp_finish p out) > unat (m_UdpPayloadSize e) then (tcp_finish p out)[2 := out ! 2 OR 2]
       else tcp_finish p out) \<and>
    (built out r \<and> length (resp_Additional r) < 65535 \<longrightarrow>
      (\<exists>u t. DnsResponsePacket_FromWire (Some (udp_finish p out)) (length (udp_finish p out)) r0 = (True, u) \<and>
        DnsResponsePacket_FromWire (Some (tcp_finish p out)) (length (tcp_finish p out)) r0 = (True, t) \<and>
        header_view (resp_Header u) = (header_view (resp_Header t))
          \<lparr>v_tc := v_tc (header_view (resp_Header r)) \<or> length (udp_finish p out) > unat (m_UdpPayloadSize e)\<rparr> \<and>
        header_view (resp_Header t) = (header_view (resp_Header r))
          \<lparr>v_arcount := v_arcount (header_view (resp_Header r)) + 1\<rparr> \<and>
        resp_Additional t = resp_Additional r @ [opt_record 0 (Some e)] \<and>
        (\<forall>x\<in>{u, t}. resp_Questions x = resp_Questions r \<and> resp_Answers x = resp_Answers r \<and>
          resp_Authority x = resp_Authority r \<and> resp_Additional x = resp_Additional t)))"
proof -
  let ?img = "answer_image (opt_record 0 (Some e))"
  have fin: "tcp_finish p out = DnsResponse_AppendOpt out 0 (Some e)" using assms(2,3) by (simp add: tcp_finish_def)
  then have t: "tcp_finish p out = increment_arcount (out @ ?img)" by (simp add: AppendOpt_eq)
  note octets = increment_arcount_octets [of "out @ ?img"]
  have len: "length (tcp_finish p out) = length out + length ?img" using octets(2) assms(1) by (simp add: t)
  have same: "tcp_finish p out ! i = (out @ ?img) ! i" if "i \<noteq> 10" "i \<noteq> 11" "i < length out + length ?img" for i
    using octets(3) that assms(1) by (simp add: t)
  have opt: "drop (length out) (tcp_finish p out) = ?img"
    by (rule nth_equalityI) (use len same assms(1) in \<open>auto simp: nth_append\<close>)
  have count: "ReadUint16 (tcp_finish p out) 10 = ReadUint16 out 10 + 1"
    using octets(1) assms(1) by (simp add: t ReadUint16_def nth_append)
  have rest: "\<forall>i<length out. i \<noteq> 10 \<and> i \<noteq> 11 \<longrightarrow> tcp_finish p out ! i = out ! i"
    using same by (simp add: nth_append)
  have udp: "udp_finish p out = (if length (tcp_finish p out) > unat (m_UdpPayloadSize e) then (tcp_finish p out)[2 := out ! 2 OR 2]
       else tcp_finish p out)"
    using assms set_tc_octet [of "tcp_finish p out"] len rest
    by (auto simp: udp_finish_def fin Let_def)
  have parsed: "\<exists>u t. DnsResponsePacket_FromWire (Some (udp_finish p out)) (length (udp_finish p out)) r0 = (True, u) \<and>
        DnsResponsePacket_FromWire (Some (tcp_finish p out)) (length (tcp_finish p out)) r0 = (True, t) \<and>
        header_view (resp_Header u) = (header_view (resp_Header t))
          \<lparr>v_tc := v_tc (header_view (resp_Header r)) \<or> length (udp_finish p out) > unat (m_UdpPayloadSize e)\<rparr> \<and>
        header_view (resp_Header t) = (header_view (resp_Header r))
          \<lparr>v_arcount := v_arcount (header_view (resp_Header r)) + 1\<rparr> \<and>
        resp_Additional t = resp_Additional r @ [opt_record 0 (Some e)] \<and>
        (\<forall>x\<in>{u, t}. resp_Questions x = resp_Questions r \<and> resp_Answers x = resp_Answers r \<and>
          resp_Authority x = resp_Authority r \<and> resp_Additional x = resp_Additional t)"
    if "built out r" "length (resp_Additional r) < 65535"
    by (rule finish_parsed [OF that assms(2,3)])
  show ?thesis using len opt count rest udp parsed by blast
qed

text \<open>The witness is a resolver's reply: a response with its own OPT record gets a second one, and the TC bit.\<close>

theorem edns_reply_finished_witness:
  "let out = tcp_finish sample_edns_query (response_image sample_response);
       t = tcp_finish sample_edns_query out
   in drop (length out) t = drop 40 out \<and> ReadUint16 t 10 = 2 \<and>
      udp_finish sample_edns_query out = t[2 := out ! 2 OR 2]"
proof -
  let ?e = "\<lparr>m_UdpPayloadSize = 10, m_ExtendedRcode = 0, m_Version = 0, m_DoBit = False, m_Options = []\<rparr>"
  let ?r = "response_image sample_response" and ?out = "tcp_finish sample_edns_query (response_image sample_response)"
  have q: "req_EdnsStatus sample_edns_query = Edns_Ok" "req_Edns sample_edns_query = Some ?e"
    by (simp_all add: sample_edns_query_def)
  have l: "12 \<le> length ?r" "length ?r = 40" using sample_answer_facts(1) by simp_all
  have z: "ReadUint16 ?r 10 = 0" by code_simp
  note first = edns_reply_finished [OF l(1) q, of sample_response DnsResponsePacket_default]
  from first have "12 \<le> length ?out" using l by simp
  note second = edns_reply_finished [OF this q, of sample_response DnsResponsePacket_default]
  have "length (tcp_finish sample_edns_query ?out) > unat (m_UdpPayloadSize ?e)" using first second l(2) by simp
  then show ?thesis using first second l(2) z by (auto simp: Let_def)
qed

text \<open>C22: a client that frames its queries as the session frames its replies has each of them handled, in order and
  once, as if they had been read one by one; a last message that is not complete has no effect.\<close>

theorem tcp_stream_in_order:
  assumes "\<forall>m\<in>set ms. 12 \<le> length m \<and> length m \<le> 65535" and "tcp_messages rest = []"
  shows "TcpSession_ReadLength cfg (concat (map (concat \<circ> TcpSession_Send) ms) @ rest) st =
    serve_all (TcpSession_ReadMessage cfg) ms st"
  using assms by (simp add: ReadLength_serves tcp_messages_framed)

theorem tcp_stream_in_order_witness:
  "TcpSession_ReadLength sample_cfg (concat (map (concat \<circ> TcpSession_Send) [sample_datagram, replicate 12 0]) @ [0, 28, 1])
      sample_state =
    serve_all (TcpSession_ReadMessage sample_cfg) [sample_datagram, replicate 12 0] sample_state"
proof (rule tcp_stream_in_order)
  show "\<forall>m\<in>set [sample_datagram, replicate 12 0]. 12 \<le> length m \<and> length m \<le> 65535"
    using sample_datagram_size by simp
  show "tcp_messages [0, 28, 1] = []"
    by (simp add: tcp_messages.simps [of "[0, 28, 1]"] message_length_bytes Let_def)
qed

text \<open>C21: the two transports agree. For a message that UDP accepts, the session and the UDP server change the state in
  the same way and send the same octets, except that UDP may set the TC bit.\<close>

theorem udp_tcp_agree:
  assumes "12 \<le> length q" and "length q \<le> 512" and "UdpServer_Receive cfg q st = Some (us, st')"
  shows "\<exists>out. TcpSession_ReadMessage cfg q st = Some (TcpSession_Send out, st') \<and>
    (us = UdpServer_Send out \<or> us = UdpServer_Send (set_tc out))"
proof (cases "DnsParser_ctor (Some q) (length q)")
  case (Inl e)
  have "q \<noteq> []" using assms(1) by auto
  then show ?thesis
    using assms Inl
    by (intro exI [of _ "snd (DnsResponse_CallResponseFunction_raw ''FORMERR'' (Some q) (length q) [])"])
      (auto simp: UdpServer_Receive_def TcpSession_ReadMessage_def DNS_MIN_PACKET_SIZE_def DEFAULT_DNS_PACKET_SIZE_def
        UdpServer_Send_def TcpSession_Send_def Let_def split: if_splits)
next
  case (Inr p)
  show ?thesis
  proof (cases "early_reply (prs_Packet p)")
    case None
    with assms Inr obtain out where out: "resolve_query cfg q p st = Some (out, st')"
      "us = UdpServer_Send (udp_finish (prs_Packet p) out)"
      by (auto simp: UdpServer_Receive_parsed)
    show ?thesis
      using None out udp_finish_tcp [of "prs_Packet p" out]
      by (intro exI [of _ "tcp_finish (prs_Packet p) out"]) (auto simp: TcpSession_ReadMessage_parsed [OF Inr])
  next
    case (Some out)
    then show ?thesis
      using assms Inr early_reply_nonempty [OF Some]
      by (auto simp: UdpServer_Receive_parsed TcpSession_ReadMessage_parsed UdpServer_Send_def intro!: exI [of _ out])
  qed
qed

theorem udp_tcp_agree_witness:
  "\<exists>us st'. UdpServer_Receive sample_cfg sample_datagram sample_state = Some (us, st') \<and>
    (\<exists>out. TcpSession_ReadMessage sample_cfg sample_datagram sample_state = Some (TcpSession_Send out, st') \<and>
      (us = UdpServer_Send out \<or> us = UdpServer_Send (set_tc out)))"
  using UdpServer_Receive_inv [OF sample_inv sample_valid, of sample_datagram]
    udp_tcp_agree [OF sample_datagram_size(1,2), of sample_cfg sample_state] by blast

text \<open>C18: the response that a resolver gave is not asked for again. If the first query for a name and type missed the
  cache and was answered upstream with a lifetime that is not zero, then a second query for the name, in any letter
  case, and the type is answered without any transfer until that lifetime is over, with its own identifier and with
  the TTLs reduced by the seconds elapsed.\<close>

theorem repeated_query_from_cache:
  fixes cfg :: "('j, 'r, 'w) server_config"
  defines "qtype \<equiv> \<lambda>p. DnsQuestion_Qtype (hd (req_Questions (prs_Packet p))) False"
  assumes "0 < m_MaxEntries (m_DnsCache st)"
    and "map_of (m_Cache (m_DnsCache st)) (ToLower (prs_Domain p1), qtype p1) = None"
    and "env_now (cfg_env cfg) (srv_world st) = (t0, w0)"
    and "DnsOverHttps_Resolve (cfg_env cfg) (cfg_Doh cfg) (Some q1) (length q1) out1 w0 = (Resolve_Success, r, w1)"
    and "env_now (cfg_env cfg) w1 = (t1, w2)" and "env_now (cfg_env cfg) w2 = (t2, w3)"
    and "12 \<le> length r" and "ExtractMinTtl r (length r) \<noteq> 0"
    and "ToLower (prs_Domain p2) = ToLower (prs_Domain p1)" and "qtype p2 = qtype p1"
    and "env_now (cfg_env cfg) w4 = (t, w5)" and "elapsed_seconds t t2 < int (unat (ExtractMinTtl r (length r)))"
  shows "\<exists>c. resolve_upstream cfg q1 p1 out1 st = Some (True, r, st\<lparr>m_DnsCache := c, srv_world := w3\<rparr>) \<and>
    resolve_upstream cfg q2 p2 out2 (st\<lparr>m_DnsCache := c, srv_world := w4\<rparr>) =
      Some (True, snd (AdjustTtls (WriteUint16 r 0 (DnsHeader_Id (req_Header (prs_Packet p2)) False))
                        (of_int (elapsed_seconds t t2))), st\<lparr>m_DnsCache := c, srv_world := w5\<rparr>)"
proof -
  obtain c where c: "DnsCache_Insert (prs_Domain p1) (qtype p1) r t1 t2 (m_DnsCache st) = Some c"
    "map_of (m_Cache c) (ToLower (prs_Domain p1), qtype p1) =
      Some \<lparr>ce_response = r, ce_insert_time = t2, ce_min_ttl = ExtractMinTtl r (length r)\<rparr>"
    using Insert_stores [OF assms(2,8,9)] by blast
  have "resolve_upstream cfg q1 p1 out1 st = Some (True, r, st\<lparr>m_DnsCache := c, srv_world := w3\<rparr>)"
    using assms(3-7) c(1) by (simp add: resolve_upstream_def Lookup_eq qtype_def)
  moreover have "resolve_upstream cfg q2 p2 out2 (st\<lparr>m_DnsCache := c, srv_world := w4\<rparr>) =
      Some (True, snd (AdjustTtls (WriteUint16 r 0 (DnsHeader_Id (req_Header (prs_Packet p2)) False))
                        (of_int (elapsed_seconds t t2))), st\<lparr>m_DnsCache := c, srv_world := w5\<rparr>)"
    using assms(8,10-13) c(2) by (simp add: resolve_upstream_def Lookup_eq entry_expired_def qtype_def Let_def)
  ultimately show ?thesis by blast
qed

theorem repeated_query_from_cache_witness:
  "\<exists>c. resolve_upstream sample_net sample_datagram (sample_parser 1 ''www'' ''A.B'') [] sample_state =
      Some (True, (response_image sample_response), sample_state\<lparr>m_DnsCache := c, srv_world := 1\<rparr>) \<and>
    resolve_upstream sample_net sample_datagram (sample_parser 1 ''www'' ''a.b'') []
        (sample_state\<lparr>m_DnsCache := c, srv_world := 1\<rparr>) =
      Some (True, snd (AdjustTtls (WriteUint16 (response_image sample_response) 0 7) 0), sample_state\<lparr>m_DnsCache := c, srv_world := 1\<rparr>)"
proof -
  have "ToLower (prs_Domain (sample_parser 1 ''www'' ''a.b'')) = ToLower (prs_Domain (sample_parser 1 ''www'' ''A.B''))"
    "DnsQuestion_Qtype (hd (req_Questions (prs_Packet (sample_parser 1 ''www'' ''a.b'')))) False =
      DnsQuestion_Qtype (hd (req_Questions (prs_Packet (sample_parser 1 ''www'' ''A.B'')))) False"
    "DnsHeader_Id (req_Header (prs_Packet (sample_parser 1 ''www'' ''a.b''))) False = 7"
    by code_simp+
  moreover have "env_now (cfg_env sample_net) w = (5, w)" for w by (simp add: sample_net_def sample_env_def)
  moreover have "srv_world sample_state = 0" "m_DnsCache sample_state = DnsCache_ctor 10"
    by (simp_all add: sample_state_def)
  ultimately show ?thesis
    using repeated_query_from_cache [where cfg = sample_net and st = sample_state and r = "response_image sample_response" and
        ?p1.0 = "sample_parser 1 ''www'' ''A.B''" and ?p2.0 = "sample_parser 1 ''www'' ''a.b''" and
        ?q1.0 = sample_datagram and ?q2.0 = sample_datagram and ?out1.0 = "[]" and ?out2.0 = "[]" and
        ?t0.0 = 5 and ?w0.0 = 0 and ?w1.0 = 1 and ?t1.0 = 5 and ?w2.0 = 1 and ?t2.0 = 5 and ?w3.0 = 1 and ?w4.0 = 1 and
        t = 5 and ?w5.0 = 1] sample_net_resolves [of "[]" 0]
    by (simp add: sample_answer_facts DnsCache_ctor_def elapsed_seconds_def)
qed

end
