(* ===== verification/Config_Parser.thy ===== *)
theory Config_Parser
  imports Local_Dns
begin

text \<open>
  Reading the zones file (\<^verbatim>\<open>src/config_parser.cc\<close>): the \<^verbatim>\<open>zones\<close> array of the file becomes an object that maps a
  zone name to \<^verbatim>\<open>{{BLOCKED}}\<close> or to an object that maps a record type to an object from subdomain patterns to
  values; then the addresses of A and AAAA records become octets.

  The file system is a function from paths to \<open>file_state\<close>; the text of the built-in zones, which the build generates, is
  an argument. Loops over a JSON value are recursions over the list of its elements or items. An exception that
  leaves a function is \<open>Inl\<close>. The operations of the JSON library are those of \<open>json\<close>; \<open>json_laws\<close> states what the
  proofs need to know about them.
\<close>

datatype file_state = No_file | Not_regular | Unreadable | Readable string

section \<open>Reading the file\<close>

definition ConfigParser_Parse :: "'j json \<Rightarrow> (string \<Rightarrow> file_state) \<Rightarrow> string \<Rightarrow> 'j" where
  "ConfigParser_Parse js fs p_Path =
     (if p_Path = [] then json_object js
      else case fs (c_str p_Path) of
        No_file \<Rightarrow> json_object js
      | Not_regular \<Rightarrow> json_object js
      | Unreadable \<Rightarrow> json_object js
      | Readable s_InputFile \<Rightarrow>
          (case json_parse js s_InputFile of Some s_Zones \<Rightarrow> s_Zones | None \<Rightarrow> json_object js))"

definition ConfigParser_LoadDefault :: "'j json \<Rightarrow> string \<Rightarrow> cpp_error + 'j" where
  "ConfigParser_LoadDefault js g_DefaultJson =
     (case json_parse js g_DefaultJson of
        Some s_DefaultZones \<Rightarrow> Inr s_DefaultZones
      | None \<Rightarrow> Inl (Runtime_error ''Internal default rules are corrupted''))"

section \<open>Normalising the zones\<close>

definition json_is :: "'j json \<Rightarrow> 'j \<Rightarrow> string \<Rightarrow> bool" where
  "json_is js v s \<longleftrightarrow> json_is_string js v \<and> json_string js v = Some s"

definition strip_dot :: "string \<Rightarrow> string" where
  "strip_dot s = (if s \<noteq> [] \<and> last s = CHR ''.'' then butlast s else s)"

text \<open>\<^verbatim>\<open>v.value(key, false)\<close>\<close>

definition json_flag :: "'j json \<Rightarrow> 'j \<Rightarrow> string \<Rightarrow> bool option" where
  "json_flag js v key = (if json_contains js v key then json_bool js (json_at js v key) else Some False)"

definition escape_dots :: "string \<Rightarrow> string" where
  "escape_dots s_Name = concat (map (\<lambda>c. if c = CHR ''.'' then [CHR 0x5C, CHR ''.''] else [c]) s_Name)"

definition any_prefix :: string where
  "any_prefix = ''(.*'' @ [CHR 0x5C] @ ''.)?''"

definition sub_key :: "bool \<Rightarrow> bool \<Rightarrow> string \<Rightarrow> string" where
  "sub_key s_IsRegex s_IsForwardAll s_Name =
     (if s_IsRegex then if s_IsForwardAll then any_prefix @ s_Name else s_Name
      else if s_Name = ''@'' then ''@''
      else if s_Name = ''*'' then wildcard_key
      else if s_IsForwardAll then any_prefix @ escape_dots s_Name else escape_dots s_Name)"

text \<open>The nested assignments \<^verbatim>\<open>s_Result[zone][type] = v\<close> and \<^verbatim>\<open>s_Result[zone][type][key] = v\<close>.\<close>

definition set_type :: "'j json \<Rightarrow> string \<Rightarrow> string \<Rightarrow> 'j \<Rightarrow> 'j \<Rightarrow> 'j" where
  "set_type js z t v s_Result = json_set js s_Result z (json_set js (json_at js s_Result z) t v)"

definition set_value :: "'j json \<Rightarrow> string \<Rightarrow> string \<Rightarrow> string \<Rightarrow> 'j \<Rightarrow> 'j \<Rightarrow> 'j" where
  "set_value js z t k v s_Result =
     set_type js z t (json_set js (json_at js (json_at js s_Result z) t) k v) s_Result"

text \<open>Several records for one key make an array.\<close>

definition add_value :: "'j json \<Rightarrow> string \<Rightarrow> string \<Rightarrow> string \<Rightarrow> 'j \<Rightarrow> 'j \<Rightarrow> 'j" where
  "add_value js z t k v s_Result =
     (let s_Result = (if json_contains js (json_at js s_Result z) t then s_Result
                      else set_type js z t (json_object js) s_Result);
          s_Values = json_at js (json_at js s_Result z) t
      in if json_contains js s_Values k then
           (let s_Existing = json_at js s_Values k
            in if json_is_array js s_Existing
               then set_value js z t k (json_array js (json_elements js s_Existing @ [v])) s_Result
               else set_value js z t k (json_array js [s_Existing, v]) s_Result)
         else set_value js z t k v s_Result)"

definition NormalizeRecord :: "'j json \<Rightarrow> string \<Rightarrow> 'j \<Rightarrow> 'j \<Rightarrow> cpp_error + 'j" where
  "NormalizeRecord js s_ZoneName l_Record s_Result =
     (if \<not> json_is_object js l_Record \<or> \<not> json_contains js l_Record ''name'' \<or> \<not> json_contains js l_Record ''type'' \<or>
         \<not> json_contains js l_Record ''data'' then Inr s_Result
      else case json_string js (json_at js l_Record ''type'') of
        None \<Rightarrow> Inl Json_type_error
      | Some s_Type \<Rightarrow>
          (case json_string js (json_at js l_Record ''name'') of
             None \<Rightarrow> Inl Json_type_error
           | Some s_Name \<Rightarrow>
               (case json_flag js l_Record ''regex'' of
                  None \<Rightarrow> Inl Json_type_error
                | Some s_IsRegex \<Rightarrow>
                    let s_Name = strip_dot s_Name;
                        s_IsForwardAll = json_is js (json_at js l_Record ''data'') ''{{FORWARD_ALL}}'';
                        s_DataValue = (if s_IsForwardAll then json_of_string js ''{{FORWARD}}'' else json_at js l_Record ''data'');
                        s_Result = add_value js s_ZoneName s_Type (sub_key s_IsRegex s_IsForwardAll s_Name) s_DataValue s_Result
                    in Inr (if s_IsForwardAll \<and> s_Name = ''@''
                            then set_value js s_ZoneName s_Type ''.*'' (json_of_string js ''{{FORWARD}}'') s_Result
                            else s_Result))))"

primrec NormalizeRecords :: "'j json \<Rightarrow> string \<Rightarrow> 'j list \<Rightarrow> 'j \<Rightarrow> cpp_error + 'j" where
  "NormalizeRecords js s_ZoneName [] s_Result = Inr s_Result"
| "NormalizeRecords js s_ZoneName (l_Record # rest) s_Result =
     (case NormalizeRecord js s_ZoneName l_Record s_Result of
        Inl e \<Rightarrow> Inl e
      | Inr s_Result \<Rightarrow> NormalizeRecords js s_ZoneName rest s_Result)"

definition NormalizeZone :: "'j json \<Rightarrow> 'j \<Rightarrow> 'j \<Rightarrow> cpp_error + 'j" where
  "NormalizeZone js l_Zone s_Result =
     (if \<not> json_is_object js l_Zone \<or> \<not> json_contains js l_Zone ''zone'' then Inr s_Result
      else case json_string js (json_at js l_Zone ''zone'') of
        None \<Rightarrow> Inl Json_type_error
      | Some s_ZoneName \<Rightarrow>
          (let s_ZoneName = strip_dot s_ZoneName in
           if s_ZoneName = [] then Inr s_Result
           else case json_flag js l_Zone ''blocked'' of
             None \<Rightarrow> Inl Json_type_error
           | Some True \<Rightarrow> Inr (json_set js s_Result s_ZoneName (json_of_string js ''{{BLOCKED}}''))
           | Some False \<Rightarrow>
               if \<not> json_contains js l_Zone ''records'' \<or> \<not> json_is_array js (json_at js l_Zone ''records'') then Inr s_Result
               else NormalizeRecords js s_ZoneName (json_elements js (json_at js l_Zone ''records''))
                      (json_set js s_Result s_ZoneName (json_object js))))"

primrec NormalizeZones_loop :: "'j json \<Rightarrow> 'j list \<Rightarrow> 'j \<Rightarrow> cpp_error + 'j" where
  "NormalizeZones_loop js [] s_Result = Inr s_Result"
| "NormalizeZones_loop js (l_Zone # rest) s_Result =
     (case NormalizeZone js l_Zone s_Result of
        Inl e \<Rightarrow> Inl e
      | Inr s_Result \<Rightarrow> NormalizeZones_loop js rest s_Result)"

definition ConfigParser_NormalizeZones :: "'j json \<Rightarrow> 'j \<Rightarrow> cpp_error + 'j" where
  "ConfigParser_NormalizeZones js p_Zones =
     (if \<not> json_contains js p_Zones ''zones'' \<or> \<not> json_is_array js (json_at js p_Zones ''zones'') then Inr (json_object js)
      else NormalizeZones_loop js (json_elements js (json_at js p_Zones ''zones'')) (json_object js))"

section \<open>Validating addresses\<close>

text \<open>The two \<^verbatim>\<open>inet_pton\<close> functions, and the redirect addresses, are arguments. \<open>address_error\<close> is the message that
  is thrown.\<close>

record address_env =
  pton4 :: "string \<Rightarrow> bytes option"
  pton6 :: "string \<Rightarrow> bytes option"
  redirect4 :: string
  redirect6 :: string

definition address_error :: "string \<Rightarrow> string \<Rightarrow> cpp_error" where
  "address_error p_Ctx what = Runtime_error (''Rule '' @ [CHR 0x27] @ p_Ctx @ [CHR 0x27] @ '': '' @ what)"

definition quoted :: "string \<Rightarrow> string" where
  "quoted s = [CHR 0x27] @ s @ [CHR 0x27]"

definition convertSingleValue :: "'j json \<Rightarrow> address_env \<Rightarrow> 'j \<Rightarrow> string \<Rightarrow> string \<Rightarrow> cpp_error + string" where
  "convertSingleValue js env p_Val p_Ctx p_RecType =
     (let is_A = (p_RecType = ''A'');
          s_Hex = replicate (if is_A then IPV4_BINARY_SIZE else IPV6_BINARY_SIZE) 0;
          to_hex = (\<lambda>s. if is_A then Ipv4ToHex (pton4 env) s s_Hex else Ipv6ToHex (pton6 env) s s_Hex);
          family = (if is_A then ''IPv4'' else ''IPv6'')
      in if json_is js p_Val ''{{SELF}}'' then
           (let redirect = (if is_A then redirect4 env else redirect6 env); (ret, s_Hex) = to_hex redirect
            in if ret \<noteq> 0
               then Inl (address_error p_Ctx (''Invalid '' @ family @ '' redirect address '' @ quoted redirect @
                                              '' for {{SELF}} substitution''))
               else Inr (string_of_bytes s_Hex))
         else if json_is js p_Val ''{{BLOCKED}}'' then
           Inr (string_of_bytes (snd (to_hex (if is_A then ''0.0.0.0'' else ''::''))))
         else if \<not> json_is_string js p_Val then
           Inl (address_error p_Ctx (''Value must be a string, got '' @ json_dump js p_Val))
         else case json_string js p_Val of
           None \<Rightarrow> Inl Json_type_error
         | Some s \<Rightarrow>
             (let (ret, s_Hex) = to_hex s
              in if ret \<noteq> 0
                 then Inl (address_error p_Ctx (''Invalid '' @ family @ '' address '' @ quoted (json_dump js p_Val)))
                 else Inr (string_of_bytes s_Hex)))"

primrec convert_elements ::
  "'j json \<Rightarrow> address_env \<Rightarrow> string \<Rightarrow> string \<Rightarrow> nat \<Rightarrow> 'j list \<Rightarrow> cpp_error + 'j list" where
  "convert_elements js env p_Ctx p_RecType i [] = Inr []"
| "convert_elements js env p_Ctx p_RecType i (v # vs) =
     (case convertSingleValue js env v (p_Ctx @ ''['' @ to_digits 10 i @ '']'') p_RecType of
        Inl e \<Rightarrow> Inl e
      | Inr s \<Rightarrow>
          (case convert_elements js env p_Ctx p_RecType (Suc i) vs of
             Inl e \<Rightarrow> Inl e
           | Inr ws \<Rightarrow> Inr (json_of_string js s # ws)))"

text \<open>The value of one subdomain; \<open>None\<close> leaves it as it is.\<close>

definition convert_value ::
  "'j json \<Rightarrow> address_env \<Rightarrow> string \<Rightarrow> string \<Rightarrow> 'j \<Rightarrow> cpp_error + 'j option" where
  "convert_value js env s_Context l_RecordType l_Value =
     (if json_is js l_Value ''{{FORWARD}}'' then Inr None
      else if json_is_array js l_Value then
        if \<exists>el\<in>set (json_elements js l_Value). json_is js el ''{{FORWARD}}'' then Inr None
        else (case convert_elements js env s_Context l_RecordType 0 (json_elements js l_Value) of
                Inl e \<Rightarrow> Inl e
              | Inr s_HexArray \<Rightarrow> Inr (Some (json_array js s_HexArray)))
      else (case convertSingleValue js env l_Value s_Context l_RecordType of
              Inl e \<Rightarrow> Inl e
            | Inr s \<Rightarrow> Inr (Some (json_of_string js s))))"

primrec convert_subdomains ::
  "'j json \<Rightarrow> address_env \<Rightarrow> string \<Rightarrow> string \<Rightarrow> (string \<times> 'j) list \<Rightarrow> 'j \<Rightarrow> cpp_error + 'j" where
  "convert_subdomains js env z t [] s_NewZones = Inr s_NewZones"
| "convert_subdomains js env z t (kv # rest) s_NewZones =
     (case convert_value js env (z @ '' -> '' @ t @ '' -> '' @ fst kv) t (snd kv) of
        Inl e \<Rightarrow> Inl e
      | Inr None \<Rightarrow> convert_subdomains js env z t rest s_NewZones
      | Inr (Some v) \<Rightarrow> convert_subdomains js env z t rest (set_value js z t (fst kv) v s_NewZones))"

primrec convert_types ::
  "'j json \<Rightarrow> address_env \<Rightarrow> string \<Rightarrow> (string \<times> 'j) list \<Rightarrow> 'j \<Rightarrow> cpp_error + 'j" where
  "convert_types js env z [] s_NewZones = Inr s_NewZones"
| "convert_types js env z (tv # rest) s_NewZones =
     (if fst tv = ''A'' \<or> fst tv = ''AAAA'' then
        (case convert_subdomains js env z (fst tv) (json_items js (snd tv)) s_NewZones of
           Inl e \<Rightarrow> Inl e
         | Inr s_NewZones \<Rightarrow> convert_types js env z rest s_NewZones)
      else convert_types js env z rest s_NewZones)"

primrec convert_zones :: "'j json \<Rightarrow> address_env \<Rightarrow> (string \<times> 'j) list \<Rightarrow> 'j \<Rightarrow> cpp_error + 'j" where
  "convert_zones js env [] s_NewZones = Inr s_NewZones"
| "convert_zones js env (zv # rest) s_NewZones =
     (if json_is js (snd zv) ''{{BLOCKED}}'' then convert_zones js env rest s_NewZones
      else case convert_types js env (fst zv) (json_items js (snd zv)) s_NewZones of
        Inl e \<Rightarrow> Inl e
      | Inr s_NewZones \<Rightarrow> convert_zones js env rest s_NewZones)"

definition ConfigParser_ValidateAndOptimize :: "'j json \<Rightarrow> address_env \<Rightarrow> 'j \<Rightarrow> cpp_error + 'j" where
  "ConfigParser_ValidateAndOptimize js env p_Zones = convert_zones js env (json_items js p_Zones) p_Zones"

section \<open>What is assumed about the JSON library\<close>

text \<open>Objects are maps that an assignment changes at one key, arrays have the elements they were made of, and objects,
  arrays and strings are distinct.\<close>

definition json_laws :: "'j json \<Rightarrow> bool" where
  "json_laws js \<longleftrightarrow>
     json_is_object js (json_object js) \<and> (\<forall>k. \<not> json_contains js (json_object js) k) \<and>
     (\<forall>x k v. json_is_object js x \<longrightarrow> json_is_object js (json_set js x k v) \<and>
        (\<forall>k'. json_contains js (json_set js x k v) k' \<longleftrightarrow> k' = k \<or> json_contains js x k') \<and>
        json_at js (json_set js x k v) k = v \<and>
        (\<forall>k'. k' \<noteq> k \<longrightarrow> json_at js (json_set js x k v) k' = json_at js x k')) \<and>
     (\<forall>x. json_is_object js x \<longrightarrow> distinct (map fst (json_items js x)) \<and>
        (\<forall>k v. (k, v) \<in> set (json_items js x) \<longleftrightarrow> json_contains js x k \<and> v = json_at js x k)) \<and>
     (\<forall>vs. json_is_array js (json_array js vs) \<and> json_elements js (json_array js vs) = vs) \<and>
     (\<forall>s. json_is_string js (json_of_string js s) \<and> json_string js (json_of_string js s) = Some s) \<and>
     (\<forall>x. json_is_object js x \<longrightarrow> \<not> json_is_array js x \<and> \<not> json_is_string js x) \<and>
     (\<forall>x. json_is_array js x \<longrightarrow> \<not> json_is_string js x)"

lemma json_lawsD:
  assumes "json_laws js"
  shows "json_is_object js (json_object js)" and "\<not> json_contains js (json_object js) k"
    and "json_is_object js x \<Longrightarrow> json_is_object js (json_set js x k v)"
    and "json_is_object js x \<Longrightarrow> json_contains js (json_set js x k v) k' \<longleftrightarrow> k' = k \<or> json_contains js x k'"
    and "json_is_object js x \<Longrightarrow> json_at js (json_set js x k v) k' = (if k' = k then v else json_at js x k')"
    and "json_is_object js x \<Longrightarrow> distinct (map fst (json_items js x))"
    and "json_is_object js x \<Longrightarrow> (k, w) \<in> set (json_items js x) \<longleftrightarrow> json_contains js x k \<and> w = json_at js x k"
    and "json_is_array js (json_array js vs)" and "json_elements js (json_array js vs) = vs"
    and "json_is_string js (json_of_string js s)" and "json_string js (json_of_string js s) = Some s"
    and "json_is_object js x \<Longrightarrow> \<not> json_is_array js x" and "json_is_object js x \<Longrightarrow> \<not> json_is_string js x"
    and "json_is_array js x \<Longrightarrow> \<not> json_is_string js x"
  using assms unfolding json_laws_def by auto

lemma sample_json_laws: "json_laws sample_json"
proof -
  have items: "(k, v) \<in> set (AList.clearjunk kvs) \<longleftrightarrow> map_of kvs k = Some v" for k and v :: sample_value and kvs
    using map_of_eq_Some_iff [OF distinct_clearjunk [of kvs], of k v] by (simp add: map_of_clearjunk)
  have keys: "map_of kvs k = Some v \<Longrightarrow> k \<in> fst ` set kvs" for k and v :: sample_value and kvs
    by (metis map_of_SomeD image_eqI fst_conv)
  show ?thesis
    unfolding json_laws_def sample_json_def
    by (auto simp: items keys update_conv' dom_update distinct_clearjunk dom_map_of_conv_image_fst [symmetric]
        split: sample_value.splits option.splits)
qed

section \<open>Lemmas: the zones as a finite map\<close>

text \<open>The value of a zone for a type and a key.\<close>

definition zone_entry :: "'j json \<Rightarrow> 'j \<Rightarrow> string \<times> string \<Rightarrow> 'j option" where
  "zone_entry js zone = (\<lambda>(t, k).
     if json_contains js zone t \<and> json_contains js (json_at js zone t) k then Some (json_at js (json_at js zone t) k)
     else None)"

definition zone_wf :: "'j json \<Rightarrow> 'j \<Rightarrow> bool" where
  "zone_wf js zone \<longleftrightarrow> json_is_object js zone \<and> (\<forall>t. json_contains js zone t \<longrightarrow> json_is_object js (json_at js zone t))"

text \<open>Values of one key make an array.\<close>

definition combine :: "'j json \<Rightarrow> 'j option \<Rightarrow> 'j \<Rightarrow> 'j" where
  "combine js old v =
     (case old of
        None \<Rightarrow> v
      | Some e \<Rightarrow> if json_is_array js e then json_array js (json_elements js e @ [v]) else json_array js [e, v])"

text \<open>\<open>outside js z r r'\<close>: nothing but the value of the zone \<open>z\<close> differs.\<close>

definition outside :: "'j json \<Rightarrow> string \<Rightarrow> 'j \<Rightarrow> 'j \<Rightarrow> bool" where
  "outside js z r r' \<longleftrightarrow> json_is_object js r' \<and> json_contains js r' z \<and>
     (\<forall>z'. z' \<noteq> z \<longrightarrow> json_contains js r' z' = json_contains js r z' \<and> json_at js r' z' = json_at js r z')"

lemma outside_trans: "outside js z r1 r2 \<Longrightarrow> outside js z r2 r3 \<Longrightarrow> outside js z r1 r3"
  by (simp add: outside_def)

text \<open>\<open>edits\<close>: and that zone has the types that it had.\<close>

definition edits :: "'j json \<Rightarrow> string \<Rightarrow> 'j \<Rightarrow> 'j \<Rightarrow> bool" where
  "edits js z r r' \<longleftrightarrow> outside js z r r' \<and>
     (\<forall>t. json_contains js (json_at js r' z) t = json_contains js (json_at js r z) t)"

lemma edits_trans: "edits js z r1 r2 \<Longrightarrow> edits js z r2 r3 \<Longrightarrow> edits js z r1 r3"
  by (auto simp: edits_def intro: outside_trans)

lemma edits_outside: "edits js z r r' \<Longrightarrow> outside js z r r'"
  by (simp add: edits_def)

lemma set_type_zone:
  assumes L: "json_laws js" and "json_is_object js r" and "json_contains js r z" and "zone_wf js (json_at js r z)"
    and "json_is_object js v"
  shows "outside js z r (set_type js z t v r)" and "zone_wf js (json_at js (set_type js z t v r) z)"
    and "json_at js (set_type js z t v r) z = json_set js (json_at js r z) t v"
  using assms by (simp_all add: set_type_def outside_def zone_wf_def json_lawsD [OF L])

lemma set_value_zone:
  assumes L: "json_laws js" and "json_is_object js r" and "json_contains js r z" and "zone_wf js (json_at js r z)"
    and "json_contains js (json_at js r z) t"
  shows "edits js z r (set_value js z t k v r)" and "zone_wf js (json_at js (set_value js z t k v r) z)"
    and "zone_entry js (json_at js (set_value js z t k v r) z) = (zone_entry js (json_at js r z))((t, k) \<mapsto> v)"
proof -
  have t: "json_is_object js (json_at js (json_at js r z) t)" "json_is_object js (json_at js r z)"
    using assms(4,5) by (simp_all add: zone_wf_def)
  then have o: "json_is_object js (json_set js (json_at js (json_at js r z) t) k v)" by (simp add: json_lawsD [OF L])
  note st = set_type_zone [OF L assms(2-4) o, of t, folded set_value_def]
  show "edits js z r (set_value js z t k v r)" "zone_wf js (json_at js (set_value js z t k v r) z)"
    using st t(2) assms(5) by (auto simp: edits_def json_lawsD [OF L])
  show "zone_entry js (json_at js (set_value js z t k v r) z) = (zone_entry js (json_at js r z))((t, k) \<mapsto> v)"
    using t assms(5) by (auto simp: fun_eq_iff zone_entry_def st(3) json_lawsD [OF L])
qed

lemma add_value_zone:
  assumes L: "json_laws js" and "json_is_object js r" and "json_contains js r z" and "zone_wf js (json_at js r z)"
  shows "outside js z r (add_value js z t k v r)" and "zone_wf js (json_at js (add_value js z t k v r) z)"
    and "zone_entry js (json_at js (add_value js z t k v r) z) =
      (zone_entry js (json_at js r z))((t, k) \<mapsto> combine js (zone_entry js (json_at js r z) (t, k)) v)"
    and "json_contains js (json_at js (add_value js z t k v r) z) t' \<longleftrightarrow> t' = t \<or> json_contains js (json_at js r z) t'"
proof -
  define r1 where "r1 = (if json_contains js (json_at js r z) t then r else set_type js z t (json_object js) r)"
  have zo: "json_is_object js (json_at js r z)" using assms(4) by (simp add: zone_wf_def)
  have r1: "outside js z r r1" "zone_wf js (json_at js r1 z)" "json_contains js (json_at js r1 z) t"
    "zone_entry js (json_at js r1 z) = zone_entry js (json_at js r z)"
    "json_contains js (json_at js r1 z) t' \<longleftrightarrow> t' = t \<or> json_contains js (json_at js r z) t'" for t'
    using assms set_type_zone [OF L assms(2-4), of "json_object js" t] zo
    by (auto simp: r1_def outside_def zone_entry_def fun_eq_iff json_lawsD [OF L])
  then have o: "json_is_object js r1" "json_contains js r1 z" by (simp_all add: outside_def)
  define w where "w = combine js (zone_entry js (json_at js r1 z) (t, k)) v"
  have add: "add_value js z t k v r = set_value js z t k w r1"
    using r1(3) by (simp add: add_value_def r1_def [symmetric] w_def combine_def zone_entry_def Let_def)
  note sv = set_value_zone [OF L o r1(2,3), of k w]
  show "outside js z r (add_value js z t k v r)" using outside_trans [OF r1(1) edits_outside [OF sv(1)]] by (simp add: add)
  show "zone_wf js (json_at js (add_value js z t k v r) z)" using sv(2) by (simp add: add)
  show "zone_entry js (json_at js (add_value js z t k v r) z) =
      (zone_entry js (json_at js r z))((t, k) \<mapsto> combine js (zone_entry js (json_at js r z) (t, k)) v)"
    using sv(3) by (simp add: add w_def r1(4))
  show "json_contains js (json_at js (add_value js z t k v r) z) t' \<longleftrightarrow> t' = t \<or> json_contains js (json_at js r z) t'"
    using sv(1) r1(5) by (simp add: add edits_def)
qed

text \<open>What a record says: its type, key and value, and whether it forwards everything below the zone.\<close>

definition record_parts :: "'j json \<Rightarrow> 'j \<Rightarrow> (string \<times> string \<times> 'j \<times> bool) option" where
  "record_parts js rec =
     (if json_is_object js rec \<and> json_contains js rec ''name'' \<and> json_contains js rec ''type'' \<and> json_contains js rec ''data'' then
        (case (json_string js (json_at js rec ''type''), json_string js (json_at js rec ''name''), json_flag js rec ''regex'') of
           (Some t, Some n, Some regex) \<Rightarrow>
             (let all = json_is js (json_at js rec ''data'') ''{{FORWARD_ALL}}''
              in Some (t, sub_key regex all (strip_dot n),
                       if all then json_of_string js ''{{FORWARD}}'' else json_at js rec ''data'',
                       all \<and> strip_dot n = ''@''))
         | _ \<Rightarrow> None)
      else None)"

definition record_update ::
  "'j json \<Rightarrow> 'j \<Rightarrow> (string \<times> string \<Rightarrow> 'j option) \<Rightarrow> string \<times> string \<Rightarrow> 'j option" where
  "record_update js rec m =
     (case record_parts js rec of
        None \<Rightarrow> m
      | Some (t, k, v, all) \<Rightarrow>
          (let m = m((t, k) \<mapsto> combine js (m (t, k)) v)
           in if all then m((t, ''.*'') \<mapsto> json_of_string js ''{{FORWARD}}'') else m))"

text \<open>\<open>open_zone js r z\<close>: the zone \<open>z\<close> is there and is an object of objects.\<close>

definition open_zone :: "'j json \<Rightarrow> 'j \<Rightarrow> string \<Rightarrow> bool" where
  "open_zone js r z \<longleftrightarrow> json_is_object js r \<and> json_contains js r z \<and> zone_wf js (json_at js r z)"

definition record_type :: "'j json \<Rightarrow> 'j \<Rightarrow> string option" where
  "record_type js rec = map_option fst (record_parts js rec)"

lemma NormalizeRecord_refines:
  assumes L: "json_laws js" and "open_zone js r z" and "NormalizeRecord js z rec r = Inr r'"
  shows "outside js z r r' \<and> open_zone js r' z \<and>
    zone_entry js (json_at js r' z) = record_update js rec (zone_entry js (json_at js r z)) \<and>
    (\<forall>t. json_contains js (json_at js r' z) t \<longleftrightarrow> record_type js rec = Some t \<or> json_contains js (json_at js r z) t)"
proof (cases "record_parts js rec")
  case None
  then have "r' = r"
    using assms(3) by (auto simp: NormalizeRecord_def record_parts_def Let_def split: if_splits option.splits)
  then show ?thesis using None assms(2) by (simp add: record_update_def record_type_def outside_def open_zone_def)
next
  case (Some p)
  obtain t k v all where p: "p = (t, k, v, all)" by (cases p)
  let ?fwd = "json_of_string js ''{{FORWARD}}''"
  define r1 where "r1 = add_value js z t k v r"
  have r': "r' = (if all then set_value js z t ''.*'' ?fwd r1 else r1)"
    using Some assms(3) unfolding p r1_def
    by (auto simp: NormalizeRecord_def record_parts_def Let_def split: if_splits option.splits)
  from assms(2) have o: "json_is_object js r" "json_contains js r z" "zone_wf js (json_at js r z)"
    by (simp_all add: open_zone_def)
  note add = add_value_zone [OF L o, of t k v, folded r1_def]
  then have o1: "json_is_object js r1" "json_contains js r1 z" "json_contains js (json_at js r1 z) t"
    by (simp_all add: outside_def)
  note sv = set_value_zone [OF L o1(1,2) add(2) o1(3), of "''.*''" ?fwd]
  show ?thesis
    using add sv o1 outside_trans [OF add(1) edits_outside [OF sv(1)]]
    by (auto simp: r' Some p record_update_def record_type_def open_zone_def outside_def edits_def Let_def)
qed

lemma NormalizeRecords_refines:
  assumes L: "json_laws js" and "open_zone js r z" and "NormalizeRecords js z recs r = Inr r'"
  shows "outside js z r r' \<and> open_zone js r' z \<and>
    zone_entry js (json_at js r' z) = fold (record_update js) recs (zone_entry js (json_at js r z)) \<and>
    (\<forall>t. json_contains js (json_at js r' z) t \<longleftrightarrow>
       Some t \<in> record_type js ` set recs \<or> json_contains js (json_at js r z) t)"
  using assms(2,3)
proof (induction recs arbitrary: r)
  case Nil
  then show ?case by (simp add: open_zone_def outside_def)
next
  case (Cons rec recs)
  then obtain r1 where r1: "NormalizeRecord js z rec r = Inr r1" "NormalizeRecords js z recs r1 = Inr r'"
    by (auto split: sum.splits)
  note step = NormalizeRecord_refines [OF L Cons.prems(1) r1(1)]
  then show ?case using Cons.IH [OF _ r1(2)] outside_trans [of js z r r1 r'] by auto
qed

text \<open>What an element of the \<^verbatim>\<open>zones\<close> array says: the name and the records of a zone (\<open>None\<close> if it is blocked).\<close>

definition zone_parts :: "'j json \<Rightarrow> 'j \<Rightarrow> (string \<times> 'j list option) option" where
  "zone_parts js zone =
     (if json_is_object js zone \<and> json_contains js zone ''zone'' then
        (case json_string js (json_at js zone ''zone'') of
           None \<Rightarrow> None
         | Some n \<Rightarrow>
             if strip_dot n = [] then None
             else case json_flag js zone ''blocked'' of
               None \<Rightarrow> None
             | Some True \<Rightarrow> Some (strip_dot n, None)
             | Some False \<Rightarrow>
                 if json_contains js zone ''records'' \<and> json_is_array js (json_at js zone ''records'')
                 then Some (strip_dot n, Some (json_elements js (json_at js zone ''records''))) else None)
      else None)"

text \<open>\<open>zone_is js r z spec\<close>: the result holds what the last element for \<open>z\<close> says.\<close>

definition zone_is :: "'j json \<Rightarrow> 'j \<Rightarrow> string \<Rightarrow> 'j list option option \<Rightarrow> bool" where
  "zone_is js r z spec \<longleftrightarrow>
     (case spec of
        None \<Rightarrow> \<not> json_contains js r z
      | Some None \<Rightarrow> json_contains js r z \<and> json_at js r z = json_of_string js ''{{BLOCKED}}''
      | Some (Some recs) \<Rightarrow> open_zone js r z \<and> zone_entry js (json_at js r z) = fold (record_update js) recs Map.empty \<and>
          (\<forall>t. json_contains js (json_at js r z) t \<longleftrightarrow> Some t \<in> record_type js ` set recs))"

lemma zone_is_outside:
  assumes "outside js z r r'" and "z' \<noteq> z" and "zone_is js r z' spec"
  shows "zone_is js r' z' spec"
  using assms by (auto simp: zone_is_def outside_def open_zone_def split: option.splits)

lemma NormalizeZone_refines:
  assumes L: "json_laws js" and "json_is_object js r" and "\<forall>z. zone_is js r z (m z)" and "NormalizeZone js zone r = Inr r'"
  shows "json_is_object js r' \<and>
    (\<forall>z. zone_is js r' z ((case zone_parts js zone of None \<Rightarrow> m | Some (n, spec) \<Rightarrow> m(n \<mapsto> spec)) z))"
proof (cases "zone_parts js zone")
  case None
  then have "r' = r"
    using assms(4) by (auto simp: NormalizeZone_def zone_parts_def Let_def split: if_splits option.splits bool.splits)
  then show ?thesis using None assms(2,3) by simp
next
  case (Some p)
  obtain n spec where p: "p = (n, spec)" by (cases p)
  have "outside js n r r' \<and> zone_is js r' n (Some spec)"
  proof (cases spec)
    case None
    then have "r' = json_set js r n (json_of_string js ''{{BLOCKED}}'')"
      using Some assms(4) unfolding p
      by (auto simp: NormalizeZone_def zone_parts_def Let_def split: if_splits option.splits bool.splits)
    then show ?thesis using None assms(2) by (simp add: outside_def zone_is_def json_lawsD [OF L])
  next
    case (Some recs)
    then have run: "NormalizeRecords js n recs (json_set js r n (json_object js)) = Inr r'"
      using \<open>zone_parts js zone = Some p\<close> assms(4) unfolding p
      by (auto simp: NormalizeZone_def zone_parts_def Let_def split: if_splits option.splits bool.splits)
    have "open_zone js (json_set js r n (json_object js)) n" "outside js n r (json_set js r n (json_object js))"
      "zone_entry js (json_at js (json_set js r n (json_object js)) n) = Map.empty"
      "\<not> json_contains js (json_at js (json_set js r n (json_object js)) n) t" for t
      using assms(2) by (auto simp: open_zone_def zone_wf_def outside_def zone_entry_def fun_eq_iff json_lawsD [OF L])
    with NormalizeRecords_refines [OF L this(1) run] outside_trans show ?thesis
      by (auto simp: Some zone_is_def)
  qed
  then show ?thesis
    using assms(3) zone_is_outside [of js n r r'] by (auto simp: Some p outside_def)
qed

lemma NormalizeZones_refines:
  assumes L: "json_laws js" and "json_is_object js r" and "\<forall>z. zone_is js r z (m z)" and "NormalizeZones_loop js zs r = Inr r'"
  shows "json_is_object js r' \<and> (\<forall>z. zone_is js r' z ((m ++ map_of (rev (List.map_filter (zone_parts js) zs))) z))"
  using assms(2-4)
proof (induction zs arbitrary: r m)
  case (Cons zone zs)
  then obtain r1 where r1: "NormalizeZone js zone r = Inr r1" "NormalizeZones_loop js zs r1 = Inr r'"
    by (auto split: sum.splits)
  let ?m = "case zone_parts js zone of None \<Rightarrow> m | Some (n, spec) \<Rightarrow> m(n \<mapsto> spec)"
  have "m ++ map_of (rev (List.map_filter (zone_parts js) (zone # zs))) = ?m ++ map_of (rev (List.map_filter (zone_parts js) zs))"
    by (auto simp: List.map_filter_simps fun_eq_iff map_add_def split: option.split)
  then show ?case
    using NormalizeZone_refines [OF L Cons.prems(1,2) r1(1)] Cons.IH [of r1 ?m] r1(2) by simp
qed (simp add: List.map_filter_simps)

section \<open>Lemmas: validated zones\<close>

definition address_type :: "string \<Rightarrow> bool" where
  "address_type t \<longleftrightarrow> t = ''A'' \<or> t = ''AAAA''"

text \<open>What becomes of the value of an address record; \<open>None\<close> if it is rejected.\<close>

definition converted :: "'j json \<Rightarrow> address_env \<Rightarrow> string \<Rightarrow> string \<Rightarrow> string \<Rightarrow> 'j \<Rightarrow> 'j option" where
  "converted js env z t k v =
     (case convert_value js env (z @ '' -> '' @ t @ '' -> '' @ k) t v of
        Inl _ \<Rightarrow> None
      | Inr None \<Rightarrow> Some v
      | Inr (Some w) \<Rightarrow> Some w)"

text \<open>The entries of a zone with those of \<open>S\<close> converted.\<close>

definition converts :: "'j json \<Rightarrow> address_env \<Rightarrow> string \<Rightarrow> (string \<times> string) set \<Rightarrow>
    (string \<times> string \<Rightarrow> 'j option) \<Rightarrow> (string \<times> string \<Rightarrow> 'j option) \<Rightarrow> bool" where
  "converts js env z S e e' \<longleftrightarrow>
     (\<forall>t k. e' (t, k) = (if (t, k) \<in> S then Option.bind (e (t, k)) (converted js env z t k) else e (t, k)) \<and>
        ((t, k) \<in> S \<longrightarrow> e' (t, k) \<noteq> None))"

lemma converts_trans:
  assumes "converts js env z S e e'" and "converts js env z S' e' e''" and "S \<inter> S' = {}"
  shows "converts js env z (S \<union> S') e e''"
  using assms unfolding converts_def by (auto split: if_splits) (metis disjoint_iff)+

lemma converts_empty: "converts js env z {} e e"
  by (simp add: converts_def)

lemma convert_subdomains_refines:
  assumes L: "json_laws js" and "open_zone js r z" and "distinct (map fst kvs)"
    and "\<forall>(k, v)\<in>set kvs. zone_entry js (json_at js r z) (t, k) = Some v"
    and "convert_subdomains js env z t kvs r = Inr r'"
  shows "edits js z r r' \<and> open_zone js r' z \<and>
    converts js env z ({t} \<times> fst ` set kvs) (zone_entry js (json_at js r z)) (zone_entry js (json_at js r' z))"
  using assms(2-5)
proof (induction kvs arbitrary: r)
  case Nil
  then show ?case by (simp add: open_zone_def edits_def outside_def converts_empty)
next
  case (Cons kv kvs)
  obtain k v where kv: "kv = (k, v)" by (cases kv)
  have e: "zone_entry js (json_at js r z) (t, k) = Some v" using Cons.prems(3) by (simp add: kv)
  then have t: "json_contains js (json_at js r z) t" by (auto simp: zone_entry_def split: if_splits)
  from Cons.prems(1) have o: "json_is_object js r" "json_contains js r z" "zone_wf js (json_at js r z)"
    by (simp_all add: open_zone_def)
  obtain w where w: "convert_value js env (z @ '' -> '' @ t @ '' -> '' @ k) t v = Inr w"
    using Cons.prems(4) by (auto simp: kv split: sum.splits)
  define r1 where "r1 = (case w of None \<Rightarrow> r | Some w \<Rightarrow> set_value js z t k w r)"
  have run: "convert_subdomains js env z t kvs r1 = Inr r'"
    using Cons.prems(4) w by (simp add: kv r1_def split: option.splits)
  have step: "edits js z r r1" "open_zone js r1 z"
    "zone_entry js (json_at js r1 z) = (zone_entry js (json_at js r z))((t, k) \<mapsto> (case w of None \<Rightarrow> v | Some w \<Rightarrow> w))"
    using set_value_zone [OF L o t, of k] o e
    by (auto simp: r1_def open_zone_def edits_def outside_def split: option.splits)
  have "converts js env z {(t, k)} (zone_entry js (json_at js r z)) (zone_entry js (json_at js r1 z))"
    using e w by (auto simp: converts_def step(3) converted_def split: option.splits)
  moreover have "\<forall>(k', v)\<in>set kvs. zone_entry js (json_at js r1 z) (t, k') = Some v"
    using Cons.prems(2,3) by (force simp: step(3) kv)
  then have IH: "edits js z r1 r' \<and> open_zone js r' z \<and>
      converts js env z ({t} \<times> fst ` set kvs) (zone_entry js (json_at js r1 z)) (zone_entry js (json_at js r' z))"
    using Cons.IH [OF step(2) _ _ run] Cons.prems(2) by simp
  moreover have "{(t, k)} \<inter> {t} \<times> fst ` set kvs = {}" using Cons.prems(2) by (auto simp: kv)
  ultimately show ?case
    using converts_trans [of js env z "{(t, k)}"] edits_trans [OF step(1)] by (auto simp: kv)
qed

text \<open>\<open>zone_items\<close>: the items of a zone that are still to be converted have not been changed.\<close>

definition zone_items :: "'j json \<Rightarrow> (string \<times> string \<Rightarrow> 'j option) \<Rightarrow> (string \<times> 'j) list \<Rightarrow> bool" where
  "zone_items js e tvs \<longleftrightarrow> distinct (map fst tvs) \<and>
     (\<forall>(t, values)\<in>set tvs. json_is_object js values \<and> (\<forall>k v. (k, v) \<in> set (json_items js values) \<longleftrightarrow> e (t, k) = Some v))"

lemma zone_items_cong:
  assumes "zone_items js e tvs" and "\<And>t k. t \<in> fst ` set tvs \<Longrightarrow> e' (t, k) = e (t, k)"
  shows "zone_items js e' tvs"
proof -
  have "e' (t, k) = e (t, k)" if "(t, x) \<in> set tvs" for t x k
    using assms(2) that by (force simp: image_iff)
  then show ?thesis using assms(1) unfolding zone_items_def by fastforce
qed

lemma convert_types_refines:
  assumes L: "json_laws js" and "open_zone js r z" and "zone_items js (zone_entry js (json_at js r z)) tvs"
    and "convert_types js env z tvs r = Inr r'"
  shows "edits js z r r' \<and> open_zone js r' z \<and>
    converts js env z {(t, k). address_type t \<and> t \<in> fst ` set tvs \<and> zone_entry js (json_at js r z) (t, k) \<noteq> None}
      (zone_entry js (json_at js r z)) (zone_entry js (json_at js r' z))"
  using assms(2-4)
proof (induction tvs arbitrary: r)
  case Nil
  then show ?case by (simp add: open_zone_def edits_def outside_def converts_def)
next
  case (Cons tv tvs)
  obtain t x where tv: "tv = (t, x)" by (cases tv)
  let ?e = "zone_entry js (json_at js r z)"
  show ?case
  proof (cases "address_type t")
    case False
    then have "convert_types js env z tvs r = Inr r'" using Cons.prems(3) by (simp add: tv address_type_def)
    moreover have "zone_items js ?e tvs" using Cons.prems(2) by (simp add: zone_items_def)
    moreover have "{(t', k). address_type t' \<and> t' \<in> fst ` set (tv # tvs) \<and> ?e (t', k) \<noteq> None} =
        {(t', k). address_type t' \<and> t' \<in> fst ` set tvs \<and> ?e (t', k) \<noteq> None}"
      using False by (auto simp: tv)
    ultimately show ?thesis using Cons.IH [OF Cons.prems(1)] by simp
  next
    case True
    have x: "json_is_object js x" "\<forall>k v. (k, v) \<in> set (json_items js x) \<longleftrightarrow> ?e (t, k) = Some v"
      using Cons.prems(2) by (auto simp: zone_items_def tv)
    obtain r1 where r1: "convert_subdomains js env z t (json_items js x) r = Inr r1" "convert_types js env z tvs r1 = Inr r'"
      using Cons.prems(3) True by (auto simp: tv address_type_def split: sum.splits)
    let ?e1 = "zone_entry js (json_at js r1 z)" and ?S = "{t} \<times> fst ` set (json_items js x)"
    have step: "edits js z r r1" "open_zone js r1 z" "converts js env z ?S ?e ?e1"
      using convert_subdomains_refines [OF L Cons.prems(1) json_lawsD(6) [OF L x(1)] _ r1(1)] x(2) by auto
    have same: "?e1 (t', k) = ?e (t', k)" if "t' \<noteq> t" for t' k
      using step(3) that by (auto simp: converts_def)
    have new: "t \<notin> fst ` set tvs" and items: "zone_items js ?e tvs"
      using Cons.prems(2) by (auto simp: zone_items_def tv)
    have "zone_items js ?e1 tvs"
    proof (rule zone_items_cong [OF items])
      fix t' k assume "t' \<in> fst ` set tvs"
      with new have "t' \<noteq> t" by blast
      then show "?e1 (t', k) = ?e (t', k)" by (rule same)
    qed
    from Cons.IH [OF step(2) this r1(2)]
    have IH: "edits js z r1 r'" "open_zone js r' z"
      "converts js env z {(t', k). address_type t' \<and> t' \<in> fst ` set tvs \<and> ?e1 (t', k) \<noteq> None} ?e1 (zone_entry js (json_at js r' z))"
      by simp_all
    have keys: "k \<in> fst ` set (json_items js x) \<longleftrightarrow> ?e (t, k) \<noteq> None" for k
    proof -
      have "k \<in> fst ` set (json_items js x) \<longleftrightarrow> (\<exists>v. (k, v) \<in> set (json_items js x))" by force
      then show ?thesis using x(2) by simp
    qed
    let ?T = "{(t', k). address_type t' \<and> t' \<in> fst ` set tvs \<and> ?e1 (t', k) \<noteq> None}"
    have S: "p \<in> ?S \<longleftrightarrow> fst p = t \<and> ?e p \<noteq> None" for p using keys by (cases p) auto
    have T: "p \<in> ?T \<longleftrightarrow> address_type (fst p) \<and> fst p \<in> fst ` set tvs \<and> ?e p \<noteq> None" for p
    proof (cases "fst p = t")
      case True
      then show ?thesis using new by (cases p) simp
    next
      case False
      then have "?e1 p = ?e p" using same by (cases p) simp
      then show ?thesis by (cases p) simp
    qed
    have sets: "?S \<inter> ?T = {}"
      "?S \<union> ?T = {(t', k). address_type t' \<and> t' \<in> fst ` set (tv # tvs) \<and> ?e (t', k) \<noteq> None}"
    proof -
      show "?S \<inter> ?T = {}"
      proof (rule equals0I)
        fix p assume "p \<in> ?S \<inter> ?T"
        then show False using S [of p] T [of p] new by simp
      qed
      show "?S \<union> ?T = {(t', k). address_type t' \<and> t' \<in> fst ` set (tv # tvs) \<and> ?e (t', k) \<noteq> None}"
      proof (rule set_eqI)
        fix p
        have "p \<in> ?S \<union> ?T \<longleftrightarrow> address_type (fst p) \<and> fst p \<in> fst ` set (tv # tvs) \<and> ?e p \<noteq> None"
          using S [of p] T [of p] True by (auto simp only: Un_iff tv list.set(2) image_insert fst_conv insert_iff)
        then show "p \<in> ?S \<union> ?T \<longleftrightarrow> p \<in> {(t', k). address_type t' \<and> t' \<in> fst ` set (tv # tvs) \<and> ?e (t', k) \<noteq> None}"
          by (cases p) (simp only: mem_Collect_eq case_prod_conv fst_conv)
      qed
    qed
    show ?thesis
      using converts_trans [OF step(3) IH(3) sets(1)] IH(2) edits_trans [OF step(1) IH(1)] unfolding sets(2) by simp
  qed
qed

text \<open>The shape that \<^verbatim>\<open>NormalizeZones\<close> gives to its result.\<close>

definition blocked_zone :: "'j json \<Rightarrow> 'j \<Rightarrow> bool" where
  "blocked_zone js zone \<longleftrightarrow> json_is js zone ''{{BLOCKED}}''"

definition zones_wf :: "'j json \<Rightarrow> 'j \<Rightarrow> bool" where
  "zones_wf js r \<longleftrightarrow> json_is_object js r \<and>
     (\<forall>z. json_contains js r z \<longrightarrow> blocked_zone js (json_at js r z) \<or> zone_wf js (json_at js r z))"

text \<open>The addresses of one zone are converted, or nothing is.\<close>

definition zone_converted :: "'j json \<Rightarrow> address_env \<Rightarrow> string \<Rightarrow> 'j \<Rightarrow> 'j \<Rightarrow> bool" where
  "zone_converted js env z zone zone' \<longleftrightarrow>
     (if blocked_zone js zone then zone' = zone
      else zone_wf js zone' \<and> (\<forall>t. json_contains js zone' t = json_contains js zone t) \<and> converts js env z {(t, k). address_type t \<and> zone_entry js zone (t, k) \<noteq> None}
             (zone_entry js zone) (zone_entry js zone'))"

lemma zone_items_of:
  assumes L: "json_laws js" and "zone_wf js zone"
  shows "zone_items js (zone_entry js zone) (json_items js zone)"
proof -
  have z: "json_is_object js zone" using assms(2) by (simp add: zone_wf_def)
  have "json_is_object js x \<and> (\<forall>k v. (k, v) \<in> set (json_items js x) \<longleftrightarrow> zone_entry js zone (t, k) = Some v)"
    if "(t, x) \<in> set (json_items js zone)" for t x
  proof -
    from that z have t: "json_contains js zone t" "x = json_at js zone t" by (simp_all add: json_lawsD(7) [OF L])
    then have "json_is_object js x" using assms(2) by (simp add: zone_wf_def)
    then show ?thesis using t by (auto simp: json_lawsD(7) [OF L] zone_entry_def)
  qed
  then show ?thesis using json_lawsD(6) [OF L z] by (auto simp: zone_items_def)
qed

lemma convert_zone:
  assumes L: "json_laws js" and "open_zone js r z" and "\<not> blocked_zone js (json_at js r z)"
    and "convert_types js env z (json_items js (json_at js r z)) r = Inr r'"
  shows "outside js z r r' \<and> zone_converted js env z (json_at js r z) (json_at js r' z)"
proof -
  have z: "zone_wf js (json_at js r z)" "json_is_object js (json_at js r z)"
    using assms(2) by (simp_all add: open_zone_def zone_wf_def)
  have "t \<in> fst ` set (json_items js (json_at js r z))" if "zone_entry js (json_at js r z) (t, k) \<noteq> None" for t k
    using that json_lawsD(7) [OF L z(2), of t] by (force simp: zone_entry_def split: if_splits)
  then have "{(t, k). address_type t \<and> t \<in> fst ` set (json_items js (json_at js r z)) \<and> zone_entry js (json_at js r z) (t, k) \<noteq> None} =
      {(t, k). address_type t \<and> zone_entry js (json_at js r z) (t, k) \<noteq> None}" by blast
  then show ?thesis
    using convert_types_refines [OF L assms(2) zone_items_of [OF L z(1)] assms(4)] assms(3)
    by (simp add: zone_converted_def open_zone_def edits_def)
qed

lemma convert_zones_refines:
  assumes L: "json_laws js" and "json_is_object js r" and "distinct (map fst zvs)"
    and "\<forall>(z, zone)\<in>set zvs. json_contains js r z \<and> json_at js r z = zone \<and> (blocked_zone js zone \<or> zone_wf js zone)"
    and "convert_zones js env zvs r = Inr r'"
  shows "json_is_object js r' \<and> (\<forall>z. json_contains js r' z = json_contains js r z) \<and>
    (\<forall>z. (z \<in> fst ` set zvs \<longrightarrow> zone_converted js env z (json_at js r z) (json_at js r' z)) \<and>
         (z \<notin> fst ` set zvs \<longrightarrow> json_at js r' z = json_at js r z))"
  using assms(2-5)
proof (induction zvs arbitrary: r)
  case (Cons zv zvs)
  obtain z zone where zv: "zv = (z, zone)" by (cases zv)
  have z: "json_contains js r z" "json_at js r z = zone" "blocked_zone js zone \<or> zone_wf js zone"
    using Cons.prems(3) by (auto simp: zv)
  obtain r1 where r1: "convert_zones js env zvs r1 = Inr r'" "outside js z r r1"
    "zone_converted js env z zone (json_at js r1 z)"
  proof (cases "blocked_zone js zone")
    case True
    then show ?thesis
      using that [of r] Cons.prems(1,4) z by (simp add: zv blocked_zone_def zone_converted_def outside_def)
  next
    case False
    then obtain r1 where r1: "convert_types js env z (json_items js zone) r = Inr r1" "convert_zones js env zvs r1 = Inr r'"
      using Cons.prems(4) by (auto simp: zv blocked_zone_def split: sum.splits)
    have "open_zone js r z" using z False Cons.prems(1) by (simp add: open_zone_def)
    from convert_zone [OF L this] r1 False show ?thesis using that [of r1] by (simp add: z(2))
  qed
  have new: "z \<notin> fst ` set zvs" "distinct (map fst zvs)" using Cons.prems(2) by (simp_all add: zv)
  have "json_contains js r1 z' \<and> json_at js r1 z' = zone' \<and> (blocked_zone js zone' \<or> zone_wf js zone')"
    if "(z', zone') \<in> set zvs" for z' zone'
  proof -
    have "z' \<noteq> z" using that new(1) by force
    then show ?thesis using that r1(2) Cons.prems(3) by (auto simp: outside_def)
  qed
  then have rest: "\<forall>(z', zone')\<in>set zvs. json_contains js r1 z' \<and> json_at js r1 z' = zone' \<and>
      (blocked_zone js zone' \<or> zone_wf js zone')" by blast
  have "json_is_object js r1" using r1(2) by (simp add: outside_def)
  note IH = Cons.IH [OF this new(2) rest r1(1)]
  show ?case
  proof (intro conjI allI impI)
    fix z'
    show "json_contains js r' z' = json_contains js r z'"
      using IH r1(2) z(1) by (cases "z' = z") (auto simp: outside_def)
    note IH' = spec [OF conjunct2 [OF conjunct2 [OF IH]], of z']
    show "zone_converted js env z' (json_at js r z') (json_at js r' z')" if "z' \<in> fst ` set (zv # zvs)"
      using that IH' r1(2,3) new(1) z(2) by (cases "z' = z") (simp_all add: outside_def zv)
    show "json_at js r' z' = json_at js r z'" if "z' \<notin> fst ` set (zv # zvs)"
      using that IH' r1(2) by (cases "z' = z") (simp_all add: outside_def zv)
  qed (rule conjunct1 [OF IH])
qed simp

lemma ValidateAndOptimize_refines:
  assumes L: "json_laws js" and "zones_wf js p" and "ConfigParser_ValidateAndOptimize js env p = Inr r"
  shows "json_is_object js r \<and> (\<forall>z. json_contains js r z = json_contains js p z \<and>
    (json_contains js p z \<longrightarrow> zone_converted js env z (json_at js p z) (json_at js r z)))"
proof -
  have p: "json_is_object js p" using assms(2) by (simp add: zones_wf_def)
  have "z \<in> fst ` set (json_items js p) \<longleftrightarrow> json_contains js p z" for z
    using json_lawsD(7) [OF L p, of z] by force
  moreover have "\<forall>(z, zone)\<in>set (json_items js p). json_contains js p z \<and> json_at js p z = zone \<and>
      (blocked_zone js zone \<or> zone_wf js zone)"
    using json_lawsD(7) [OF L p] assms(2) by (auto simp: zones_wf_def)
  ultimately show ?thesis
    using convert_zones_refines [OF L p json_lawsD(6) [OF L p] _ assms(3) [unfolded ConfigParser_ValidateAndOptimize_def]]
    by simp
qed

section \<open>Lemmas: the zones that queries are answered from\<close>

text \<open>What the last element of the \<^verbatim>\<open>zones\<close> array for each name says.\<close>

definition file_zones :: "'j json \<Rightarrow> 'j \<Rightarrow> string \<Rightarrow> 'j list option option" where
  "file_zones js p_Zones =
     (if json_contains js p_Zones ''zones'' \<and> json_is_array js (json_at js p_Zones ''zones'')
      then map_of (rev (List.map_filter (zone_parts js) (json_elements js (json_at js p_Zones ''zones''))))
      else Map.empty)"

lemma NormalizeZones_result:
  assumes L: "json_laws js" and "ConfigParser_NormalizeZones js p_Zones = Inr r"
  shows "json_is_object js r \<and> (\<forall>z. zone_is js r z (file_zones js p_Zones z))"
proof -
  have "json_is_object js (json_object js)" "\<forall>z. zone_is js (json_object js) z (Map.empty z)"
    by (simp_all add: zone_is_def json_lawsD [OF L])
  then show ?thesis
    using assms(2) NormalizeZones_refines [OF L, of "json_object js" Map.empty]
    by (auto simp: ConfigParser_NormalizeZones_def file_zones_def split: if_splits)
qed

lemma NormalizeZones_wf:
  assumes L: "json_laws js" and "ConfigParser_NormalizeZones js p_Zones = Inr r"
  shows "zones_wf js r"
proof -
  have "blocked_zone js (json_at js r z) \<or> zone_wf js (json_at js r z)" if "json_contains js r z" for z
    using NormalizeZones_result [OF assms] that
    by (auto simp: zone_is_def blocked_zone_def json_is_def open_zone_def json_lawsD [OF L] split: option.splits dest!: spec [of _ z])
  then show ?thesis using NormalizeZones_result [OF assms] by (simp add: zones_wf_def)
qed

text \<open>The configured zones: normalised and validated.\<close>

definition configured ::
  "'j json \<Rightarrow> address_env \<Rightarrow> 'j \<Rightarrow> 'j \<Rightarrow> bool" where
  "configured js env p_Zones zones \<longleftrightarrow>
     (\<exists>r. ConfigParser_NormalizeZones js p_Zones = Inr r \<and> ConfigParser_ValidateAndOptimize js env r = Inr zones)"

lemma configured_zone:
  assumes L: "json_laws js" and "configured js env p_Zones zones"
  shows "case file_zones js p_Zones z of
      None \<Rightarrow> \<not> json_contains js zones z
    | Some None \<Rightarrow> json_contains js zones z \<and> json_at js zones z = json_of_string js ''{{BLOCKED}}''
    | Some (Some recs) \<Rightarrow> json_contains js zones z \<and> zone_wf js (json_at js zones z) \<and>
        (\<forall>t. json_contains js (json_at js zones z) t \<longleftrightarrow> Some t \<in> record_type js ` set recs) \<and>
        (\<forall>t k. zone_entry js (json_at js zones z) (t, k) =
           (let e = fold (record_update js) recs Map.empty (t, k)
            in if address_type t then Option.bind e (converted js env z t k) else e)) \<and>
        (\<forall>t k. address_type t \<longrightarrow> zone_entry js (json_at js zones z) (t, k) = None \<longrightarrow>
           fold (record_update js) recs Map.empty (t, k) = None)"
proof -
  from assms(2) obtain r where r: "ConfigParser_NormalizeZones js p_Zones = Inr r"
    "ConfigParser_ValidateAndOptimize js env r = Inr zones" by (auto simp: configured_def)
  have n: "zone_is js r z (file_zones js p_Zones z)" using NormalizeZones_result [OF L r(1)] by simp
  have v: "json_contains js zones z = json_contains js r z"
    "json_contains js r z \<Longrightarrow> zone_converted js env z (json_at js r z) (json_at js zones z)"
    using ValidateAndOptimize_refines [OF L NormalizeZones_wf [OF L r(1)] r(2)] by simp_all
  show ?thesis
  proof (cases "file_zones js p_Zones z")
    case None
    then show ?thesis using n v by (simp add: zone_is_def)
  next
    case (Some spec)
    show ?thesis
    proof (cases spec)
      case None
      then show ?thesis
        using n v Some by (simp add: zone_is_def zone_converted_def blocked_zone_def json_is_def json_lawsD [OF L])
    next
      case (Some recs)
      have zone: "json_contains js r z" "zone_wf js (json_at js r z)"
        "zone_entry js (json_at js r z) = fold (record_update js) recs Map.empty"
        "json_contains js (json_at js r z) t \<longleftrightarrow> Some t \<in> record_type js ` set recs" for t
        using n \<open>file_zones js p_Zones z = Some spec\<close> Some by (simp_all add: zone_is_def open_zone_def)
      then have "\<not> blocked_zone js (json_at js r z)"
        by (auto simp: blocked_zone_def json_is_def zone_wf_def json_lawsD [OF L])
      with v(2) [OF zone(1)] have c: "zone_wf js (json_at js zones z)"
        "json_contains js (json_at js zones z) t = json_contains js (json_at js r z) t"
        "converts js env z {(t, k). address_type t \<and> zone_entry js (json_at js r z) (t, k) \<noteq> None}
           (zone_entry js (json_at js r z)) (zone_entry js (json_at js zones z))" for t
        by (simp_all add: zone_converted_def)
      show ?thesis
        using \<open>file_zones js p_Zones z = Some spec\<close> Some zone v(1) c
        by (auto simp: converts_def Let_def) (metis bind.simps(2) option.distinct(1))
    qed
  qed
qed

section \<open>Lemmas: addresses\<close>

definition address_size :: "string \<Rightarrow> nat" where
  "address_size t = (if t = ''A'' then 4 else 16)"

text \<open>\<^verbatim>\<open>inet_pton\<close> writes four octets for an IPv4 address and sixteen for an IPv6 address.\<close>

definition address_ok :: "address_env \<Rightarrow> bool" where
  "address_ok env \<longleftrightarrow> (\<forall>s a. pton4 env s = Some a \<longrightarrow> length a = 4) \<and> (\<forall>s a. pton6 env s = Some a \<longrightarrow> length a = 16)"

lemma Ipv4ToHex_zeros:
  assumes "address_ok env"
  shows "Ipv4ToHex (pton4 env) s (replicate IPV4_BINARY_SIZE 0) =
    (case pton4 env (c_str s) of None \<Rightarrow> (-1, replicate 4 0) | Some a \<Rightarrow> (0, a))"
  using assms by (auto simp: Ipv4ToHex_def IPV4_BINARY_SIZE_def address_ok_def overwrite_all split: option.split)

lemma Ipv6ToHex_zeros:
  assumes "address_ok env"
  shows "Ipv6ToHex (pton6 env) s (replicate IPV6_BINARY_SIZE 0) =
    (case pton6 env (c_str s) of None \<Rightarrow> (-1, replicate 16 0) | Some a \<Rightarrow> (0, a))"
  using assms by (auto simp: Ipv6ToHex_def IPV6_BINARY_SIZE_def address_ok_def overwrite_all split: option.split)

lemma convertSingleValue_size:
  assumes "address_ok env" and "convertSingleValue js env v ctx t = Inr s"
  shows "length s = address_size t"
  using assms
  by (auto simp: convertSingleValue_def Ipv4ToHex_zeros Ipv6ToHex_zeros address_size_def address_ok_def Let_def
      split: if_splits option.splits)

lemma convert_elements_size:
  assumes L: "json_laws js" and "address_ok env" and "convert_elements js env ctx t i vs = Inr ws"
  shows "length ws = length vs \<and> (\<forall>w\<in>set ws. \<exists>s. json_string js w = Some s \<and> length s = address_size t)"
  using assms(3)
proof (induction vs arbitrary: i ws)
  case (Cons v vs)
  then obtain s ws' where "convertSingleValue js env v (ctx @ ''['' @ to_digits 10 i @ '']'') t = Inr s"
    "convert_elements js env ctx t (Suc i) vs = Inr ws'" "ws = json_of_string js s # ws'"
    by (auto split: sum.splits)
  then show ?case using Cons.IH [of "Suc i" ws'] convertSingleValue_size [OF assms(2)] by (auto simp: json_lawsD [OF L])
qed simp

text \<open>An array with \<^verbatim>\<open>{{FORWARD}}\<close> among its elements, which the lookup does not treat as a forward (\<open>IsForwardValue\<close> is
  about a single text), and the addresses that a value stands for.\<close>

definition mixed_forward :: "'j json \<Rightarrow> 'j \<Rightarrow> bool" where
  "mixed_forward js v \<longleftrightarrow> json_is_array js v \<and> (\<exists>x\<in>set (json_elements js v). IsForwardValue js x)"

lemma IsForwardValue_is: "IsForwardValue js v \<longleftrightarrow> json_is js v ''{{FORWARD}}''"
  by (simp add: IsForwardValue_def json_is_def)

definition addresses :: "'j json \<Rightarrow> 'j \<Rightarrow> 'j list" where
  "addresses js v = (if json_is_array js v then json_elements js v else [v])"

lemma converted_sizes:
  assumes L: "json_laws js" and "address_ok env" and "converted js env z t k v = Some w"
  shows "if IsForwardValue js v \<or> mixed_forward js v then w = v
    else \<forall>x\<in>set (addresses js w). \<exists>s. json_string js x = Some s \<and> length s = address_size t"
proof -
  consider "IsForwardValue js v \<or> mixed_forward js v" "w = v"
    | ws where "\<not> (IsForwardValue js v \<or> mixed_forward js v)" "w = json_array js ws"
      "convert_elements js env (z @ '' -> '' @ t @ '' -> '' @ k) t 0 (json_elements js v) = Inr ws"
    | s where "\<not> (IsForwardValue js v \<or> mixed_forward js v)" "w = json_of_string js s"
      "convertSingleValue js env v (z @ '' -> '' @ t @ '' -> '' @ k) t = Inr s"
    using assms(3)
    by (auto simp: converted_def convert_value_def IsForwardValue_is mixed_forward_def split: if_splits sum.splits option.splits)
  then show ?thesis
  proof cases
    case 2
    then show ?thesis using convert_elements_size [OF L assms(2) 2(3)] 2(1,2) by (auto simp: addresses_def json_lawsD [OF L])
  next
    case 3
    then show ?thesis
      using 3(1,2) convertSingleValue_size [OF assms(2) 3(3)] json_lawsD(10) [OF L, of s] json_lawsD(14) [OF L, of w]
      by (auto simp: addresses_def json_lawsD [OF L])
  qed simp
qed

lemma converted_address:
  assumes L: "json_laws js" and "address_ok env" and "address_type t"
    and "json_is_string js v" and "json_string js v = Some ip" and "ip \<notin> {''{{FORWARD}}'', ''{{SELF}}'', ''{{BLOCKED}}''}"
    and "(if t = ''A'' then pton4 env (c_str ip) else pton6 env (c_str ip)) = Some a"
  shows "converted js env z t k v = Some (json_of_string js (string_of_bytes a))"
proof -
  have "\<not> json_is_array js v" using json_lawsD(14) [OF L, of v] assms(4) by blast
  then show ?thesis
    using assms
    by (auto simp: converted_def convert_value_def convertSingleValue_def json_is_def Ipv4ToHex_zeros Ipv6ToHex_zeros
        address_type_def Let_def)
qed

section \<open>Lemmas: answers from configured addresses\<close>

lemma empty_name_ok: "name_ok []"
  by (simp add: name_ok_def labels_wf_def labels_image_def domain_parts_def split_on.simps)

lemma address_rdata:
  "record_rdata js ''A'' d = (case json_string js d of
     Some s \<Rightarrow> if length s = 4 then Some (1, bytes_of_string s) else None | None \<Rightarrow> None)"
  "record_rdata js ''AAAA'' d = (case json_string js d of
     Some s \<Rightarrow> if length s = 16 then Some (28, bytes_of_string s) else None | None \<Rightarrow> None)"
  by (simp_all add: record_rdata_def)

definition address_record :: "'j json \<Rightarrow> int \<Rightarrow> DnsRequestPacket \<Rightarrow> string \<Rightarrow> 'j \<Rightarrow> DnsAnswer" where
  "address_record js ttl p t x =
     new_record (m_Qname (hd (req_Questions p))) (if t = ''A'' then 1 else 28) (question_class p) ttl
       (bytes_of_string (the (json_string js x)))"

lemma address_answer:
  assumes "question_ok p" and t: "address_type t" and "addresses js d \<noteq> []" and "length (addresses js d) \<le> 65535"
    and "\<forall>x\<in>set (addresses js d). \<exists>s. json_string js x = Some s \<and> length s = address_size t"
  shows "\<exists>out. DispatchSingleOrMulti js ttl t p d [] = (Inr 0, out) \<and>
    built out (reply_packet p (standard_header p 0 (of_nat (length (addresses js d))) 0 0 True)
      (map (address_record js ttl p t) (addresses js d)) [] [])"
proof -
  let ?r = "\<lambda>x. \<lparr>ans_Type = t, ans_Data = x, ans_Name = []\<rparr>"
  have rd: "record_rdata js t x = Some (if t = ''A'' then 1 else 28, bytes_of_string (the (json_string js x)))"
    if x: "x \<in> set (addresses js d)" for x
  proof -
    obtain s where "json_string js x = Some s" "length s = address_size t" using assms(5) x by blast
    then show ?thesis using t by (auto simp: address_rdata address_size_def address_type_def)
  qed
  have img: "record_image js ttl (question_class p) (?r x) \<noteq> None" if "x \<in> set (addresses js d)" for x
    using rd [OF that] empty_name_ok by (simp add: record_image_def)
  obtain out where multi: "DnsResponse_MultiAnswer js ttl p (map ?r (addresses js d)) [] = (Inr 0, out)"
    using assms(1,3,4) img by (auto simp: MultiAnswer_ok append_answers_ok)
  have answers: "map (answer_for js ttl p) (map ?r (addresses js d)) = map (address_record js ttl p t) (addresses js d)"
    using rd by (simp add: answer_for_def address_record_def)
  have "DispatchSingleOrMulti js ttl t p d [] = (Inr 0, out)"
  proof (cases "json_is_array js d")
    case True
    then show ?thesis using multi by (simp add: DispatchSingleOrMulti_def addresses_def)
  next
    case False
    have "t \<in> set record_types" using t by (auto simp: address_type_def record_types_def)
    then show ?thesis
      using False multi
      by (auto simp: DispatchSingleOrMulti_def addresses_def CallResponseFunction_ok MultiAnswer_ok append_answers_ok
          DispatchAppendAnswer_ok record_image_def simp del: append_answers.simps split: option.splits)
  qed
  then show ?thesis using MultiAnswer_built [OF multi] unfolding answers by auto
qed

text \<open>The key of a zone that a subdomain matches, if there is exactly one.\<close>

lemma zone_value_unique:
  assumes L: "json_laws js" and "json_is_object js x" and "sub \<noteq> []"
    and "json_contains js x k" and "m k sub" and "\<And>k'. json_contains js x k' \<Longrightarrow> m k' sub \<Longrightarrow> k' = k"
  shows "zone_value js m x sub = Some (json_at js x k)"
proof -
  note items = json_lawsD(7) [OF L assms(2)]
  have "find (\<lambda>(k, v). m k sub) (json_items js x) \<noteq> None"
    using items [of k "json_at js x k"] assms(4,5) by (auto simp: find_None_iff)
  then obtain k' v where f: "find (\<lambda>(k, v). m k sub) (json_items js x) = Some (k', v)" by auto
  then have "(k', v) \<in> set (json_items js x)" "m k' sub" by (auto simp: find_Some_iff in_set_conv_nth)
  then have "k' = k" "v = json_at js x k" using items [of k' v] assms(6) by auto
  then show ?thesis using f assms(3) by (simp add: zone_value_def)
qed

section \<open>A concrete zones file\<close>

definition sample_file :: sample_value where
  "sample_file =
     S_Object [(''zones'', S_Array
       [S_Object [(''zone'', S_String ''a.b.''), (''records'', S_Array
          [S_Object [(''name'', S_String ''www''), (''type'', S_String ''A''), (''data'', S_String ''1.2.3.4'')],
           S_Object [(''name'', S_String ''x.y''), (''type'', S_String ''A''), (''data'', S_String ''{{SELF}}'')]])],
        S_Object [(''zone'', S_String ''c.d''), (''blocked'', S_Bool True)],
        S_Object [(''zone'', S_String ''in-addr.arpa''), (''records'', S_Array
          [S_Object [(''name'', S_String ''192.0.2.1''), (''type'', S_String ''PTR''), (''data'', S_String ''www.a.b'')]])]])]"

definition sample_addresses :: address_env where
  "sample_addresses =
     \<lparr>pton4 = (\<lambda>s. if s = ''1.2.3.4'' then Some [1, 2, 3, 4] else if s = ''127.0.0.1'' then Some [127, 0, 0, 1] else None),
      pton6 = (\<lambda>_. None), redirect4 = ''127.0.0.1'', redirect6 = ''::1''\<rparr>"

lemma sample_address_ok: "address_ok sample_addresses"
  by (auto simp: address_ok_def sample_addresses_def)

definition sample_configured :: sample_value where
  "sample_configured =
     (case ConfigParser_NormalizeZones sample_json sample_file of
        Inr r \<Rightarrow> (case ConfigParser_ValidateAndOptimize sample_json sample_addresses r of Inr z \<Rightarrow> z | Inl _ \<Rightarrow> S_Bool False)
      | Inl _ \<Rightarrow> S_Bool False)"

lemma sample_configured: "configured sample_json sample_addresses sample_file sample_configured"
proof -
  have "case ConfigParser_NormalizeZones sample_json sample_file of
      Inr r \<Rightarrow> (case ConfigParser_ValidateAndOptimize sample_json sample_addresses r of Inr _ \<Rightarrow> True | Inl _ \<Rightarrow> False)
    | Inl _ \<Rightarrow> False" by code_simp
  then show ?thesis unfolding configured_def sample_configured_def by (auto split: sum.splits)
qed

section \<open>Properties\<close>

text \<open>C5: what \<^verbatim>\<open>NormalizeZones\<close> makes of a zones file. Each zone is what the last usable element of the file with its
  name says, trailing dots aside: blocked, or a map that the records of that element fill in their order, in which
  several records of one type and name become an array. Nothing else is in the result.\<close>

theorem NormalizeZones_correct:
  assumes "json_laws js" and "ConfigParser_NormalizeZones js p_Zones = Inr r"
  shows "case file_zones js p_Zones z of
      None \<Rightarrow> \<not> json_contains js r z
    | Some None \<Rightarrow> json_contains js r z \<and> json_string js (json_at js r z) = Some ''{{BLOCKED}}''
    | Some (Some recs) \<Rightarrow> json_contains js r z \<and> json_is_object js (json_at js r z) \<and>
        zone_entry js (json_at js r z) = fold (record_update js) recs Map.empty"
  using NormalizeZones_result [OF assms] json_lawsD(11) [OF assms(1)]
  by (auto simp: zone_is_def open_zone_def zone_wf_def split: option.splits dest!: spec [of _ z])

theorem NormalizeZones_correct_witness:
  "\<exists>r. ConfigParser_NormalizeZones sample_json sample_file = Inr r \<and>
    json_string sample_json (json_at sample_json r ''c.d'') = Some ''{{BLOCKED}}''"
proof -
  obtain r where r: "ConfigParser_NormalizeZones sample_json sample_file = Inr r"
    using sample_configured by (auto simp: configured_def)
  have "file_zones sample_json sample_file ''c.d'' = Some None" by code_simp
  then show ?thesis using NormalizeZones_correct [OF sample_json_laws r, of "''c.d''"] r by simp
qed





text \<open>The address that the owner name of a PTR query stands for, as the lookup writes it.\<close>

definition ptr_address :: "DnsParser \<Rightarrow> string" where
  "ptr_address p =
     (if prs_RootDomain p = ''in-addr.arpa'' then LocalDns_ReverseIpv4Components (prs_SubDomain p)
      else LocalDns_SimplifyIpv6 (LocalDns_ReverseIpv6Components (prs_SubDomain p)))"

text \<open>C31: reverse lookups of configured zones. The lookup uses the address as a key of the zone, where the parser
  of the zones file puts the record types: unless some record of the zone has the address as its type, a PTR query
  is left to the upstream resolver, whatever PTR records the file gives the zone.\<close>

theorem ptr_record_unreachable:
  assumes "json_laws js" and "configured js env p_Zones zones"
    and "file_zones js p_Zones (prs_RootDomain p) = Some (Some recs)"
    and "DnsParser_RecordType p = ''PTR''" and "Some (ptr_address p) \<notin> record_type js ` set recs"
  shows "LocalDns_CheckLocalMatch js eng ttl zones p out cache = Some ((-1, out), cache)"
proof -
  let ?zone = "json_at js zones (prs_RootDomain p)"
  have "zone_wf js ?zone" "json_contains js ?zone t \<longleftrightarrow> Some t \<in> record_type js ` set recs" for t
    using configured_zone [OF assms(1,2), of "prs_RootDomain p"] assms(3) by simp_all
  then show ?thesis
    using assms(4,5) json_lawsD(13) [OF assms(1), of ?zone]
    by (auto simp: LocalDns_CheckLocalMatch_def ptr_match_def ptr_address_def zone_wf_def Let_def)
qed

theorem ptr_record_unreachable_witness:
  "zone_entry sample_json (json_at sample_json sample_configured ''in-addr.arpa'') (''PTR'', escape_dots ''192.0.2.1'') =
     Some (S_String ''www.a.b'') \<and>
   ptr_address (sample_parser 12 ''1.2.0.192'' ''in-addr.arpa'') = ''192.0.2.1'' \<and>
   LocalDns_CheckLocalMatch sample_json sample_engine 300 sample_configured
     (sample_parser 12 ''1.2.0.192'' ''in-addr.arpa'') [] [] = Some ((-1, []), [])"
proof -
  let ?p = "sample_parser 12 ''1.2.0.192'' ''in-addr.arpa''"
  let ?recs = "[S_Object [(''name'', S_String ''192.0.2.1''), (''type'', S_String ''PTR''), (''data'', S_String ''www.a.b'')]]"
  have z: "file_zones sample_json sample_file (prs_RootDomain ?p) = Some (Some ?recs)" by code_simp
  have p: "DnsParser_RecordType ?p = ''PTR''" "Some (ptr_address ?p) \<notin> record_type sample_json ` set ?recs"
    "ptr_address ?p = ''192.0.2.1''"
    "zone_entry sample_json (json_at sample_json sample_configured ''in-addr.arpa'') (''PTR'', escape_dots ''192.0.2.1'') =
      Some (S_String ''www.a.b'')" by code_simp+
  show ?thesis
    using p ptr_record_unreachable [OF sample_json_laws sample_configured z p(1,2), of sample_engine 300 "[]" "[]"] by simp
qed

end
