(* ===== verification/Config.thy ===== *)
theory Config
  imports Config_Parser Doh
begin

text \<open>
  The global configuration (\<^verbatim>\<open>src/config.cc\<close>, \<^verbatim>\<open>include/config.h\<close>): its members with their initial values, the setters
  with the checks that they make, the expansion of the user agent template, and \<^verbatim>\<open>Initialize\<close>. A setter takes the
  object last and returns the \<^verbatim>\<open>int\<close> of the source and the object as it is then; a getter is a field of the record.

  What the build generates, the platform probes, \<^verbatim>\<open>inet_pton\<close>, the file system and the JSON library are fields of
  \<open>config_env\<close>.
\<close>

record 'j Config =
  m_DnsIpAddress :: string
  m_DnsPort :: u16
  m_DohResolvers :: "string list"
  m_Useragent :: string
  m_DohOnly :: bool
  m_RedirectIpv4 :: string
  m_RedirectIpv6 :: string
  m_DefaultTtl :: int
  m_ZonesPath :: string
  m_Zones :: 'j
  m_Initialized :: bool
  m_CacertPath :: string
  m_DohTimeoutMs :: int

record 'j config_env =
  ce_json :: "'j json"
  ce_pton4 :: "string \<Rightarrow> bytes option"
  ce_pton6 :: "string \<Rightarrow> bytes option"
  ce_files :: "string \<Rightarrow> file_state"
  ce_DefaultJson :: string
  ce_AppVersion :: string
  ce_AppDescription :: string
  ce_AppHomepage :: string
  ce_Console :: string
  ce_FirmwareVersion :: string

section \<open>Constants\<close>

definition MIN_DNS_PORT :: u16 where "MIN_DNS_PORT = 1"
definition MAX_DNS_PORT :: u16 where "MAX_DNS_PORT = 65535"
definition MIN_TTL :: int where "MIN_TTL = 0"
definition MAX_TTL :: int where "MAX_TTL = 604800"
definition MIN_DOH_TIMEOUT_MS :: int where "MIN_DOH_TIMEOUT_MS = 100"
definition MAX_DOH_TIMEOUT_MS :: int where "MAX_DOH_TIMEOUT_MS = 60000"
definition MAX_IPV4_STRING_LENGTH :: nat where "MAX_IPV4_STRING_LENGTH = 15"
definition MAX_IPV6_STRING_LENGTH :: nat where "MAX_IPV6_STRING_LENGTH = 45"

definition USERAGENT_TEMPLATE_SIMPLE :: string where
  "USERAGENT_TEMPLATE_SIMPLE = ''chukei/{{APP_VERSION}} ({{CONSOLE}})''"

definition USERAGENT_TEMPLATE_FULL :: string where
  "USERAGENT_TEMPLATE_FULL = ''chukei/{{APP_VERSION}} ({{CONSOLE}} {{FIRMWARE_VERSION}})''"

definition Config_default :: "'j json \<Rightarrow> 'j Config" where
  "Config_default js =
     \<lparr>m_DnsIpAddress = ''127.0.0.1'', m_DnsPort = 53,
      m_DohResolvers = [''https://1.1.1.1/dns-query'', ''https://1.0.0.1/dns-query''],
      m_Useragent = [], m_DohOnly = False, m_RedirectIpv4 = ''127.0.0.1'', m_RedirectIpv6 = ''::1'',
      m_DefaultTtl = 3600, m_ZonesPath = [], m_Zones = json_object js, m_Initialized = False, m_CacertPath = [],
      m_DohTimeoutMs = 15000\<rparr>"

section \<open>The user agent\<close>

text \<open>\<^verbatim>\<open>std::string::find(token, pos)\<close>\<close>

definition find_from :: "string \<Rightarrow> string \<Rightarrow> nat \<Rightarrow> nat option" where
  "find_from s token pos = find (\<lambda>i. take (length token) (drop i s) = token) [pos..<Suc (length s)]"

lemma find_from_bounds:
  assumes "find_from s token pos = Some i"
  shows "pos \<le> i" and "i + length token \<le> length s" and "take (length token) (drop i s) = token"
proof -
  have "i \<in> set [pos..<Suc (length s)]" "take (length token) (drop i s) = token"
    using assms by (auto simp: find_from_def dest: find_SomeD)
  moreover from this(2) have "length token \<le> length s - i" by (metis length_take length_drop min.cobounded1)
  ultimately show "pos \<le> i" "i + length token \<le> length s" "take (length token) (drop i s) = token" by auto
qed

text \<open>The inner loop: what was put in is skipped. Every token of the program is a non-empty literal; the guard makes
  the function total.\<close>

function replace_token :: "string \<Rightarrow> string \<Rightarrow> string \<Rightarrow> nat \<Rightarrow> string" where
  "replace_token l_Token l_Value s_Result s_Pos =
     (if l_Token = [] then s_Result
      else case find_from s_Result l_Token s_Pos of
        None \<Rightarrow> s_Result
      | Some s_Pos \<Rightarrow>
          replace_token l_Token l_Value (take s_Pos s_Result @ l_Value @ drop (s_Pos + length l_Token) s_Result)
            (s_Pos + length l_Value))"
  by pat_completeness auto
termination
proof (relation "measure (\<lambda>(token, value, s, pos). length s - pos)", simp)
  fix token v s pos i
  assume "(token :: string) \<noteq> []" and "find_from s token pos = Some i"
  then show "((token, v, take i s @ v @ drop (i + length token) s, i + length v), token, v, s, pos)
      \<in> measure (\<lambda>(token, value, s, pos). length s - pos)"
    using find_from_bounds [of s token pos i] by (cases token) auto
qed

declare replace_token.simps [simp del]

definition s_Masks :: "'j config_env \<Rightarrow> (string \<times> string) list" where
  "s_Masks env =
     [(''{{APP_VERSION}}'', ce_AppVersion env), (''{{APP_DESCRIPTION}}'', ce_AppDescription env),
      (''{{APP_HOMEPAGE}}'', ce_AppHomepage env), (''{{CONSOLE}}'', ce_Console env),
      (''{{FIRMWARE_VERSION}}'', ce_FirmwareVersion env)]"

definition Config_ProcessUseragentMask :: "'j config_env \<Rightarrow> string \<Rightarrow> string" where
  "Config_ProcessUseragentMask env p_Input =
     fold (\<lambda>(l_Token, l_Value) s_Result. replace_token l_Token l_Value s_Result 0) (s_Masks env) p_Input"

section \<open>Setters\<close>

definition Config_DnsIpAddress :: "'j config_env \<Rightarrow> string \<Rightarrow> 'j Config \<Rightarrow> int \<times> 'j Config" where
  "Config_DnsIpAddress env p_Input c =
     (if p_Input = [] then (1, c)
      else if ce_pton4 env (c_str p_Input) = None \<and> ce_pton6 env (c_str p_Input) = None then (1, c)
      else (0, c\<lparr>m_DnsIpAddress := p_Input\<rparr>))"

definition Config_DnsPort :: "u16 \<Rightarrow> 'j Config \<Rightarrow> int \<times> 'j Config" where
  "Config_DnsPort p_Input c =
     (if p_Input < MIN_DNS_PORT \<or> p_Input > MAX_DNS_PORT then (1, c) else (0, c\<lparr>m_DnsPort := p_Input\<rparr>))"

text \<open>The part of a resolver URL between the prefix and the next slash, up to a colon.\<close>

definition resolver_host :: "string \<Rightarrow> string" where
  "resolver_host l_Resolver =
     takeWhile (\<lambda>c. c \<noteq> CHR '':'') (takeWhile (\<lambda>c. c \<noteq> CHR ''/'') (drop (length ''https://'') l_Resolver))"

definition resolver_accepted :: "'j config_env \<Rightarrow> string \<Rightarrow> bool" where
  "resolver_accepted env l_Resolver \<longleftrightarrow>
     take (length ''https://'') l_Resolver = ''https://'' \<and>
     \<not> (ce_pton4 env (c_str (resolver_host l_Resolver)) = None \<and> ce_pton6 env (c_str (resolver_host l_Resolver)) = None)"

definition Config_DohResolvers :: "'j config_env \<Rightarrow> string list \<Rightarrow> 'j Config \<Rightarrow> int \<times> 'j Config" where
  "Config_DohResolvers env p_Input c =
     (if p_Input = [] then (1, c)
      else let s_ValidResolvers = filter (resolver_accepted env) p_Input
           in if s_ValidResolvers = [] then (1, c) else (0, c\<lparr>m_DohResolvers := s_ValidResolvers\<rparr>))"

definition Config_Useragent :: "'j config_env \<Rightarrow> string \<Rightarrow> 'j Config \<Rightarrow> int \<times> 'j Config" where
  "Config_Useragent env p_Input c =
     (if p_Input = [] then (1, c)
      else let s_ProcessedUseragent = Config_ProcessUseragentMask env p_Input
           in if s_ProcessedUseragent = [] then (1, c) else (0, c\<lparr>m_Useragent := s_ProcessedUseragent\<rparr>))"

definition Config_DohOnly :: "bool \<Rightarrow> 'j Config \<Rightarrow> int \<times> 'j Config" where
  "Config_DohOnly p_Input c = (0, c\<lparr>m_DohOnly := p_Input\<rparr>)"

definition Config_RedirectIpv4 :: "'j config_env \<Rightarrow> string \<Rightarrow> 'j Config \<Rightarrow> int \<times> 'j Config" where
  "Config_RedirectIpv4 env p_Input c =
     (if p_Input = [] \<or> length p_Input > MAX_IPV4_STRING_LENGTH then (1, c)
      else if ce_pton4 env (c_str p_Input) = None then (1, c)
      else (0, c\<lparr>m_RedirectIpv4 := p_Input\<rparr>))"

definition Config_RedirectIpv6 :: "'j config_env \<Rightarrow> string \<Rightarrow> 'j Config \<Rightarrow> int \<times> 'j Config" where
  "Config_RedirectIpv6 env p_Input c =
     (if p_Input = [] \<or> length p_Input > MAX_IPV6_STRING_LENGTH then (1, c)
      else if ce_pton6 env (c_str p_Input) = None then (1, c)
      else (0, c\<lparr>m_RedirectIpv6 := p_Input\<rparr>))"

definition Config_DefaultTtl :: "int \<Rightarrow> 'j Config \<Rightarrow> int \<times> 'j Config" where
  "Config_DefaultTtl p_Input c =
     (if p_Input < MIN_TTL \<or> p_Input > MAX_TTL then (1, c) else (0, c\<lparr>m_DefaultTtl := p_Input\<rparr>))"

text \<open>\<^verbatim>\<open>stat\<close> succeeds and reports a regular file.\<close>

definition regular_file :: "'j config_env \<Rightarrow> string \<Rightarrow> bool" where
  "regular_file env p = (case ce_files env (c_str p) of
     No_file \<Rightarrow> False | Not_regular \<Rightarrow> False | Unreadable \<Rightarrow> True | Readable _ \<Rightarrow> True)"

definition Config_ZonesPath :: "'j config_env \<Rightarrow> string \<Rightarrow> 'j Config \<Rightarrow> int \<times> 'j Config" where
  "Config_ZonesPath env p_Input c =
     (if p_Input = [] then (1, c)
      else if \<not> regular_file env p_Input then (1, c)
      else (0, c\<lparr>m_ZonesPath := p_Input\<rparr>))"

definition Config_ResetZonesPath :: "'j Config \<Rightarrow> int \<times> 'j Config" where
  "Config_ResetZonesPath c = (0, c\<lparr>m_ZonesPath := []\<rparr>)"

definition zone_addresses :: "'j config_env \<Rightarrow> 'j Config \<Rightarrow> address_env" where
  "zone_addresses env c =
     \<lparr>pton4 = ce_pton4 env, pton6 = ce_pton6 env, redirect4 = m_RedirectIpv4 c, redirect6 = m_RedirectIpv6 c\<rparr>"

definition Config_Zones :: "'j config_env \<Rightarrow> 'j \<Rightarrow> 'j Config \<Rightarrow> int \<times> 'j Config" where
  "Config_Zones env p_Input c =
     (let failed = (1, c\<lparr>m_Zones := json_object (ce_json env)\<rparr>)
      in case ConfigParser_NormalizeZones (ce_json env) p_Input of
           Inl e \<Rightarrow> failed
         | Inr s_Normalized \<Rightarrow>
             (case ConfigParser_ValidateAndOptimize (ce_json env) (zone_addresses env c) s_Normalized of
                Inl e \<Rightarrow> failed
              | Inr z \<Rightarrow> (0, c\<lparr>m_Zones := z\<rparr>)))"

definition Config_Initialized :: "bool \<Rightarrow> 'j Config \<Rightarrow> int \<times> 'j Config" where
  "Config_Initialized p_Input c = (0, c\<lparr>m_Initialized := p_Input\<rparr>)"

definition Config_CacertPath :: "'j config_env \<Rightarrow> string \<Rightarrow> 'j Config \<Rightarrow> int \<times> 'j Config" where
  "Config_CacertPath env p_Input c =
     (if p_Input = [] then (0, c\<lparr>m_CacertPath := []\<rparr>)
      else if \<not> regular_file env p_Input then (1, c)
      else (0, c\<lparr>m_CacertPath := p_Input\<rparr>))"

definition Config_DohTimeoutMs :: "int \<Rightarrow> 'j Config \<Rightarrow> int \<times> 'j Config" where
  "Config_DohTimeoutMs p_Input c =
     (if p_Input < MIN_DOH_TIMEOUT_MS \<or> p_Input > MAX_DOH_TIMEOUT_MS then (-1, c)
      else (0, c\<lparr>m_DohTimeoutMs := p_Input\<rparr>))"

section \<open>Initialisation\<close>

definition Config_Initialize :: "'j config_env \<Rightarrow> string \<Rightarrow> 'j Config \<Rightarrow> 'j Config" where
  "Config_Initialize env p_ZonesPath c =
     (let js = ce_json env;
          c = snd (Config_Useragent env
                (if ce_FirmwareVersion env = [] then USERAGENT_TEMPLATE_SIMPLE else USERAGENT_TEMPLATE_FULL) c);
          (ret, c) = Config_ZonesPath env p_ZonesPath c;
          s_Zones = (if ret = 0 then ConfigParser_Parse js (ce_files env) (m_ZonesPath c) else json_object js);
          finish = (\<lambda>s_Zones c.
            (let (ret, c) = Config_Zones env s_Zones c
             in if ret \<noteq> 0 \<and> \<not> m_DohOnly c then c else snd (Config_Initialized True c)))
      in if json_empty js s_Zones then
           (let c = snd (Config_ResetZonesPath c)
            in case ConfigParser_LoadDefault js (ce_DefaultJson env) of
                 Inr s_Zones \<Rightarrow> finish s_Zones c
               | Inl e \<Rightarrow> if \<not> m_DohOnly c then c else finish (json_object js) c)
         else finish s_Zones c)"

section \<open>Lemmas: the user agent\<close>

text \<open>What the expansion of one token means, without positions: the occurrences from left to right are replaced, and
  what was put in is not looked at again.\<close>

function expand_token :: "string \<Rightarrow> string \<Rightarrow> string \<Rightarrow> string" where
  "expand_token t v [] = []"
| "expand_token t v (c # cs) =
     (if t \<noteq> [] \<and> take (length t) (c # cs) = t then v @ expand_token t v (drop (length t) (c # cs))
      else c # expand_token t v cs)"
  by pat_completeness auto
termination
  by (relation "measure (\<lambda>(t, v, s). length s)") (auto simp: neq_Nil_conv)

lemma expand_skip:
  assumes "t \<noteq> []" and "n \<le> length u" and "\<forall>i<n. take (length t) (drop i u) \<noteq> t"
  shows "expand_token t v u = take n u @ expand_token t v (drop n u)"
  using assms(2,3)
proof (induction n arbitrary: u)
  case (Suc n)
  then obtain c cs where u: "u = c # cs" by (cases u) auto
  have "\<forall>i<n. take (length t) (drop i cs) \<noteq> t" using Suc.prems(2) u by auto
  with Suc u have "expand_token t v cs = take n cs @ expand_token t v (drop n cs)" by simp
  moreover have "take (length t) (c # cs) \<noteq> t" using Suc.prems(2) u by force
  ultimately show ?case by (simp add: u)
qed simp

lemma find_from_first:
  assumes "find_from s t pos = Some i" and "j < i - pos"
  shows "take (length t) (drop j (drop pos s)) \<noteq> t"
proof -
  obtain k where "i = pos + k" "\<forall>j<k. take (length t) (drop (pos + j) s) \<noteq> t" "k < Suc (length s) - pos"
    using assms(1) unfolding find_from_def find_Some_iff by (force simp: nth_upt simp del: upt_Suc)
  then show ?thesis using assms(2) by (simp add: add.commute)
qed

lemma replace_token_expand:
  assumes "t \<noteq> []" and "pos \<le> length s"
  shows "replace_token t v s pos = take pos s @ expand_token t v (drop pos s)"
  using assms
proof (induction t v s pos rule: replace_token.induct)
  case (1 t v s pos)
  let ?u = "drop pos s"
  show ?case
  proof (cases "find_from s t pos")
    case None
    then have "take (length t) (drop i ?u) \<noteq> t" if "i < length ?u" for i
      using that 1(3) by (auto simp: find_from_def find_None_iff add.commute simp del: upt_Suc)
    then have "expand_token t v ?u = ?u" using expand_skip [OF 1(2), of "length ?u" ?u v] by simp
    then show ?thesis using None by (subst replace_token.simps) simp
  next
    case (Some i)
    note i = find_from_bounds [OF Some]
    have "?u \<noteq> [] \<and> drop (i - pos) ?u = drop i s" "i - pos \<le> length ?u" using i 1(2) by auto
    with expand_skip [OF 1(2) this(2), of v] find_from_first [OF Some]
    have "expand_token t v ?u = take (i - pos) ?u @ expand_token t v (drop i s)" by simp
    moreover have "take pos s @ take (i - pos) ?u = take i s" using i(1) by (metis le_add_diff_inverse take_add)
    ultimately have u: "take pos s @ expand_token t v ?u = take i s @ expand_token t v (drop i s)" by (metis append_assoc)
    obtain c cs where cs: "drop i s = c # cs" using i 1(2) by (cases "drop i s") auto
    then have "expand_token t v (drop i s) = v @ expand_token t v (drop (length t) (drop i s))"
      using i(3) 1(2) unfolding cs by (simp del: drop_drop)
    then have "expand_token t v (drop i s) = v @ expand_token t v (drop (i + length t) s)" by (simp add: add.commute)
    then show ?thesis
      using u 1(1) [OF 1(2) Some 1(2)] i Some 1(2) by (subst replace_token.simps) simp
  qed
qed

text \<open>The masks in their order.\<close>

definition expand_masks :: "(string \<times> string) list \<Rightarrow> string \<Rightarrow> string" where
  "expand_masks masks s = fold (\<lambda>(t, v). expand_token t v) masks s"

lemma ProcessUseragentMask_expand: "Config_ProcessUseragentMask env s = expand_masks (s_Masks env) s"
  by (simp add: Config_ProcessUseragentMask_def expand_masks_def s_Masks_def replace_token_expand)

text \<open>Text that does not start with a brace keeps its first character.\<close>

lemma expand_token_head:
  "t \<noteq> [] \<Longrightarrow> hd t \<noteq> c \<Longrightarrow> \<exists>cs'. expand_token t v (c # cs) = c # cs'"
  by (cases t) auto

lemma ProcessUseragentMask_head:
  assumes "c \<noteq> CHR ''{''"
  shows "\<exists>cs'. Config_ProcessUseragentMask env (c # cs) = c # cs'"
proof -
  have "\<exists>cs'. expand_masks masks (c # cs) = c # cs'" if "\<forall>(t, v)\<in>set masks. t \<noteq> [] \<and> hd t = CHR ''{''" for masks
    using that
  proof (induction masks arbitrary: cs)
    case (Cons m masks)
    obtain t v where m: "m = (t, v)" by force
    then obtain cs' where "expand_token t v (c # cs) = c # cs'" using Cons.prems assms expand_token_head [of t c v cs] by auto
    then show ?case using Cons.IH [of cs'] Cons.prems m by (simp add: expand_masks_def)
  qed (simp add: expand_masks_def)
  then show ?thesis by (simp add: ProcessUseragentMask_expand s_Masks_def)
qed

section \<open>Calls of the configuration\<close>

datatype 'j config_call =
    Set_DnsIpAddress string | Set_DnsPort u16 | Set_DohResolvers "string list" | Set_Useragent string
  | Set_DohOnly bool | Set_RedirectIpv4 string | Set_RedirectIpv6 string | Set_DefaultTtl int
  | Set_ZonesPath string | Reset_ZonesPath | Set_Zones 'j | Set_Initialized bool | Set_CacertPath string
  | Set_DohTimeoutMs int | Initialize string

primrec config_step :: "'j config_env \<Rightarrow> 'j config_call \<Rightarrow> 'j Config \<Rightarrow> int \<times> 'j Config" where
  "config_step env (Set_DnsIpAddress x) = Config_DnsIpAddress env x"
| "config_step env (Set_DnsPort x) = Config_DnsPort x"
| "config_step env (Set_DohResolvers x) = Config_DohResolvers env x"
| "config_step env (Set_Useragent x) = Config_Useragent env x"
| "config_step env (Set_DohOnly x) = Config_DohOnly x"
| "config_step env (Set_RedirectIpv4 x) = Config_RedirectIpv4 env x"
| "config_step env (Set_RedirectIpv6 x) = Config_RedirectIpv6 env x"
| "config_step env (Set_DefaultTtl x) = Config_DefaultTtl x"
| "config_step env (Set_ZonesPath x) = Config_ZonesPath env x"
| "config_step env Reset_ZonesPath = Config_ResetZonesPath"
| "config_step env (Set_Zones x) = Config_Zones env x"
| "config_step env (Set_Initialized x) = Config_Initialized x"
| "config_step env (Set_CacertPath x) = Config_CacertPath env x"
| "config_step env (Set_DohTimeoutMs x) = Config_DohTimeoutMs x"
| "config_step env (Initialize x) = (\<lambda>c. (0, Config_Initialize env x c))"

text \<open>The configurations that calls in any order, with any arguments, lead to.\<close>

inductive config_reachable :: "'j config_env \<Rightarrow> 'j Config \<Rightarrow> bool" for env where
  start: "config_reachable env (Config_default (ce_json env))"
| call: "config_reachable env c \<Longrightarrow> config_step env x c = (ret, c') \<Longrightarrow> config_reachable env c'"

text \<open>The addresses that the program starts with are addresses.\<close>

definition defaults_ok :: "'j config_env \<Rightarrow> bool" where
  "defaults_ok env \<longleftrightarrow> ce_pton4 env ''127.0.0.1'' \<noteq> None \<and> ce_pton4 env ''1.1.1.1'' \<noteq> None \<and>
     ce_pton4 env ''1.0.0.1'' \<noteq> None \<and> ce_pton6 env ''::1'' \<noteq> None"

text \<open>The zones are empty, or were made from some zones file with valid redirect addresses.\<close>

definition zones_built :: "'j config_env \<Rightarrow> 'j \<Rightarrow> bool" where
  "zones_built env z \<longleftrightarrow> z = json_object (ce_json env) \<or>
     (\<exists>src r4 r6. ce_pton4 env (c_str r4) \<noteq> None \<and> ce_pton6 env (c_str r6) \<noteq> None \<and>
        configured (ce_json env) \<lparr>pton4 = ce_pton4 env, pton6 = ce_pton6 env, redirect4 = r4, redirect6 = r6\<rparr> src z)"

definition config_inv :: "'j config_env \<Rightarrow> 'j Config \<Rightarrow> bool" where
  "config_inv env c \<longleftrightarrow>
     (ce_pton4 env (c_str (m_DnsIpAddress c)) \<noteq> None \<or> ce_pton6 env (c_str (m_DnsIpAddress c)) \<noteq> None) \<and>
     m_DnsPort c \<noteq> 0 \<and>
     m_DohResolvers c \<noteq> [] \<and> (\<forall>r\<in>set (m_DohResolvers c). resolver_accepted env r) \<and>
     ce_pton4 env (c_str (m_RedirectIpv4 c)) \<noteq> None \<and> ce_pton6 env (c_str (m_RedirectIpv6 c)) \<noteq> None \<and>
     m_DefaultTtl c \<in> {0..604800} \<and> m_DohTimeoutMs c \<in> {100..60000} \<and> zones_built env (m_Zones c)"

lemmas config_setters =
  Config_DnsIpAddress_def Config_DnsPort_def Config_DohResolvers_def Config_Useragent_def Config_DohOnly_def
  Config_RedirectIpv4_def Config_RedirectIpv6_def Config_DefaultTtl_def Config_ZonesPath_def Config_ResetZonesPath_def
  Config_Initialized_def Config_CacertPath_def Config_DohTimeoutMs_def

lemmas config_limits =
  MIN_DNS_PORT_def MAX_DNS_PORT_def MIN_TTL_def MAX_TTL_def MIN_DOH_TIMEOUT_MS_def MAX_DOH_TIMEOUT_MS_def

lemma config_inv_default:
  assumes "defaults_ok env"
  shows "config_inv env (Config_default (ce_json env))"
proof -
  have c: "c_str ''127.0.0.1'' = ''127.0.0.1''" "c_str ''::1'' = ''::1''"
    "c_str (resolver_host ''https://1.1.1.1/dns-query'') = ''1.1.1.1''"
    "c_str (resolver_host ''https://1.0.0.1/dns-query'') = ''1.0.0.1''" by code_simp+
  have "take (length ''https://'') ''https://1.1.1.1/dns-query'' = ''https://''"
    "take (length ''https://'') ''https://1.0.0.1/dns-query'' = ''https://''" by code_simp+
  then show ?thesis
    using assms unfolding config_inv_def Config_default_def
    by (simp add: c defaults_ok_def resolver_accepted_def zones_built_def del: list.size take_Cons_numeral)
qed

text \<open>\<^verbatim>\<open>Zones\<close> and \<^verbatim>\<open>Initialize\<close>.\<close>

definition zones_result :: "'j config_env \<Rightarrow> 'j Config \<Rightarrow> 'j \<Rightarrow> 'j option" where
  "zones_result env c src =
     (case ConfigParser_NormalizeZones (ce_json env) src of
        Inl e \<Rightarrow> None
      | Inr r \<Rightarrow> (case ConfigParser_ValidateAndOptimize (ce_json env) (zone_addresses env c) r of
                   Inl e \<Rightarrow> None | Inr z \<Rightarrow> Some z))"

lemma zones_result_configured:
  "zones_result env c src = Some z \<longleftrightarrow> configured (ce_json env) (zone_addresses env c) src z"
  by (auto simp: zones_result_def configured_def split: sum.splits)

lemma Config_Zones_result:
  "Config_Zones env src c = (case zones_result env c src of
     None \<Rightarrow> (1, c\<lparr>m_Zones := json_object (ce_json env)\<rparr>) | Some z \<Rightarrow> (0, c\<lparr>m_Zones := z\<rparr>))"
  by (simp add: Config_Zones_def zones_result_def Let_def split: sum.split)

text \<open>The zones that \<^verbatim>\<open>Initialize\<close> works with, before they are checked: those of the file, unless it cannot be used or
  its value is empty, and then the built-in ones.\<close>

definition zones_source :: "'j config_env \<Rightarrow> string \<Rightarrow> 'j option" where
  "zones_source env p =
     (let js = ce_json env;
          user = (if p \<noteq> [] \<and> regular_file env p then ConfigParser_Parse js (ce_files env) p else json_object js)
      in if json_empty js user then json_parse js (ce_DefaultJson env) else Some user)"

lemma template_head: "\<exists>cs. (if b then USERAGENT_TEMPLATE_SIMPLE else USERAGENT_TEMPLATE_FULL) = CHR ''c'' # cs"
  by (simp add: USERAGENT_TEMPLATE_SIMPLE_def USERAGENT_TEMPLATE_FULL_def)

lemma Initialize_useragent:
  obtains ua where "ua \<noteq> []" and "\<And>c. Config_Useragent env
    (if ce_FirmwareVersion env = [] then USERAGENT_TEMPLATE_SIMPLE else USERAGENT_TEMPLATE_FULL) c = (0, c\<lparr>m_Useragent := ua\<rparr>)"
proof -
  let ?t = "if ce_FirmwareVersion env = [] then USERAGENT_TEMPLATE_SIMPLE else USERAGENT_TEMPLATE_FULL"
  obtain cs where t: "?t = CHR ''c'' # cs" using template_head by blast
  then obtain cs' where ua: "Config_ProcessUseragentMask env ?t = CHR ''c'' # cs'"
    using ProcessUseragentMask_head [of "CHR ''c''" env cs] by auto
  show thesis
    using that [of "CHR ''c'' # cs'"] unfolding Config_Useragent_def ua by (simp add: t)
qed

text \<open>\<^verbatim>\<open>Initialize\<close> sets the user agent, the path, the zones and the flag, and nothing else.\<close>

definition initialize_spec :: "'j config_env \<Rightarrow> string \<Rightarrow> string \<Rightarrow> string \<Rightarrow> 'j Config \<Rightarrow> 'j Config" where
  "initialize_spec env p ua path c =
     (let c' = c\<lparr>m_Useragent := ua, m_ZonesPath := path\<rparr>; none = json_object (ce_json env) in
      case Option.bind (zones_source env p) (zones_result env c) of
        Some z \<Rightarrow> c'\<lparr>m_Zones := z, m_Initialized := True\<rparr>
      | None \<Rightarrow>
          if \<not> m_DohOnly c then (if zones_source env p = None then c' else c'\<lparr>m_Zones := none\<rparr>)
          else c'\<lparr>m_Zones := (case zones_source env p of
                 None \<Rightarrow> (case zones_result env c none of Some z \<Rightarrow> z | None \<Rightarrow> none) | Some _ \<Rightarrow> none),
                 m_Initialized := True\<rparr>)"

lemma Initialize_result:
  obtains ua path where "ua \<noteq> []" and "Config_Initialize env p c = initialize_spec env p ua path c"
proof -
  obtain ua where ua: "ua \<noteq> []" "\<And>c. Config_Useragent env
    (if ce_FirmwareVersion env = [] then USERAGENT_TEMPLATE_SIMPLE else USERAGENT_TEMPLATE_FULL) c = (0, c\<lparr>m_Useragent := ua\<rparr>)"
    using Initialize_useragent [of env] by metis
  have za: "zone_addresses env (c\<lparr>m_Useragent := u, m_ZonesPath := q\<rparr>) = zone_addresses env c"
    "zone_addresses env (c\<lparr>m_Useragent := u\<rparr>) = zone_addresses env c" for u q
    by (simp_all add: zone_addresses_def)
  have res: "zones_result env (c\<lparr>m_Useragent := u, m_ZonesPath := q\<rparr>) = zones_result env c"
    "zones_result env (c\<lparr>m_Useragent := u\<rparr>) = zones_result env c" for u q
    unfolding zones_result_def za by (rule refl)+
  let ?js = "ce_json env"
  define read where "read = (p \<noteq> [] \<and> regular_file env p)"
  define user where "user = (if read then ConfigParser_Parse ?js (ce_files env) p else json_object ?js)"
  define path where "path = (if json_empty ?js user then [] else if read then p else m_ZonesPath c)"
  have zp: "Config_ZonesPath env p c' = (if read then (0, c'\<lparr>m_ZonesPath := p\<rparr>) else (1, c'))" for c'
    by (auto simp: Config_ZonesPath_def read_def)
  have src: "zones_source env p = (if json_empty ?js user then json_parse ?js (ce_DefaultJson env) else Some user)"
    by (simp add: zones_source_def user_def read_def Let_def)
  note def = Config_Initialize_def initialize_spec_def Let_def ua(2) zp Config_ResetZonesPath_def Config_Initialized_def Config_Zones_result
    ConfigParser_LoadDefault_def
  show thesis
  proof (rule that [OF ua(1)])
    show "Config_Initialize env p c = initialize_spec env p ua path c"
    proof (cases "json_empty ?js user")
      case True
      then show ?thesis
        by (cases read; cases "json_parse ?js (ce_DefaultJson env)")
          (auto simp: def src path_def user_def res split: option.split)
    next
      case False
      then show ?thesis
        by (cases read) (auto simp: def src path_def user_def res split: option.split)
    qed
  qed
qed

lemma zones_built_empty [simp]: "zones_built env (json_object (ce_json env))"
  by (simp add: zones_built_def)

lemma zones_result_built:
  assumes "config_inv env c" and "zones_result env c src = Some z"
  shows "zones_built env z"
  using assms unfolding zones_result_configured zones_built_def config_inv_def zone_addresses_def by blast

lemma config_inv_update:
  "config_inv env (c\<lparr>m_Useragent := u\<rparr>) = config_inv env c" "config_inv env (c\<lparr>m_DohOnly := b\<rparr>) = config_inv env c"
  "config_inv env (c\<lparr>m_ZonesPath := u\<rparr>) = config_inv env c" "config_inv env (c\<lparr>m_Initialized := b\<rparr>) = config_inv env c"
  "config_inv env (c\<lparr>m_CacertPath := u\<rparr>) = config_inv env c"
  "zones_built env z \<Longrightarrow> config_inv env c \<Longrightarrow> config_inv env (c\<lparr>m_Zones := z\<rparr>)"
  "\<not> (ce_pton4 env (c_str a) = None \<and> ce_pton6 env (c_str a) = None) \<Longrightarrow> config_inv env c \<Longrightarrow>
    config_inv env (c\<lparr>m_DnsIpAddress := a\<rparr>)"
  "p \<noteq> 0 \<Longrightarrow> config_inv env c \<Longrightarrow> config_inv env (c\<lparr>m_DnsPort := p\<rparr>)"
  "filter (resolver_accepted env) rs \<noteq> [] \<Longrightarrow> config_inv env c \<Longrightarrow>
    config_inv env (c\<lparr>m_DohResolvers := filter (resolver_accepted env) rs\<rparr>)"
  "ce_pton4 env (c_str a) \<noteq> None \<Longrightarrow> config_inv env c \<Longrightarrow> config_inv env (c\<lparr>m_RedirectIpv4 := a\<rparr>)"
  "ce_pton6 env (c_str a) \<noteq> None \<Longrightarrow> config_inv env c \<Longrightarrow> config_inv env (c\<lparr>m_RedirectIpv6 := a\<rparr>)"
  "t \<in> {0..604800} \<Longrightarrow> config_inv env c \<Longrightarrow> config_inv env (c\<lparr>m_DefaultTtl := t\<rparr>)"
  "t \<in> {100..60000} \<Longrightarrow> config_inv env c \<Longrightarrow> config_inv env (c\<lparr>m_DohTimeoutMs := t\<rparr>)"
  by (simp_all add: config_inv_def)

lemma config_step_inv:
  assumes "config_inv env c" and "config_step env x c = (ret, c')"
  shows "config_inv env c'"
proof (cases x)
  case (Set_Zones src)
  then show ?thesis
    using assms zones_result_built [OF assms(1), of src] config_inv_update(6) [OF _ assms(1)]
    by (cases "zones_result env c src") (auto simp: Config_Zones_result)
next
  case (Initialize p)
  obtain ua path where c': "c' = initialize_spec env p ua path c"
    using Initialize_result [of env p c] assms(2) Initialize by (metis config_step.simps(15) prod.inject)
  have "zones_built env z" if "Option.bind (zones_source env p) (zones_result env c) = Some z" for z
    using that zones_result_built [OF assms(1)] by (auto simp: bind_eq_Some_conv)
  moreover have "zones_built env z" if "zones_result env c (json_object (ce_json env)) = Some z" for z
    using that by (rule zones_result_built [OF assms(1)])
  ultimately show ?thesis
    using assms(1) unfolding c' initialize_spec_def Let_def by (auto simp: config_inv_update split: option.splits)
next
  case (Set_DnsPort p)
  have "p \<noteq> 0" if "\<not> p < 1" for p :: u16 using that by (simp add: word_less_1)
  then show ?thesis
    using assms Set_DnsPort by (auto simp: Config_DnsPort_def MIN_DNS_PORT_def intro: config_inv_update split: if_splits)
qed (use assms in \<open>auto simp: config_setters config_limits config_inv_update(1-5) Let_def intro: config_inv_update(7-)
      split: if_splits\<close>)

lemma config_step_failed:
  assumes "config_step env x c = (ret, c')" and "ret \<noteq> 0"
  shows "c' = c \<or> (\<exists>src. x = Set_Zones src \<and> c' = c\<lparr>m_Zones := json_object (ce_json env)\<rparr>)"
  using assms
  by (cases x) (auto simp: config_setters Config_Zones_result Let_def split: if_splits option.splits)

section \<open>A concrete environment\<close>

text \<open>The built-in zones are those of \<open>sample_file\<close>; the file \<^verbatim>\<open>bad.json\<close> is there but gives a record of type A that is
  no address.\<close>

definition sample_bad_file :: sample_value where
  "sample_bad_file =
     S_Object [(''zones'', S_Array [S_Object [(''zone'', S_String ''a.b''), (''records'',
       S_Array [S_Object [(''name'', S_String ''www''), (''type'', S_String ''A''), (''data'', S_String ''x'')]])]])]"

definition sample_config_env :: "sample_value config_env" where
  "sample_config_env =
     \<lparr>ce_json = sample_json\<lparr>json_parse := (\<lambda>s.
        if s = ''default'' then Some sample_file
        else if s = ''bad'' then Some sample_bad_file else None)\<rparr>,
      ce_pton4 = (\<lambda>s. if s \<in> {''1.2.3.4'', ''127.0.0.1'', ''1.1.1.1'', ''1.0.0.1''} then Some [1, 2, 3, 4] else None),
      ce_pton6 = (\<lambda>s. if s = ''::1'' then Some (replicate 16 0) else None),
      ce_files = (\<lambda>p. if p = ''bad.json'' then Readable ''bad'' else No_file), ce_DefaultJson = ''default'',
      ce_AppVersion = ''1.0'', ce_AppDescription = ''dns'', ce_AppHomepage = ''home'', ce_Console = ''Linux'',
      ce_FirmwareVersion = []\<rparr>"

lemma sample_defaults_ok: "defaults_ok sample_config_env"
  by (simp add: defaults_ok_def sample_config_env_def)

section \<open>Properties\<close>

text \<open>C6: whatever setters are called, in any order and with any arguments, the configuration stays usable: the listen
  address and the redirect addresses are addresses, the port is not 0, there is a resolver and every resolver is an
  \<^verbatim>\<open>https://\<close> URL of an address, TTL and time budget are in their ranges, and the zones are empty or were made from
  a zones file. A setter that reports an error has changed nothing, except that \<^verbatim>\<open>Zones\<close> has emptied the zones.\<close>

theorem configuration_invariant:
  assumes "defaults_ok env" and "config_reachable env c"
  shows "config_inv env c \<and>
    (\<forall>x. fst (config_step env x c) \<noteq> 0 \<longrightarrow> snd (config_step env x c) = c \<or>
       (\<exists>src. x = Set_Zones src \<and> snd (config_step env x c) = c\<lparr>m_Zones := json_object (ce_json env)\<rparr>))"
proof -
  from assms(2) have "config_inv env c"
  proof (induction rule: config_reachable.induct)
    case start
    show ?case by (rule config_inv_default [OF assms(1)])
  next
    case (call c x ret c')
    then show ?case by (simp add: config_step_inv)
  qed
  then show ?thesis using config_step_failed by (metis prod.collapse)
qed

theorem configuration_invariant_witness:
  "\<exists>c. config_step sample_config_env (Set_DohResolvers [''http://1.2.3.4/'', ''https://1.2.3.4:8443/q'', ''https://host/''])
      (Config_default (ce_json sample_config_env)) = (0, c) \<and>
    m_DohResolvers c = [''https://1.2.3.4:8443/q''] \<and> config_inv sample_config_env c \<and>
    snd (config_step sample_config_env (Set_DohTimeoutMs 99) c) = c"
proof -
  let ?c = "Config_default (ce_json sample_config_env) \<lparr>m_DohResolvers := [''https://1.2.3.4:8443/q'']\<rparr>"
  have "filter (resolver_accepted sample_config_env) [''http://1.2.3.4/'', ''https://1.2.3.4:8443/q'', ''https://host/''] =
      [''https://1.2.3.4:8443/q'']" by code_simp
  then have step: "config_step sample_config_env (Set_DohResolvers [''http://1.2.3.4/'', ''https://1.2.3.4:8443/q'', ''https://host/''])
      (Config_default (ce_json sample_config_env)) = (0, ?c)" by (simp add: Config_DohResolvers_def)
  have r: "config_reachable sample_config_env ?c" by (rule config_reachable.call [OF config_reachable.start step])
  have "fst (config_step sample_config_env (Set_DohTimeoutMs 99) ?c) \<noteq> 0"
    by (simp add: Config_DohTimeoutMs_def MIN_DOH_TIMEOUT_MS_def)
  then have "config_inv sample_config_env ?c \<and> snd (config_step sample_config_env (Set_DohTimeoutMs 99) ?c) = ?c"
    using configuration_invariant [OF sample_defaults_ok r] by blast
  then show ?thesis using step by (intro exI [of _ ?c]) simp
qed

text \<open>The positional replacement loop of the user agent template is, token by token, the replacement of the
  occurrences from left to right in which inserted text is not looked at again.\<close>

theorem useragent_expansion: "Config_ProcessUseragentMask env s = expand_masks (s_Masks env) s"
  by (rule ProcessUseragentMask_expand)

text \<open>\<^verbatim>\<open>Initialize\<close> outside of DoH-only mode. It succeeds exactly when the zones of the file, or the built-in ones if
  the file cannot be used or is empty, can be normalised and validated, and then these are the zones of the
  configuration: an invalid file is not replaced by the built-in zones. In DoH-only mode it always succeeds. Either
  way the user agent is not empty afterwards.\<close>

theorem Initialize_zones:
  assumes "\<not> m_Initialized c"
  shows "(m_Initialized (Config_Initialize env p c) \<longleftrightarrow> m_DohOnly c \<or>
      (\<exists>src z. zones_source env p = Some src \<and> configured (ce_json env) (zone_addresses env c) src z)) \<and>
    (\<forall>src z. zones_source env p = Some src \<longrightarrow> configured (ce_json env) (zone_addresses env c) src z \<longrightarrow>
       m_Zones (Config_Initialize env p c) = z) \<and>
    m_Useragent (Config_Initialize env p c) \<noteq> []"
proof -
  obtain ua path where ua: "ua \<noteq> []" and "Config_Initialize env p c = initialize_spec env p ua path c"
    by (rule Initialize_result)
  then show ?thesis
    using assms unfolding initialize_spec_def Let_def
    by (auto simp flip: zones_result_configured split: option.splits)
qed

theorem Initialize_zones_witness:
  "m_Initialized (Config_Initialize sample_config_env ''none.json'' (Config_default (ce_json sample_config_env))) \<and>
   \<not> m_Initialized (Config_Initialize sample_config_env ''bad.json'' (Config_default (ce_json sample_config_env)))"
proof -
  let ?c = "Config_default (ce_json sample_config_env)"
  have c: "\<not> m_Initialized ?c" "\<not> m_DohOnly ?c" by (simp_all add: Config_default_def)
  have 1: "zones_source sample_config_env ''none.json'' = Some sample_file"
    "zones_result sample_config_env ?c sample_file \<noteq> None" by code_simp+
  have 2: "zones_source sample_config_env ''bad.json'' = Some sample_bad_file"
    "zones_result sample_config_env ?c sample_bad_file = None" by code_simp+
  note iff = Initialize_zones [OF c(1), THEN conjunct1, folded zones_result_configured]
  have "m_Initialized (Config_Initialize sample_config_env ''none.json'' ?c)"
    unfolding iff 1(1) using 1(2) by blast
  moreover have "\<not> m_Initialized (Config_Initialize sample_config_env ''bad.json'' ?c)"
    unfolding iff 2(1) using 2(2) c(2) by (metis option.distinct(1) option.inject)
  ultimately show ?thesis ..
qed

end
