(* ===== verification/Main_Entry.thy ===== *)
theory Main_Entry
  imports Config Server
begin

text \<open>
  The two entry points (\<^verbatim>\<open>src/main-pc.cc\<close>, \<^verbatim>\<open>src/main-ps.cc\<close>): reading the settings from the command line or from a
  JSON file, applying them to the configuration before and after \<^verbatim>\<open>Initialize\<close>, and constructing the two servers.
  Printing, the log level itself, signals, and the process control of the console build are not modelled. The result
  of \<^verbatim>\<open>main\<close> is the exit code, or the configurations of the servers that then run.
\<close>

section \<open>Settings\<close>

record options =
  s_LogLevel :: string
  s_DohOnly :: bool
  s_DohResolvers :: "string list"
  s_DohTimeout :: int
  s_UserAgent :: string
  s_CacertPath :: string
  s_ZonesPath :: string
  s_DnsIp :: string
  s_DnsPort :: int
  s_RedirectIpv4 :: string
  s_RedirectIpv6 :: string
  s_Ttl :: int

definition pc_defaults :: options where
  "pc_defaults =
     \<lparr>s_LogLevel = [], s_DohOnly = False, s_DohResolvers = [], s_DohTimeout = -1, s_UserAgent = [], s_CacertPath = [],
      s_ZonesPath = ''./zones.json'', s_DnsIp = [], s_DnsPort = -1, s_RedirectIpv4 = [], s_RedirectIpv6 = [], s_Ttl = -1\<rparr>"

definition ps_defaults :: options where
  "ps_defaults =
     \<lparr>s_LogLevel = [], s_DohOnly = False, s_DohResolvers = [], s_DohTimeout = -1, s_UserAgent = [],
      s_CacertPath = ''/data/chukei/cacert.pem'', s_ZonesPath = ''/data/chukei/zones.json'', s_DnsIp = [],
      s_DnsPort = -1, s_RedirectIpv4 = [], s_RedirectIpv6 = [], s_Ttl = -1\<rparr>"

text \<open>\<^verbatim>\<open>std::strtol\<close> with base 10 on a 64-bit \<^verbatim>\<open>long\<close>: the value, and what is left of the text.\<close>

definition strtol :: "string \<Rightarrow> int \<times> string" where
  "strtol str =
     (let (negative, s) = strip_sign (dropWhile isspace str);
          digits = takeWhile isdigit s;
          v = (if negative then - int (digits_value 10 digits) else int (digits_value 10 digits))
      in if digits = [] then (0, str) else (max (- (2 ^ 63)) (min (2 ^ 63 - 1) v), drop (length digits) s))"

text \<open>\<^verbatim>\<open>s_End == argv[l_Arg]\<close>: nothing was read. The number must be the whole argument and in the range.\<close>

definition number_argument :: "int \<Rightarrow> int \<Rightarrow> string \<Rightarrow> int option" where
  "number_argument lo hi arg =
     (let (s_Val, s_End) = strtol arg
      in if length s_End = length arg \<or> s_End \<noteq> [] \<or> s_Val < lo \<or> s_Val > hi then None else Some s_Val)"

text \<open>The loop over the arguments; \<open>Inl\<close> is an exit code.\<close>

fun parse_arguments :: "string list \<Rightarrow> options \<Rightarrow> int + options" where
  "parse_arguments [] opts = Inr opts"
| "parse_arguments (arg # rest) opts =
     (if arg = ''--log-level'' then
        (case rest of [] \<Rightarrow> Inl 1 | v # rest \<Rightarrow> parse_arguments rest (opts\<lparr>s_LogLevel := v\<rparr>))
      else if arg = ''--doh-only'' then parse_arguments rest (opts\<lparr>s_DohOnly := True\<rparr>)
      else if arg = ''--doh-resolver'' then
        (case rest of [] \<Rightarrow> Inl 1 | v # rest \<Rightarrow> parse_arguments rest (opts\<lparr>s_DohResolvers := s_DohResolvers opts @ [v]\<rparr>))
      else if arg = ''--doh-timeout'' then
        (case rest of [] \<Rightarrow> Inl 1
         | v # rest \<Rightarrow> (case number_argument MIN_DOH_TIMEOUT_MS MAX_DOH_TIMEOUT_MS v of
             None \<Rightarrow> Inl 1 | Some s_Val \<Rightarrow> parse_arguments rest (opts\<lparr>s_DohTimeout := s_Val\<rparr>)))
      else if arg = ''--user-agent'' then
        (case rest of [] \<Rightarrow> Inl 1 | v # rest \<Rightarrow> parse_arguments rest (opts\<lparr>s_UserAgent := v\<rparr>))
      else if arg = ''--cacert'' then
        (case rest of [] \<Rightarrow> Inl 1 | v # rest \<Rightarrow> parse_arguments rest (opts\<lparr>s_CacertPath := v\<rparr>))
      else if arg = ''--zones'' then
        (case rest of [] \<Rightarrow> Inl 1 | v # rest \<Rightarrow> parse_arguments rest (opts\<lparr>s_ZonesPath := v\<rparr>))
      else if arg = ''--dns-ip'' then
        (case rest of [] \<Rightarrow> Inl 1 | v # rest \<Rightarrow> parse_arguments rest (opts\<lparr>s_DnsIp := v\<rparr>))
      else if arg = ''--dns-port'' then
        (case rest of [] \<Rightarrow> Inl 1
         | v # rest \<Rightarrow> (case number_argument (uint MIN_DNS_PORT) (uint MAX_DNS_PORT) v of
             None \<Rightarrow> Inl 1 | Some s_Val \<Rightarrow> parse_arguments rest (opts\<lparr>s_DnsPort := s_Val\<rparr>)))
      else if arg = ''--redirect-ipv4'' then
        (case rest of [] \<Rightarrow> Inl 1 | v # rest \<Rightarrow> parse_arguments rest (opts\<lparr>s_RedirectIpv4 := v\<rparr>))
      else if arg = ''--redirect-ipv6'' then
        (case rest of [] \<Rightarrow> Inl 1 | v # rest \<Rightarrow> parse_arguments rest (opts\<lparr>s_RedirectIpv6 := v\<rparr>))
      else if arg = ''--ttl'' then
        (case rest of [] \<Rightarrow> Inl 1
         | v # rest \<Rightarrow> (case number_argument MIN_TTL MAX_TTL v of
             None \<Rightarrow> Inl 1 | Some s_Val \<Rightarrow> parse_arguments rest (opts\<lparr>s_Ttl := s_Val\<rparr>)))
      else if arg = ''--help'' then Inl 0
      else Inl 1)"

declare parse_arguments.simps(2) [simp del]

text \<open>\<open>log_levels\<close> are the levels that are known.\<close>

definition log_levels :: "string list" where
  "log_levels = [''none'', ''fatal'', ''error'', ''warn'', ''info'', ''debug'', ''trace'', ''all'']"

text \<open>The settings of the file \<^verbatim>\<open>/data/chukei/config.json\<close>; a value of another type than the expected one is ignored.
  \<open>json_string\<close> and \<open>json_bool\<close> give a value exactly if \<^verbatim>\<open>is_string\<close> and \<^verbatim>\<open>is_boolean\<close> hold.\<close>

definition string_setting :: "'j json \<Rightarrow> 'j \<Rightarrow> string \<Rightarrow> string \<Rightarrow> string" where
  "string_setting js s_Json key old =
     (if json_contains js s_Json key \<and> json_is_string js (json_at js s_Json key)
      then (case json_string js (json_at js s_Json key) of Some s \<Rightarrow> s | None \<Rightarrow> old) else old)"

text \<open>\<^verbatim>\<open>get<int>()\<close> converts the stored 64 bit number to 32 bits, keeping the lower ones.\<close>

definition integer_setting :: "'j json \<Rightarrow> 'j \<Rightarrow> string \<Rightarrow> int \<Rightarrow> int" where
  "integer_setting js s_Json key old =
     (if json_contains js s_Json key \<and> json_is_integer js (json_at js s_Json key)
      then (case json_int js (json_at js s_Json key) of Some n \<Rightarrow> sint (word_of_int n :: 32 word) | None \<Rightarrow> old)
      else old)"

definition json_settings :: "'j json \<Rightarrow> 'j \<Rightarrow> options \<Rightarrow> options" where
  "json_settings js s_Json opts =
     opts\<lparr>s_LogLevel := string_setting js s_Json ''log_level'' (s_LogLevel opts),
       s_DohOnly := (if json_contains js s_Json ''doh_only''
         then (case json_bool js (json_at js s_Json ''doh_only'') of Some b \<Rightarrow> b | None \<Rightarrow> s_DohOnly opts) else s_DohOnly opts),
       s_DohResolvers := (if json_contains js s_Json ''doh_resolvers'' \<and> json_is_array js (json_at js s_Json ''doh_resolvers'')
         then s_DohResolvers opts @
           List.map_filter (\<lambda>s_Entry. if json_is_string js s_Entry then json_string js s_Entry else None)
             (json_elements js (json_at js s_Json ''doh_resolvers''))
         else s_DohResolvers opts),
       s_DohTimeout := integer_setting js s_Json ''doh_timeout_ms'' (s_DohTimeout opts),
       s_UserAgent := string_setting js s_Json ''user_agent'' (s_UserAgent opts),
       s_CacertPath := string_setting js s_Json ''cacert_path'' (s_CacertPath opts),
       s_ZonesPath := string_setting js s_Json ''zones_path'' (s_ZonesPath opts),
       s_DnsIp := string_setting js s_Json ''dns_ip'' (s_DnsIp opts),
       s_DnsPort := integer_setting js s_Json ''dns_port'' (s_DnsPort opts),
       s_RedirectIpv4 := string_setting js s_Json ''redirect_ipv4'' (s_RedirectIpv4 opts),
       s_RedirectIpv6 := string_setting js s_Json ''redirect_ipv6'' (s_RedirectIpv6 opts),
       s_Ttl := integer_setting js s_Json ''ttl'' (s_Ttl opts)\<rparr>"

definition load_settings :: "'j config_env \<Rightarrow> options" where
  "load_settings env =
     (case ce_files env ''/data/chukei/config.json'' of
        Readable s_ConfigFile \<Rightarrow>
          (case json_parse (ce_json env) s_ConfigFile of
             Some s_Json \<Rightarrow> json_settings (ce_json env) s_Json ps_defaults
           | None \<Rightarrow> ps_defaults)
      | _ \<Rightarrow> ps_defaults)"

section \<open>Applying the settings\<close>

text \<open>A setter whose failure ends the program, if its setting was given.\<close>

definition apply_if :: "bool \<Rightarrow> ('j Config \<Rightarrow> int \<times> 'j Config) \<Rightarrow> 'j Config option \<Rightarrow> 'j Config option" where
  "apply_if given setter c =
     (case c of None \<Rightarrow> None
      | Some c \<Rightarrow> if given then (case setter c of (ret, c) \<Rightarrow> if ret \<noteq> 0 then None else Some c) else Some c)"

definition pre_settings :: "'j config_env \<Rightarrow> options \<Rightarrow> 'j Config \<Rightarrow> 'j Config option" where
  "pre_settings env opts c =
     apply_if (s_Ttl opts \<ge> 0) (Config_DefaultTtl (s_Ttl opts))
       (apply_if (s_RedirectIpv6 opts \<noteq> []) (Config_RedirectIpv6 env (s_RedirectIpv6 opts))
         (apply_if (s_RedirectIpv4 opts \<noteq> []) (Config_RedirectIpv4 env (s_RedirectIpv4 opts)) (Some c)))"

definition post_settings :: "'j config_env \<Rightarrow> options \<Rightarrow> 'j Config \<Rightarrow> 'j Config option" where
  "post_settings env opts c =
     apply_if (s_DnsPort opts \<ge> 0) (Config_DnsPort (word_of_int (s_DnsPort opts)))
       (apply_if (s_DnsIp opts \<noteq> []) (Config_DnsIpAddress env (s_DnsIp opts))
         (apply_if (s_UserAgent opts \<noteq> []) (Config_Useragent env (s_UserAgent opts))
           (apply_if (s_DohTimeout opts \<ge> 0) (Config_DohTimeoutMs (s_DohTimeout opts))
             (apply_if (s_DohResolvers opts \<noteq> []) (Config_DohResolvers env (s_DohResolvers opts)) (Some c)))))"

text \<open>The configuration that the settings lead to, if it is usable. The result of \<^verbatim>\<open>CacertPath\<close> is ignored; the
  command line calls it only if a path was given.\<close>

definition configure :: "'j config_env \<Rightarrow> bool \<Rightarrow> options \<Rightarrow> 'j Config option" where
  "configure env set_cacert opts =
     (let c = snd (Config_DohOnly (s_DohOnly opts) (Config_default (ce_json env)));
          c = (if set_cacert then snd (Config_CacertPath env (s_CacertPath opts) c) else c)
      in case pre_settings env opts c of None \<Rightarrow> None
         | Some c \<Rightarrow>
             (case post_settings env opts (Config_Initialize env (s_ZonesPath opts) c) of None \<Rightarrow> None
              | Some c \<Rightarrow> if m_Initialized c then Some c else None))"

section \<open>Starting the servers\<close>

text \<open>What constructing a server depends on: whether the socket can be opened and bound, whether libcurl can be
  initialised, and which files can be read.\<close>

record ('r, 'w) system =
  sys_engine :: "'r regex_engine"
  sys_doh :: "'w doh_env"
  sys_bind :: "string \<Rightarrow> u16 \<Rightarrow> bool"
  sys_curl :: "bool \<times> bool"
  sys_readable :: "string \<Rightarrow> bool"

definition server_ctor ::
  "'j config_env \<Rightarrow> ('r, 'w) system \<Rightarrow> 'j Config \<Rightarrow> cpp_error + ('j, 'r, 'w) server_config" where
  "server_ctor env sys c =
     (if \<not> sys_bind sys (m_DnsIpAddress c) (m_DnsPort c) then Inl (Runtime_error ''bind'')
      else case DnsOverHttps_ctor (sys_curl sys) (sys_readable sys) (m_Useragent c) (m_DohResolvers c) (m_CacertPath c)
             (m_DohTimeoutMs c) of
        Inl e \<Rightarrow> Inl e
      | Inr d \<Rightarrow>
          Inr \<lparr>cfg_json = ce_json env, cfg_engine = sys_engine sys, cfg_env = sys_doh sys,
               cfg_DefaultTtl = m_DefaultTtl c, cfg_Zones = m_Zones c, cfg_DohOnly = m_DohOnly c, cfg_Doh = d\<rparr>)"

definition initial_state :: "'w \<Rightarrow> ('r, 'w) server_state" where
  "initial_state w = \<lparr>m_DnsCache = DnsCache_ctor 1024, m_RegexCache = [], srv_world = w\<rparr>"

datatype 'a outcome = Exit int | Serve 'a

definition start ::
  "'j config_env \<Rightarrow> ('r, 'w) system \<Rightarrow> 'j Config option \<Rightarrow> (('j, 'r, 'w) server_config \<times> ('j, 'r, 'w) server_config) outcome" where
  "start env sys c =
     (case c of None \<Rightarrow> Exit 1
      | Some c \<Rightarrow>
          (case server_ctor env sys c of Inl e \<Rightarrow> Exit 1
           | Inr udp \<Rightarrow> (case server_ctor env sys c of Inl e \<Rightarrow> Exit 1 | Inr tcp \<Rightarrow> Serve (udp, tcp))))"

definition main_pc ::
  "'j config_env \<Rightarrow> ('r, 'w) system \<Rightarrow> string list \<Rightarrow> (('j, 'r, 'w) server_config \<times> ('j, 'r, 'w) server_config) outcome" where
  "main_pc env sys args =
     (case parse_arguments args pc_defaults of
        Inl code \<Rightarrow> Exit code
      | Inr opts \<Rightarrow> if s_LogLevel opts \<noteq> [] \<and> s_LogLevel opts \<notin> set log_levels then Exit 1
                 else start env sys (configure env (s_CacertPath opts \<noteq> []) opts))"

definition main_ps ::
  "'j config_env \<Rightarrow> ('r, 'w) system \<Rightarrow> (('j, 'r, 'w) server_config \<times> ('j, 'r, 'w) server_config) outcome" where
  "main_ps env sys = start env sys (configure env True (load_settings env))"

section \<open>Lemmas: numbers and arguments\<close>

text \<open>A number in decimal digits is accepted if it is in the range.\<close>

lemma number_argument_digits:
  assumes "lo \<le> int n" and "int n \<le> hi" and "n < 2 ^ 63"
  shows "number_argument lo hi (to_digits 10 n) = Some (int n)"
proof -
  have dig: "isdigit c \<and> \<not> isspace c \<and> c \<noteq> CHR ''-'' \<and> c \<noteq> CHR ''+''" if c: "c \<in> set (to_digits 10 n)" for c
  proof -
    obtain d where d: "d < 10" "c = digit_char d" using to_digits_digits [of 10 c n] c by fastforce
    then show ?thesis using digit_char_plain [of d] by (auto simp: digit_char_def isdigit_def)
  qed
  then have take: "takeWhile isdigit (to_digits 10 n) = to_digits 10 n" by (simp add: takeWhile_eq_all_conv)
  obtain c cs where s: "to_digits 10 n = c # cs" by (cases "to_digits 10 n") simp_all
  have "dropWhile isspace (to_digits 10 n) = to_digits 10 n" "strip_sign (to_digits 10 n) = (False, to_digits 10 n)"
    using dig [of c] by (simp_all add: s strip_sign_def)
  then have "strtol (to_digits 10 n) = (int n, [])"
    using assms(3) by (simp add: strtol_def take digits_value_to_digits)
  then show ?thesis using assms(1,2) by (simp add: number_argument_def s)
qed

text \<open>The grammar of command lines: a sequence of options, each with what it does to the settings.\<close>

datatype option_name =
    Log_level | Doh_resolver | Doh_timeout | User_agent | Cacert | Zones_path | Dns_ip | Dns_port | Redirect_ipv4
  | Redirect_ipv6 | Default_ttl

datatype argument = Doh_only | With option_name string

primrec option_text :: "option_name \<Rightarrow> string" where
  "option_text Log_level = ''--log-level''"
| "option_text Doh_resolver = ''--doh-resolver''"
| "option_text Doh_timeout = ''--doh-timeout''"
| "option_text User_agent = ''--user-agent''"
| "option_text Cacert = ''--cacert''"
| "option_text Zones_path = ''--zones''"
| "option_text Dns_ip = ''--dns-ip''"
| "option_text Dns_port = ''--dns-port''"
| "option_text Redirect_ipv4 = ''--redirect-ipv4''"
| "option_text Redirect_ipv6 = ''--redirect-ipv6''"
| "option_text Default_ttl = ''--ttl''"

primrec option_effect :: "option_name \<Rightarrow> string \<Rightarrow> options \<Rightarrow> options option" where
  "option_effect Log_level v opts = Some (opts\<lparr>s_LogLevel := v\<rparr>)"
| "option_effect Doh_resolver v opts = Some (opts\<lparr>s_DohResolvers := s_DohResolvers opts @ [v]\<rparr>)"
| "option_effect Doh_timeout v opts = map_option (\<lambda>n. opts\<lparr>s_DohTimeout := n\<rparr>) (number_argument 100 60000 v)"
| "option_effect User_agent v opts = Some (opts\<lparr>s_UserAgent := v\<rparr>)"
| "option_effect Cacert v opts = Some (opts\<lparr>s_CacertPath := v\<rparr>)"
| "option_effect Zones_path v opts = Some (opts\<lparr>s_ZonesPath := v\<rparr>)"
| "option_effect Dns_ip v opts = Some (opts\<lparr>s_DnsIp := v\<rparr>)"
| "option_effect Dns_port v opts = map_option (\<lambda>n. opts\<lparr>s_DnsPort := n\<rparr>) (number_argument 1 65535 v)"
| "option_effect Redirect_ipv4 v opts = Some (opts\<lparr>s_RedirectIpv4 := v\<rparr>)"
| "option_effect Redirect_ipv6 v opts = Some (opts\<lparr>s_RedirectIpv6 := v\<rparr>)"
| "option_effect Default_ttl v opts = map_option (\<lambda>n. opts\<lparr>s_Ttl := n\<rparr>) (number_argument 0 604800 v)"

primrec argument_text :: "argument \<Rightarrow> string list" where
  "argument_text Doh_only = [''--doh-only'']"
| "argument_text (With name v) = [option_text name, v]"

primrec argument_effects :: "argument list \<Rightarrow> options \<Rightarrow> options option" where
  "argument_effects [] opts = Some opts"
| "argument_effects (a # rest) opts =
     (case a of
        Doh_only \<Rightarrow> argument_effects rest (opts\<lparr>s_DohOnly := True\<rparr>)
      | With name v \<Rightarrow> Option.bind (option_effect name v opts) (argument_effects rest))"

lemma parse_With:
  "parse_arguments (option_text name # v # rest) opts =
     (case option_effect name v opts of None \<Rightarrow> Inl 1 | Some opts \<Rightarrow> parse_arguments rest opts)"
  by (cases name) (simp_all add: parse_arguments.simps(2) config_limits split: option.split)

lemma parse_other:
  assumes "parse_arguments (arg # rest) opts = Inr opts'" and "arg \<noteq> ''--doh-only''"
  shows "\<exists>name v rest'. arg = option_text name \<and> rest = v # rest'"
proof -
  have "arg \<in> option_text ` UNIV"
    using assms by (simp add: parse_arguments.simps(2) image_iff split: if_splits) (metis option_text.simps)+
  then obtain name where "arg = option_text name" by blast
  moreover have "parse_arguments [option_text name] opts = Inl 1" for name opts
    by (cases name) (simp_all add: parse_arguments.simps(2))
  ultimately show ?thesis using assms(1) by (cases rest) auto
qed

lemma parse_doh_only: "parse_arguments (''--doh-only'' # rest) opts = parse_arguments rest (opts\<lparr>s_DohOnly := True\<rparr>)"
  by (simp add: parse_arguments.simps(2))

lemma parse_arguments_grammar:
  "parse_arguments args opts = Inr opts' \<longleftrightarrow>
     (\<exists>items. args = concat (map argument_text items) \<and> argument_effects items opts = Some opts')"
proof
  show "parse_arguments args opts = Inr opts' \<Longrightarrow>
    \<exists>items. args = concat (map argument_text items) \<and> argument_effects items opts = Some opts'"
  proof (induction "length args" arbitrary: args opts rule: less_induct)
    case less
    show ?case
    proof (cases args)
      case Nil
      then show ?thesis using less.prems by (intro exI [of _ "[]"]) simp
    next
      case (Cons arg rest)
      show ?thesis
      proof (cases "arg = ''--doh-only''")
        case True
        then obtain items where "rest = concat (map argument_text items)"
          "argument_effects items (opts\<lparr>s_DohOnly := True\<rparr>) = Some opts'"
          using less Cons by (auto simp: parse_doh_only)
        then show ?thesis using True Cons by (intro exI [of _ "Doh_only # items"]) simp
      next
        case False
        then obtain name v rest' where a: "arg = option_text name" "rest = v # rest'"
          using parse_other [of arg rest opts opts'] less.prems Cons by auto
        then obtain opts1 where o: "option_effect name v opts = Some opts1" "parse_arguments rest' opts1 = Inr opts'"
          using less.prems Cons by (auto simp: parse_With split: option.splits)
        then obtain items where "rest' = concat (map argument_text items)" "argument_effects items opts1 = Some opts'"
          using less.hyps [of rest' opts1] Cons a by auto
        then show ?thesis using Cons a o by (intro exI [of _ "With name v # items"]) simp
      qed
    qed
  qed
next
  assume "\<exists>items. args = concat (map argument_text items) \<and> argument_effects items opts = Some opts'"
  then obtain items where "args = concat (map argument_text items)" "argument_effects items opts = Some opts'" by blast
  then show "parse_arguments args opts = Inr opts'"
  proof (induction items arbitrary: args opts)
    case (Cons a items)
    then show ?case
      by (cases a) (auto simp: parse_doh_only parse_With bind_eq_Some_conv)
  qed simp
qed

section \<open>Lemmas: applying the settings\<close>

lemma apply_if_None [simp]: "apply_if given setter None = None"
  by (simp add: apply_if_def)

lemma apply_if_chain:
  "x = (if P then Some c else None) \<Longrightarrow> apply_if given setter (Some c) = (if Q then Some c' else None) \<Longrightarrow>
    apply_if given setter x = (if P \<and> Q then Some c' else None)"
  by simp

text \<open>What each setting that can end the program requires, and what it does.\<close>

definition address4 :: "'j config_env \<Rightarrow> string \<Rightarrow> bool" where
  "address4 env a \<longleftrightarrow> length a \<le> 15 \<and> ce_pton4 env (c_str a) \<noteq> None"

definition address6 :: "'j config_env \<Rightarrow> string \<Rightarrow> bool" where
  "address6 env a \<longleftrightarrow> length a \<le> 45 \<and> ce_pton6 env (c_str a) \<noteq> None"

definition port_of :: "int \<Rightarrow> u16" where
  "port_of n = word_of_int n"

lemma apply_settings:
  "apply_if (a4 \<noteq> []) (Config_RedirectIpv4 env a4) (Some c) =
     (if a4 \<noteq> [] \<longrightarrow> address4 env a4 then Some (c\<lparr>m_RedirectIpv4 := if a4 \<noteq> [] then a4 else m_RedirectIpv4 c\<rparr>) else None)"
  "apply_if (a6 \<noteq> []) (Config_RedirectIpv6 env a6) (Some c) =
     (if a6 \<noteq> [] \<longrightarrow> address6 env a6 then Some (c\<lparr>m_RedirectIpv6 := if a6 \<noteq> [] then a6 else m_RedirectIpv6 c\<rparr>) else None)"
  "apply_if (0 \<le> ttl) (Config_DefaultTtl ttl) (Some c) =
     (if ttl \<le> 604800 then Some (c\<lparr>m_DefaultTtl := if 0 \<le> ttl then ttl else m_DefaultTtl c\<rparr>) else None)"
  "apply_if (rs \<noteq> []) (Config_DohResolvers env rs) (Some c) =
     (if rs \<noteq> [] \<longrightarrow> filter (resolver_accepted env) rs \<noteq> []
      then Some (c\<lparr>m_DohResolvers := if rs \<noteq> [] then filter (resolver_accepted env) rs else m_DohResolvers c\<rparr>) else None)"
  "apply_if (0 \<le> ms) (Config_DohTimeoutMs ms) (Some c) =
     (if 0 \<le> ms \<longrightarrow> ms \<in> {100..60000} then Some (c\<lparr>m_DohTimeoutMs := if 0 \<le> ms then ms else m_DohTimeoutMs c\<rparr>) else None)"
  "apply_if (ua \<noteq> []) (Config_Useragent env ua) (Some c) =
     (if ua \<noteq> [] \<longrightarrow> expand_masks (s_Masks env) ua \<noteq> []
      then Some (c\<lparr>m_Useragent := if ua \<noteq> [] then expand_masks (s_Masks env) ua else m_Useragent c\<rparr>) else None)"
  "apply_if (ip \<noteq> []) (Config_DnsIpAddress env ip) (Some c) =
     (if ip \<noteq> [] \<longrightarrow> \<not> (ce_pton4 env (c_str ip) = None \<and> ce_pton6 env (c_str ip) = None)
      then Some (c\<lparr>m_DnsIpAddress := if ip \<noteq> [] then ip else m_DnsIpAddress c\<rparr>) else None)"
  "apply_if (0 \<le> port) (Config_DnsPort (word_of_int port)) (Some c) =
     (if 0 \<le> port \<longrightarrow> port_of port \<noteq> 0
      then Some (c\<lparr>m_DnsPort := if 0 \<le> port then port_of port else m_DnsPort c\<rparr>) else None)"
proof -
  have max: "\<not> (65535 :: u16) < p" for p using uint_bounded [of p] by (simp add: not_less word_le_def)
  show "apply_if (0 \<le> port) (Config_DnsPort (word_of_int port)) (Some c) =
     (if 0 \<le> port \<longrightarrow> port_of port \<noteq> 0
      then Some (c\<lparr>m_DnsPort := if 0 \<le> port then port_of port else m_DnsPort c\<rparr>) else None)"
    using max [of "word_of_int port"]
    by (auto simp: apply_if_def Config_DnsPort_def port_of_def MIN_DNS_PORT_def MAX_DNS_PORT_def word_less_1)
qed (auto simp: apply_if_def config_setters config_limits address4_def address6_def MAX_IPV4_STRING_LENGTH_def
    MAX_IPV6_STRING_LENGTH_def ProcessUseragentMask_expand Let_def)

definition pre_valid :: "'j config_env \<Rightarrow> options \<Rightarrow> bool" where
  "pre_valid env opts \<longleftrightarrow> (s_RedirectIpv4 opts \<noteq> [] \<longrightarrow> address4 env (s_RedirectIpv4 opts)) \<and>
     (s_RedirectIpv6 opts \<noteq> [] \<longrightarrow> address6 env (s_RedirectIpv6 opts)) \<and> s_Ttl opts \<le> 604800"

definition post_valid :: "'j config_env \<Rightarrow> options \<Rightarrow> bool" where
  "post_valid env opts \<longleftrightarrow>
     (s_DohResolvers opts \<noteq> [] \<longrightarrow> filter (resolver_accepted env) (s_DohResolvers opts) \<noteq> []) \<and>
     (0 \<le> s_DohTimeout opts \<longrightarrow> s_DohTimeout opts \<in> {100..60000}) \<and>
     (s_UserAgent opts \<noteq> [] \<longrightarrow> expand_masks (s_Masks env) (s_UserAgent opts) \<noteq> []) \<and>
     (s_DnsIp opts \<noteq> [] \<longrightarrow> \<not> (ce_pton4 env (c_str (s_DnsIp opts)) = None \<and> ce_pton6 env (c_str (s_DnsIp opts)) = None)) \<and>
     (0 \<le> s_DnsPort opts \<longrightarrow> port_of (s_DnsPort opts) \<noteq> 0)"

definition pre_result :: "options \<Rightarrow> 'j Config \<Rightarrow> 'j Config" where
  "pre_result opts c =
     c\<lparr>m_RedirectIpv4 := if s_RedirectIpv4 opts \<noteq> [] then s_RedirectIpv4 opts else m_RedirectIpv4 c,
       m_RedirectIpv6 := if s_RedirectIpv6 opts \<noteq> [] then s_RedirectIpv6 opts else m_RedirectIpv6 c,
       m_DefaultTtl := if 0 \<le> s_Ttl opts then s_Ttl opts else m_DefaultTtl c\<rparr>"

definition post_result :: "'j config_env \<Rightarrow> options \<Rightarrow> 'j Config \<Rightarrow> 'j Config" where
  "post_result env opts c =
     c\<lparr>m_DohResolvers := if s_DohResolvers opts \<noteq> [] then filter (resolver_accepted env) (s_DohResolvers opts) else m_DohResolvers c,
       m_DohTimeoutMs := if 0 \<le> s_DohTimeout opts then s_DohTimeout opts else m_DohTimeoutMs c,
       m_Useragent := if s_UserAgent opts \<noteq> [] then expand_masks (s_Masks env) (s_UserAgent opts) else m_Useragent c,
       m_DnsIpAddress := if s_DnsIp opts \<noteq> [] then s_DnsIp opts else m_DnsIpAddress c,
       m_DnsPort := if 0 \<le> s_DnsPort opts then port_of (s_DnsPort opts) else m_DnsPort c\<rparr>"

lemma pre_settings_eq:
  "pre_settings env opts c = (if pre_valid env opts then Some (pre_result opts c) else None)"
proof -
  note chain = apply_if_chain [OF apply_if_chain [OF apply_settings(1) apply_settings(2)] apply_settings(3)]
  show ?thesis
    unfolding pre_settings_def chain pre_valid_def pre_result_def conj_assoc by (rule if_cong) simp_all
qed

lemma post_settings_eq:
  "post_settings env opts c = (if post_valid env opts then Some (post_result env opts c) else None)"
proof -
  note chain = apply_if_chain [OF apply_if_chain [OF apply_if_chain [OF apply_if_chain
    [OF apply_settings(4) apply_settings(5)] apply_settings(6)] apply_settings(7)] apply_settings(8)]
  show ?thesis
    unfolding post_settings_def chain post_valid_def post_result_def conj_assoc by (rule if_cong) simp_all
qed

text \<open>The zones that the settings choose, and the redirect addresses that they are made with.\<close>

definition usable_zones :: "'j config_env \<Rightarrow> options \<Rightarrow> 'j \<Rightarrow> bool" where
  "usable_zones env opts z \<longleftrightarrow>
     (\<exists>src. zones_source env (s_ZonesPath opts) = Some src \<and>
        configured (ce_json env)
          \<lparr>pton4 = ce_pton4 env, pton6 = ce_pton6 env,
           redirect4 = if s_RedirectIpv4 opts \<noteq> [] then s_RedirectIpv4 opts else ''127.0.0.1'',
           redirect6 = if s_RedirectIpv6 opts \<noteq> [] then s_RedirectIpv6 opts else ''::1''\<rparr> src z)"

definition first_config :: "'j config_env \<Rightarrow> bool \<Rightarrow> options \<Rightarrow> 'j Config" where
  "first_config env set_cacert opts =
     (let c = snd (Config_DohOnly (s_DohOnly opts) (Config_default (ce_json env)))
      in if set_cacert then snd (Config_CacertPath env (s_CacertPath opts) c) else c)"

lemma first_config_fields:
  "first_config env set_cacert opts = (Config_default (ce_json env))
     \<lparr>m_DohOnly := s_DohOnly opts,
      m_CacertPath := if set_cacert \<and> s_CacertPath opts \<noteq> [] \<and> regular_file env (s_CacertPath opts)
        then s_CacertPath opts else []\<rparr>"
  by (auto simp: first_config_def Config_DohOnly_def Config_CacertPath_def Config_default_def Let_def)

lemma configure_first:
  "configure env set_cacert opts =
     (case pre_settings env opts (first_config env set_cacert opts) of None \<Rightarrow> None
      | Some c \<Rightarrow>
          (case post_settings env opts (Config_Initialize env (s_ZonesPath opts) c) of None \<Rightarrow> None
           | Some c \<Rightarrow> if m_Initialized c then Some c else None))"
  by (simp add: configure_def first_config_def Let_def)

text \<open>The result as one record; the user agent without a setting, the path and the zones are those of
  \<open>initialize_spec\<close>.\<close>

lemma configure_eq:
  obtains ua path where "ua \<noteq> []" and "configure env set_cacert opts =
    (let c = initialize_spec env (s_ZonesPath opts) ua path (pre_result opts (first_config env set_cacert opts))
     in if pre_valid env opts \<and> post_valid env opts \<and> m_Initialized c then Some (post_result env opts c) else None)"
proof -
  let ?c = "pre_result opts (first_config env set_cacert opts)"
  obtain ua path where ua: "ua \<noteq> []" "Config_Initialize env (s_ZonesPath opts) ?c = initialize_spec env (s_ZonesPath opts) ua path ?c"
    by (rule Initialize_result)
  have "m_Initialized (post_result env opts c) = m_Initialized c" for c by (simp add: post_result_def)
  then have "configure env set_cacert opts =
    (let c = initialize_spec env (s_ZonesPath opts) ua path ?c
     in if pre_valid env opts \<and> post_valid env opts \<and> m_Initialized c then Some (post_result env opts c) else None)"
    using ua(2) by (simp add: configure_first pre_settings_eq post_settings_eq Let_def)
  then show thesis by (rule that [OF ua(1)])
qed

lemma initialize_spec_fields:
  "m_DnsIpAddress (initialize_spec env p ua path c) = m_DnsIpAddress c"
  "m_DnsPort (initialize_spec env p ua path c) = m_DnsPort c"
  "m_DohResolvers (initialize_spec env p ua path c) = m_DohResolvers c"
  "m_Useragent (initialize_spec env p ua path c) = ua"
  "m_DohOnly (initialize_spec env p ua path c) = m_DohOnly c"
  "m_RedirectIpv4 (initialize_spec env p ua path c) = m_RedirectIpv4 c"
  "m_RedirectIpv6 (initialize_spec env p ua path c) = m_RedirectIpv6 c"
  "m_DefaultTtl (initialize_spec env p ua path c) = m_DefaultTtl c"
  "m_CacertPath (initialize_spec env p ua path c) = m_CacertPath c"
  "m_DohTimeoutMs (initialize_spec env p ua path c) = m_DohTimeoutMs c"
  by (simp_all add: initialize_spec_def Let_def split: option.split)

lemma chosen_zones:
  fixes env :: "'j config_env" and set_cacert opts defines "c \<equiv> pre_result opts (first_config env set_cacert opts)"
  shows "Option.bind (zones_source env (s_ZonesPath opts)) (zones_result env c) = Some z \<longleftrightarrow> usable_zones env opts z"
  by (auto simp: usable_zones_def zones_result_configured zone_addresses_def bind_eq_Some_conv c_def pre_result_def
      first_config_fields Config_default_def)

lemma chosen_initialized:
  fixes env :: "'j config_env" and set_cacert opts defines "c \<equiv> pre_result opts (first_config env set_cacert opts)"
  shows "m_Initialized (initialize_spec env (s_ZonesPath opts) ua path c) \<longleftrightarrow>
      s_DohOnly opts \<or> (\<exists>z. usable_zones env opts z)"
    and "usable_zones env opts z \<Longrightarrow> m_Zones (initialize_spec env (s_ZonesPath opts) ua path c) = z"
proof -
  have c: "\<not> m_Initialized c" "m_DohOnly c = s_DohOnly opts"
    by (simp_all add: c_def pre_result_def first_config_fields Config_default_def)
  note zones = chosen_zones [of env opts set_cacert, folded c_def]
  show "m_Initialized (initialize_spec env (s_ZonesPath opts) ua path c) \<longleftrightarrow>
      s_DohOnly opts \<or> (\<exists>z. usable_zones env opts z)"
    using c by (auto simp: initialize_spec_def Let_def simp flip: zones split: option.split)
  show "usable_zones env opts z \<Longrightarrow> m_Zones (initialize_spec env (s_ZonesPath opts) ua path c) = z"
    by (simp add: initialize_spec_def Let_def flip: zones)
qed

text \<open>A configuration that was reached, if there is one, satisfies the invariant.\<close>

definition config_kept :: "'j config_env \<Rightarrow> 'j Config option \<Rightarrow> bool" where
  "config_kept env c = (case c of None \<Rightarrow> True | Some c \<Rightarrow> config_inv env c)"

lemma apply_if_kept:
  assumes "config_kept env c"
  shows "config_kept env (apply_if given (config_step env x) c)"
proof (cases c)
  case (Some c')
  obtain ret c1 where step: "config_step env x c' = (ret, c1)" by force
  then have "config_inv env c1" using assms Some config_step_inv [OF _ step] by (simp add: config_kept_def)
  then show ?thesis using assms Some step by (simp add: config_kept_def apply_if_def)
qed (simp add: config_kept_def)

lemmas apply_setting_kept =
  apply_if_kept [where x = "Set_RedirectIpv4 a" for a, simplified] apply_if_kept [where x = "Set_RedirectIpv6 a" for a, simplified]
  apply_if_kept [where x = "Set_DefaultTtl a" for a, simplified] apply_if_kept [where x = "Set_DohResolvers a" for a, simplified]
  apply_if_kept [where x = "Set_DohTimeoutMs a" for a, simplified] apply_if_kept [where x = "Set_Useragent a" for a, simplified]
  apply_if_kept [where x = "Set_DnsIpAddress a" for a, simplified] apply_if_kept [where x = "Set_DnsPort a" for a, simplified]

lemma configure_inv:
  assumes "defaults_ok env" and "configure env set_cacert opts = Some c"
  shows "config_inv env c"
proof -
  let ?c0 = "first_config env set_cacert opts"
  have step: "config_inv env (snd (config_step env x c'))" if "config_inv env c'" for x c'
    using config_step_inv [OF that, of x "fst (config_step env x c')" "snd (config_step env x c')"] by simp
  have "config_inv env ?c0"
    using config_inv_default [OF assms(1)] step [of _ "Set_DohOnly (s_DohOnly opts)"]
      step [of _ "Set_CacertPath (s_CacertPath opts)"]
    by (simp add: first_config_def Let_def)
  then have "config_kept env (pre_settings env opts ?c0)"
    unfolding pre_settings_def by (intro apply_setting_kept) (simp add: config_kept_def)
  moreover have "config_kept env (post_settings env opts (Config_Initialize env p c'))" if "config_inv env c'" for p c'
    using config_step_inv [OF that, of "Initialize p" 0]
    unfolding post_settings_def by (intro apply_setting_kept) (simp add: config_kept_def)
  ultimately show ?thesis
    using assms(2)
    by (fastforce simp: configure_first config_kept_def split: option.splits if_splits)
qed

lemma DnsOverHttps_ctor_ok:
  assumes "ua \<noteq> []" and "rs \<noteq> []" and "ms \<in> {100..60000}"
  shows "\<exists>d. DnsOverHttps_ctor (True, True) readable ua rs cacert ms = Inr d \<and> doh_Resolvers d = rs \<and>
    doh_Useragent d = ua \<and> doh_TimeoutMs d = ms \<and>
    doh_CacertPath d = (if cacert \<noteq> [] \<and> readable cacert then cacert else [])"
  using assms
  by (auto simp: DnsOverHttps_ctor_def DnsOverHttps_Useragent_def DnsOverHttps_Resolvers_def DnsOverHttps_DohTimeoutMs_def
      DnsOverHttps_CacertPath_def Let_def)

lemma configure_accepts:
  "configure env set_cacert opts \<noteq> None \<longleftrightarrow>
     pre_valid env opts \<and> post_valid env opts \<and> (s_DohOnly opts \<or> (\<exists>z. usable_zones env opts z))"
proof -
  obtain ua path where "configure env set_cacert opts =
    (let c = initialize_spec env (s_ZonesPath opts) ua path (pre_result opts (first_config env set_cacert opts))
     in if pre_valid env opts \<and> post_valid env opts \<and> m_Initialized c then Some (post_result env opts c) else None)"
    by (rule configure_eq)
  then show ?thesis by (simp add: chosen_initialized(1) Let_def)
qed

lemma configure_Some:
  assumes "configure env set_cacert opts = Some c"
  shows "m_DohOnly c = s_DohOnly opts" and "m_Useragent c \<noteq> []" and "usable_zones env opts z \<Longrightarrow> m_Zones c = z"
    and "s_DohOnly opts \<or> (\<exists>z. usable_zones env opts z)"
proof -
  let ?c = "pre_result opts (first_config env set_cacert opts)"
  obtain ua path where ua: "ua \<noteq> []" and "configure env set_cacert opts =
    (let c = initialize_spec env (s_ZonesPath opts) ua path ?c
     in if pre_valid env opts \<and> post_valid env opts \<and> m_Initialized c then Some (post_result env opts c) else None)"
    by (rule configure_eq)
  then have c: "c = post_result env opts (initialize_spec env (s_ZonesPath opts) ua path ?c)" and valid: "post_valid env opts"
    using assms by (auto simp: Let_def split: if_splits)
  show "m_DohOnly c = s_DohOnly opts" "m_Useragent c \<noteq> []"
    using ua valid unfolding c
    by (simp_all add: post_result_def initialize_spec_fields pre_result_def first_config_fields post_valid_def)
  show "m_Zones c = z" if "usable_zones env opts z"
    using chosen_initialized(2) [OF that] by (simp add: c post_result_def)
  show "s_DohOnly opts \<or> (\<exists>z. usable_zones env opts z)"
    using configure_accepts [of env set_cacert opts] assms by simp
qed

text \<open>The servers of a configuration: they are equal, and their client has the settings as they are.\<close>

definition server_of :: "'j config_env \<Rightarrow> ('r, 'w) system \<Rightarrow> 'j Config \<Rightarrow> ('j, 'r, 'w) server_config \<Rightarrow> bool" where
  "server_of env sys c srv \<longleftrightarrow>
     cfg_json srv = ce_json env \<and> cfg_engine srv = sys_engine sys \<and> cfg_env srv = sys_doh sys \<and>
     cfg_DefaultTtl srv = m_DefaultTtl c \<and> cfg_Zones srv = m_Zones c \<and> cfg_DohOnly srv = m_DohOnly c \<and>
     doh_Resolvers (cfg_Doh srv) = m_DohResolvers c \<and> doh_Useragent (cfg_Doh srv) = m_Useragent c \<and>
     doh_TimeoutMs (cfg_Doh srv) = m_DohTimeoutMs c"

lemma server_ctor_ok:
  assumes "config_inv env c" and "m_Useragent c \<noteq> []" and "sys_curl sys = (True, True)"
    and "sys_bind sys (m_DnsIpAddress c) (m_DnsPort c)"
  shows "\<exists>srv. server_ctor env sys c = Inr srv \<and> server_of env sys c srv"
proof -
  obtain d where "DnsOverHttps_ctor (True, True) (sys_readable sys) (m_Useragent c) (m_DohResolvers c) (m_CacertPath c)
      (m_DohTimeoutMs c) = Inr d" "doh_Resolvers d = m_DohResolvers c" "doh_Useragent d = m_Useragent c"
      "doh_TimeoutMs d = m_DohTimeoutMs c"
    using DnsOverHttps_ctor_ok [OF assms(2), of "m_DohResolvers c" "m_DohTimeoutMs c" "sys_readable sys" "m_CacertPath c"]
      assms(1) by (auto simp: config_inv_def)
  then show ?thesis using assms(3,4) by (simp add: server_ctor_def server_of_def)
qed

lemma server_ctor_fails:
  "sys_curl sys \<noteq> (True, True) \<or> \<not> sys_bind sys (m_DnsIpAddress c) (m_DnsPort c) \<Longrightarrow> \<exists>e. server_ctor env sys c = Inl e"
  by (cases "sys_curl sys")
    (auto simp: server_ctor_def DnsOverHttps_ctor_def Let_def split: sum.split if_splits)

lemma started:
  assumes "start env sys (configure env set_cacert opts) = Serve (udp, tcp)" and "defaults_ok env"
  shows "\<exists>c. configure env set_cacert opts = Some c \<and> config_inv env c \<and> server_of env sys c udp \<and> tcp = udp"
proof -
  obtain c where c: "configure env set_cacert opts = Some c" "server_ctor env sys c = Inr udp" "tcp = udp"
    using assms(1) by (auto simp: start_def split: option.splits sum.splits)
  then have inv: "config_inv env c" using configure_inv [OF assms(2)] by blast
  have "sys_curl sys = (True, True)" "sys_bind sys (m_DnsIpAddress c) (m_DnsPort c)"
    using server_ctor_fails [of sys c env] c(2) by auto
  from server_ctor_ok [OF inv configure_Some(2) [OF c(1)] this] show ?thesis using c inv by auto
qed

lemma main_started:
  assumes "main_pc env sys args = Serve (udp, tcp) \<or> main_ps env sys = Serve (udp, tcp)"
  shows "\<exists>set_cacert opts. start env sys (configure env set_cacert opts) = Serve (udp, tcp)"
  using assms by (auto simp: main_pc_def main_ps_def split: sum.splits if_splits)

lemma main_pc_serves:
  assumes "defaults_ok env" and "sys_curl sys = (True, True)" and "\<And>ip port. sys_bind sys ip port"
  shows "(\<exists>servers. main_pc env sys args = Serve servers) \<longleftrightarrow>
    (\<exists>opts. parse_arguments args pc_defaults = Inr opts \<and> (s_LogLevel opts = [] \<or> s_LogLevel opts \<in> set log_levels) \<and>
       pre_valid env opts \<and> post_valid env opts \<and> (s_DohOnly opts \<or> (\<exists>z. usable_zones env opts z)))"
proof -
  have "(\<exists>servers. start env sys (configure env b opts) = Serve servers) \<longleftrightarrow> configure env b opts \<noteq> None" for b opts
  proof (cases "configure env b opts")
    case (Some c)
    then show ?thesis
      using server_ctor_ok [OF configure_inv [OF assms(1) Some] configure_Some(2) [OF Some] assms(2,3)]
      by (auto simp: start_def)
  qed (simp add: start_def)
  then have "(\<exists>servers. start env sys (configure env b opts) = Serve servers) \<longleftrightarrow>
      pre_valid env opts \<and> post_valid env opts \<and> (s_DohOnly opts \<or> (\<exists>z. usable_zones env opts z))" for b opts
    unfolding configure_accepts .
  then show ?thesis
    by (auto simp: main_pc_def simp del: split_paired_Ex split: sum.split)
qed

section \<open>A concrete start\<close>

definition sample_system :: "(string, nat) system" where
  "sample_system = \<lparr>sys_engine = sample_engine, sys_doh = sample_env, sys_bind = (\<lambda>_ _. True), sys_curl = (True, True),
     sys_readable = (\<lambda>_. False)\<rparr>"

lemma sample_config_laws: "json_laws (ce_json sample_config_env)"
  using sample_json_laws by (simp add: json_laws_def sample_config_env_def)

lemma sample_system_ok: "sys_curl sample_system = (True, True)" "sys_bind sample_system ip port"
  by (simp_all add: sample_system_def)

lemma sample_start:
  assumes "usable_zones sample_config_env pc_defaults z"
  shows "\<exists>servers. main_pc sample_config_env sample_system [] = Serve servers"
proof -
  from main_pc_serves [OF sample_defaults_ok sample_system_ok] assms show ?thesis
    by (auto simp: pre_valid_def post_valid_def pc_defaults_def simp del: split_paired_Ex)
qed

text \<open>The zones that the sample starts with, and a check that all of their patterns compile.\<close>

definition keys_compile :: "sample_value \<Rightarrow> bool" where
  "keys_compile zones =
     (case zones of
        S_Object kvs \<Rightarrow> list_all (\<lambda>(root, z). case z of
            S_Object tvs \<Rightarrow> list_all (\<lambda>(t, v). list_all (\<lambda>(k, _). CHR ''['' \<notin> set k) (json_items sample_json v)) tvs
          | _ \<Rightarrow> True) kvs
      | _ \<Rightarrow> True)"

lemma keys_compile_valid:
  assumes "keys_compile zones"
  shows "valid_patterns (ce_json sample_config_env) sample_engine zones"
proof -
  have js: "json_contains (ce_json sample_config_env) = json_contains sample_json"
    "json_at (ce_json sample_config_env) = json_at sample_json" "json_items (ce_json sample_config_env) = json_items sample_json"
    by (simp_all add: sample_config_env_def)
  have at: "(k, json_at sample_json v k) \<in> set kvs" if "v = S_Object kvs" "json_contains sample_json v k" for v k kvs
  proof -
    have "map_of kvs k \<noteq> None" using that unfolding map_of_eq_None_iff by (simp add: sample_json_def)
    then show ?thesis using that(1) by (auto simp: sample_json_def dest: map_of_SomeD)
  qed
  have "CHR ''['' \<notin> set k"
    if r: "json_contains sample_json zones root" and t: "json_contains sample_json (json_at sample_json zones root) t"
      and k: "(k, v) \<in> set (json_items sample_json (json_at sample_json (json_at sample_json zones root) t))" for root t k v
  proof -
    obtain kvs where z: "zones = S_Object kvs" using r by (auto simp: sample_json_def split: sample_value.splits)
    obtain tvs where z': "json_at sample_json zones root = S_Object tvs"
      using t by (cases "json_at sample_json zones root") (simp_all add: sample_json_def)
    have "(root, S_Object tvs) \<in> set kvs" using at [OF z r] z' by simp
    then have "list_all (\<lambda>(t, v). list_all (\<lambda>(k, _). CHR ''['' \<notin> set k) (json_items sample_json v)) tvs"
      using assms z by (force simp: keys_compile_def list_all_iff)
    then show ?thesis using at [OF z' t] k by (force simp: list_all_iff)
  qed
  then show ?thesis by (auto simp: valid_patterns_def valid_items_def js sample_engine_def)
qed

lemma sample_program:
  "\<exists>z servers. usable_zones sample_config_env pc_defaults z \<and> keys_compile z \<and> z \<noteq> S_Object [] \<and>
    main_pc sample_config_env sample_system [] = Serve servers"
proof -
  have src: "zones_source sample_config_env (s_ZonesPath pc_defaults) = Some sample_file" by code_simp
  have "case zones_result sample_config_env (Config_default (ce_json sample_config_env)) sample_file of
      None \<Rightarrow> False | Some z \<Rightarrow> keys_compile z \<and> (case z of S_Object (_ # _) \<Rightarrow> True | _ \<Rightarrow> False)" by code_simp
  then obtain z where "zones_result sample_config_env (Config_default (ce_json sample_config_env)) sample_file = Some z"
    "keys_compile z" "case z of S_Object (_ # _) \<Rightarrow> True | _ \<Rightarrow> False"
    by (auto split: option.splits)
  moreover from this(3) have "z \<noteq> S_Object []" by auto
  moreover from calculation have "usable_zones sample_config_env pc_defaults z"
    using src unfolding zones_result_configured usable_zones_def
    by (simp add: zone_addresses_def Config_default_def pc_defaults_def)
  ultimately show ?thesis using sample_start by blast
qed

section \<open>Properties\<close>


text \<open>C8: each setting that is given reaches the configuration, and the others keep their defaults. The port is
  taken modulo 65536, so that a port of the JSON file outside of the range is not always refused.\<close>

theorem settings_applied:
  assumes "configure env set_cacert opts = Some c"
  shows "m_DohOnly c = s_DohOnly opts \<and> m_Useragent c \<noteq> [] \<and>
    (s_UserAgent opts \<noteq> [] \<longrightarrow> m_Useragent c = expand_masks (s_Masks env) (s_UserAgent opts)) \<and>
    m_DohResolvers c = (if s_DohResolvers opts \<noteq> [] then filter (resolver_accepted env) (s_DohResolvers opts)
      else [''https://1.1.1.1/dns-query'', ''https://1.0.0.1/dns-query'']) \<and>
    m_DohTimeoutMs c = (if 0 \<le> s_DohTimeout opts then s_DohTimeout opts else 15000) \<and>
    m_DnsIpAddress c = (if s_DnsIp opts \<noteq> [] then s_DnsIp opts else ''127.0.0.1'') \<and>
    uint (m_DnsPort c) = (if 0 \<le> s_DnsPort opts then s_DnsPort opts mod 65536 else 53) \<and>
    m_RedirectIpv4 c = (if s_RedirectIpv4 opts \<noteq> [] then s_RedirectIpv4 opts else ''127.0.0.1'') \<and>
    m_RedirectIpv6 c = (if s_RedirectIpv6 opts \<noteq> [] then s_RedirectIpv6 opts else ''::1'') \<and>
    m_DefaultTtl c = (if 0 \<le> s_Ttl opts then s_Ttl opts else 3600) \<and>
    m_CacertPath c = (if set_cacert \<and> s_CacertPath opts \<noteq> [] \<and> regular_file env (s_CacertPath opts)
      then s_CacertPath opts else []) \<and>
    (\<forall>z. usable_zones env opts z \<longrightarrow> m_Zones c = z)"
proof -
  let ?c = "pre_result opts (first_config env set_cacert opts)"
  obtain ua path where ua: "ua \<noteq> []" and "configure env set_cacert opts =
    (let c = initialize_spec env (s_ZonesPath opts) ua path ?c
     in if pre_valid env opts \<and> post_valid env opts \<and> m_Initialized c then Some (post_result env opts c) else None)"
    by (rule configure_eq)
  then have c: "c = post_result env opts (initialize_spec env (s_ZonesPath opts) ua path ?c)" and valid: "post_valid env opts"
    using assms by (auto simp: Let_def split: if_splits)
  have "m_Zones (initialize_spec env (s_ZonesPath opts) ua path ?c) = z" if "usable_zones env opts z" for z
    using that by (rule chosen_initialized(2))
  then show ?thesis
    unfolding c
    by (auto simp: post_result_def initialize_spec_fields pre_result_def first_config_fields Config_default_def
        port_of_def uint_word_of_int ua valid [unfolded post_valid_def])
qed

theorem settings_applied_witness:
  "\<exists>c. configure sample_config_env True (ps_defaults\<lparr>s_DohOnly := True, s_DnsPort := 65589\<rparr>) = Some c \<and>
    uint (m_DnsPort c) = 53 \<and> m_DefaultTtl c = 3600"
proof -
  let ?opts = "ps_defaults\<lparr>s_DohOnly := True, s_DnsPort := 65589\<rparr>"
  have "configure sample_config_env True ?opts \<noteq> None"
    unfolding configure_accepts by (simp add: pre_valid_def post_valid_def ps_defaults_def port_of_def)
  then obtain c where c: "configure sample_config_env True ?opts = Some c" by blast
  from settings_applied [OF c] c show ?thesis by (simp add: ps_defaults_def)
qed







end
