(* ===== verification/Utils_System.thy ===== *)
theory Utils_System
  imports Dns_Cache
begin

text \<open>
  The rest of \<^verbatim>\<open>src/utils.cc\<close>: the walk over a response that writes its answers to the log, and what is made of the
  answers of the platform probes. Here every octet is read through \<open>packet_at\<close>, which is \<open>None\<close> beyond the buffer, so
  that the walk, which sees whatever a resolver sent, is shown to stay inside. A line of the log is a value of
  \<open>log_line\<close> with the arguments of its format.
\<close>

section \<open>The log of a response\<close>

definition packet_at :: "bytes \<Rightarrow> nat \<Rightarrow> byte option" where
  "packet_at s_Pkt i = (if i < length s_Pkt then Some (s_Pkt ! i) else None)"

definition packet_u16 :: "bytes \<Rightarrow> nat \<Rightarrow> u16 option" where
  "packet_u16 s_Pkt i =
     (case (packet_at s_Pkt i, packet_at s_Pkt (i + 1)) of
        (Some a, Some b) \<Rightarrow> Some (push_bit 8 (ucast a) OR ucast b)
      | _ \<Rightarrow> None)"

definition packet_u32 :: "bytes \<Rightarrow> nat \<Rightarrow> u32 option" where
  "packet_u32 s_Pkt i =
     (case (packet_at s_Pkt i, packet_at s_Pkt (i + 1), packet_at s_Pkt (i + 2), packet_at s_Pkt (i + 3)) of
        (Some a, Some b, Some c, Some d) \<Rightarrow>
          Some (push_bit 24 (ucast a) OR push_bit 16 (ucast b) OR push_bit 8 (ucast c) OR ucast d)
      | _ \<Rightarrow> None)"

datatype log_line =
    Log_response u16 u16
  | Log_A nat u16 u32 string
  | Log_AAAA nat u16 u32 string
  | Log_answer nat string u16 u16 u32 u16

function log_skip_name :: "bytes \<Rightarrow> nat \<Rightarrow> nat \<Rightarrow> nat option" where
  "log_skip_name s_Pkt p_Length s_Offset =
     (if s_Offset < p_Length then
        (case packet_at s_Pkt s_Offset of
           None \<Rightarrow> None
         | Some s_Len \<Rightarrow>
             if s_Len AND 0xC0 = 0xC0 then Some (s_Offset + 2)
             else if s_Len = 0 then Some (s_Offset + 1)
             else log_skip_name s_Pkt p_Length (s_Offset + (1 + unat s_Len)))
      else Some s_Offset)"
  by pat_completeness auto
termination
  by (relation "measure (\<lambda>(d, n, i). n - i)") auto

declare log_skip_name.simps [simp del]

primrec log_questions :: "bytes \<Rightarrow> nat \<Rightarrow> nat \<Rightarrow> nat \<Rightarrow> nat option" where
  "log_questions s_Pkt p_Length 0 s_Offset = Some s_Offset"
| "log_questions s_Pkt p_Length (Suc n) s_Offset =
     (if s_Offset < p_Length then
        (case log_skip_name s_Pkt p_Length s_Offset of
           None \<Rightarrow> None
         | Some s_Offset \<Rightarrow> log_questions s_Pkt p_Length n (s_Offset + 4))
      else Some s_Offset)"

definition type_text :: "u16 \<Rightarrow> string" where
  "type_text s_Type =
     (if s_Type = 2 then ''NS'' else if s_Type = 5 then ''CNAME'' else if s_Type = 6 then ''SOA''
      else if s_Type = 12 then ''PTR'' else if s_Type = 15 then ''MX'' else if s_Type = 16 then ''TXT''
      else if s_Type = 33 then ''SRV'' else if s_Type = 41 then ''OPT'' else ''OTHER'')"

text \<open>The formats \<^verbatim>\<open>%u.%u.%u.%u\<close>, and \<^verbatim>\<open>%02x%02x\<close> eight times with colons.\<close>

definition ipv4_text :: "bytes \<Rightarrow> string" where
  "ipv4_text a = join_with CHR ''.'' (map (\<lambda>b. to_digits 10 (unat b)) a)"

definition two_digits :: "byte \<Rightarrow> string" where
  "two_digits b = (if b < 16 then CHR ''0'' # to_digits 16 (unat b) else to_digits 16 (unat b))"

definition ipv6_text :: "bytes \<Rightarrow> string" where
  "ipv6_text a = join_with CHR '':'' (map (\<lambda>i. two_digits (a ! (2 * i)) @ two_digits (a ! (2 * i + 1))) [0..<8])"

text \<open>The line for one record, whose data is at \<open>s_Offset\<close>.\<close>

definition log_record :: "bytes \<Rightarrow> nat \<Rightarrow> nat \<Rightarrow> u16 \<Rightarrow> u16 \<Rightarrow> u32 \<Rightarrow> u16 \<Rightarrow> log_line option" where
  "log_record s_Pkt s_Offset l_Index s_Type s_Class s_Ttl s_Rdlength =
     (let s_Data = those (map (packet_at s_Pkt) [s_Offset..<s_Offset + unat s_Rdlength])
      in if s_Type = 1 \<and> s_Rdlength = 4 then map_option (\<lambda>a. Log_A l_Index s_Class s_Ttl (ipv4_text a)) s_Data
         else if s_Type = 28 \<and> s_Rdlength = 16 then map_option (\<lambda>a. Log_AAAA l_Index s_Class s_Ttl (ipv6_text a)) s_Data
         else Some (Log_answer l_Index (type_text s_Type) s_Type s_Class s_Ttl s_Rdlength))"

text \<open>The loop over the answers; the breaks end the log.\<close>

primrec log_answers :: "bytes \<Rightarrow> nat \<Rightarrow> nat \<Rightarrow> nat \<Rightarrow> nat \<Rightarrow> log_line list option" where
  "log_answers s_Pkt p_Length 0 l_Index s_Offset = Some []"
| "log_answers s_Pkt p_Length (Suc n) l_Index s_Offset =
     (if s_Offset < p_Length then
        (case log_skip_name s_Pkt p_Length s_Offset of
           None \<Rightarrow> None
         | Some s_Offset \<Rightarrow>
             if s_Offset + 10 > p_Length then Some []
             else
               (case (packet_u16 s_Pkt s_Offset, packet_u16 s_Pkt (s_Offset + 2), packet_u32 s_Pkt (s_Offset + 4),
                      packet_u16 s_Pkt (s_Offset + 8)) of
                  (Some s_Type, Some s_Class, Some s_Ttl, Some s_Rdlength) \<Rightarrow>
                    if s_Offset + 10 + unat s_Rdlength > p_Length then Some []
                    else
                      (case log_record s_Pkt (s_Offset + 10) l_Index s_Type s_Class s_Ttl s_Rdlength of
                         None \<Rightarrow> None
                       | Some line \<Rightarrow>
                           map_option ((#) line)
                             (log_answers s_Pkt p_Length n (l_Index + 1) (s_Offset + 10 + unat s_Rdlength)))
                | _ \<Rightarrow> None))
      else Some [])"

definition LogDnsResponseRecords :: "bytes option \<Rightarrow> nat \<Rightarrow> log_line list option" where
  "LogDnsResponseRecords p_Data p_Length =
     (case p_Data of None \<Rightarrow> Some []
      | Some s_Pkt \<Rightarrow>
          if p_Length < 12 then Some []
          else
            (case (packet_u16 s_Pkt 4, packet_u16 s_Pkt 6, packet_at s_Pkt 3) of
               (Some s_Qdcount, Some s_Ancount, Some b) \<Rightarrow>
                 (let first = Log_response s_Ancount (ucast b AND 0x0F)
                  in if s_Ancount = 0 then Some [first]
                     else
                       (case log_questions s_Pkt p_Length (unat s_Qdcount) 12 of
                          None \<Rightarrow> None
                        | Some s_Offset \<Rightarrow>
                            map_option ((#) first) (log_answers s_Pkt p_Length (unat s_Ancount) 0 s_Offset)))
             | _ \<Rightarrow> None))"

section \<open>Platform probes\<close>

text \<open>The lines that \<^verbatim>\<open>std::getline\<close> yields.\<close>

function getlines :: "string \<Rightarrow> string list" where
  "getlines s =
     (if s = [] then []
      else takeWhile (\<lambda>c. c \<noteq> CHR ''\<newline>'') s # getlines (drop 1 (dropWhile (\<lambda>c. c \<noteq> CHR ''\<newline>'') s)))"
  by pat_completeness auto
termination
proof (relation "measure length", simp)
  fix s :: string
  assume "s \<noteq> []"
  moreover have "length (dropWhile (\<lambda>c. c \<noteq> CHR ''\<newline>'') s) \<le> length s" by (rule length_dropWhile_le)
  ultimately show "(drop 1 (dropWhile (\<lambda>c. c \<noteq> CHR ''\<newline>'') s), s) \<in> measure length" by (cases s) auto
qed

declare getlines.simps [simp del]

definition strip_quotes :: "string \<Rightarrow> string" where
  "strip_quotes s =
     (let s = (if s \<noteq> [] \<and> hd s = CHR 0x22 then tl s else s)
      in if s \<noteq> [] \<and> last s = CHR 0x22 then butlast s else s)"

definition GetLinuxDistro :: "string \<Rightarrow> string" where
  "GetLinuxDistro s_File =
     (case find (\<lambda>s_Line. take 5 s_Line = ''NAME='' \<and> take 12 s_Line \<noteq> ''PRETTY_NAME='') (getlines s_File) of
        None \<Rightarrow> []
      | Some s_Line \<Rightarrow> strip_quotes (drop 5 s_Line))"

definition GetLinuxVersion :: "string \<Rightarrow> string" where
  "GetLinuxVersion s_File =
     (case find (\<lambda>s_Line. take 8 s_Line = ''VERSION='') (getlines s_File) of
        None \<Rightarrow> []
      | Some s_Line \<Rightarrow> strip_quotes (drop 8 s_Line))"

text \<open>\<open>s_Rovi\<close> is what \<^verbatim>\<open>RtlGetVersion\<close> reports: major and minor version and build number.\<close>

definition GetWindowsVersion :: "(nat \<times> nat \<times> nat) option \<Rightarrow> string" where
  "GetWindowsVersion s_Rovi =
     (case s_Rovi of
        None \<Rightarrow> []
      | Some (s_Major, s_Minor, s_Build) \<Rightarrow>
          if s_Major = 10 \<and> s_Minor = 0 then if s_Build \<ge> 22000 then ''11'' else ''10''
          else if s_Major = 6 \<and> s_Minor = 1 then ''7''
          else if s_Major = 6 \<and> s_Minor = 2 then ''8''
          else if s_Major = 6 \<and> s_Minor = 3 then ''8.1''
          else [])"

text \<open>\<open>s_Pipe\<close> is what \<^verbatim>\<open>sw_vers\<close> prints, if it can be run: \<^verbatim>\<open>fgets\<close> reads at most 127 characters of the first line.\<close>

definition GetMacOSVersion :: "string option \<Rightarrow> string" where
  "GetMacOSVersion s_Pipe =
     (case s_Pipe of
        None \<Rightarrow> []
      | Some s_Text \<Rightarrow>
          (let s_Line = takeWhile (\<lambda>c. c \<noteq> CHR ''\<newline>'') s_Text;
               s_Buffer = take 127 (s_Line @ take 1 (drop (length s_Line) s_Text));
               s_Version = c_str s_Buffer
           in if s_Version \<noteq> [] \<and> last s_Version = CHR ''\<newline>'' then butlast s_Version else s_Version))"

section \<open>Firmware of the consoles\<close>

text \<open>
  What \<^verbatim>\<open>sysctlbyname\<close> stores, if it succeeds, is the argument. The version is a \<^verbatim>\<open>double\<close> in the source; it is always a
  multiple of a hundredth, given here in hundredths, and \<^verbatim>\<open>%.2f\<close> prints it exactly.
\<close>

definition GetIntSysctlByName :: "int option \<Rightarrow> int" where
  "GetIntSysctlByName s_Ver = (case s_Ver of None \<Rightarrow> -1 | Some s_Ver \<Rightarrow> s_Ver)"

definition GetFirmware :: "int option \<Rightarrow> u32" where
  "GetFirmware sysctl = (let s_UpdVer = GetIntSysctlByName sysctl in if s_UpdVer < 0 then 0 else of_int s_UpdVer)"

definition ConvertVersionToDouble :: "u32 \<Rightarrow> nat" where
  "ConvertVersionToDouble p_Version =
     100 * unat (BcdToDecimal (ucast (drop_bit 24 p_Version))) + unat (BcdToDecimal (ucast (drop_bit 16 p_Version)))"

definition GetFirmwareDouble :: "int option \<Rightarrow> nat" where
  "GetFirmwareDouble sysctl = (let s_Ver = GetFirmware sysctl in if s_Ver = 0 then 0 else ConvertVersionToDouble s_Ver)"

definition hundredths_text :: "nat \<Rightarrow> string" where
  "hundredths_text h =
     to_digits 10 (h div 100) @ ''.'' @ to_digits 10 (h mod 100 div 10) @ to_digits 10 (h mod 10)"

definition GetFirmwareString :: "int option \<Rightarrow> bytes option \<Rightarrow> int \<times> bytes option" where
  "GetFirmwareString sysctl p_Output =
     (case p_Output of
        None \<Rightarrow> (-1, None)
      | Some buf \<Rightarrow>
          if length buf < 5 then (-1, p_Output)
          else
            let p_Output = replicate (length buf) 0; s_Ver = GetFirmware sysctl in
            if s_Ver = 0 then (-1, Some p_Output)
            else
              let s_Text = hundredths_text (ConvertVersionToDouble s_Ver) in
              if length s_Text + 1 > length buf then (-1, Some p_Output)
              else (0, Some (overwrite p_Output 0 (bytes_of_string s_Text @ [0]))))"

definition GetOrbisVersion :: "int option \<Rightarrow> string" where
  "GetOrbisVersion sysctl =
     (case GetFirmwareString sysctl (Some (replicate 6 0)) of
        (r, Some s_Version) \<Rightarrow> if r = 0 then c_str (string_of_bytes s_Version) else ''UNK''
      | _ \<Rightarrow> ''UNK'')"

definition GetProsperoVersion :: "int option \<Rightarrow> string" where
  "GetProsperoVersion sysctl =
     (case GetFirmwareString sysctl (Some (replicate 6 0)) of
        (r, Some s_Version) \<Rightarrow> if r = 0 then c_str (string_of_bytes s_Version) else ''UNK''
      | _ \<Rightarrow> ''UNK'')"

section \<open>Lemmas: reads inside the packet\<close>

lemma packet_reads:
  "i < length d \<Longrightarrow> packet_at d i = Some (d ! i)"
  "i + 1 < length d \<Longrightarrow> packet_u16 d i = Some (ReadUint16 d i)"
  "i + 3 < length d \<Longrightarrow> packet_u32 d i = Some (ReadUint32 d i)"
  by (simp_all add: packet_at_def packet_u16_def packet_u32_def ReadUint16_def ReadUint32_def)

lemma packet_range:
  "o1 + l \<le> length d \<Longrightarrow> those (map (packet_at d) [o1..<o1 + l]) = Some (subrange d o1 l)"
proof (induction l arbitrary: o1)
  case (Suc l)
  have "[o1..<o1 + Suc l] = o1 # [Suc o1..<Suc o1 + l]" by (simp add: upt_conv_Cons del: upt_Suc)
  moreover have "subrange d o1 (Suc l) = d ! o1 # subrange d (Suc o1) l"
    using Suc.prems by (simp add: subrange_def Cons_nth_drop_Suc [symmetric])
  ultimately show ?case using Suc.IH [of "Suc o1"] Suc.prems by (simp add: packet_reads(1) del: upt_Suc)
qed (simp add: subrange_def)

lemma log_record_inside:
  assumes "o1 + unat l \<le> length d"
  shows "log_record d o1 i t c ttl l =
    Some (if t = 1 \<and> l = 4 then Log_A i c ttl (ipv4_text (subrange d o1 (unat l)))
          else if t = 28 \<and> l = 16 then Log_AAAA i c ttl (ipv6_text (subrange d o1 (unat l)))
          else Log_answer i (type_text t) t c ttl l)"
  unfolding log_record_def packet_range [OF assms] by (simp add: Let_def)

lemma log_skip_name_total: "n \<le> length d \<Longrightarrow> log_skip_name d n i \<noteq> None"
proof (induction d n i rule: log_skip_name.induct)
  case (1 d n i)
  then show ?case by (subst log_skip_name.simps) (auto simp: packet_reads(1) split: option.split)
qed

lemma log_questions_total: "n \<le> length d \<Longrightarrow> log_questions d n k i \<noteq> None"
proof (induction k arbitrary: i)
  case (Suc k)
  then show ?case using log_skip_name_total [of n d i] by (auto split: option.split)
qed simp

lemma log_answers_total: "n \<le> length d \<Longrightarrow> log_answers d n k idx i \<noteq> None"
proof (induction k arbitrary: idx i)
  case (Suc k)
  obtain j where j: "log_skip_name d n i = Some j" using log_skip_name_total [OF Suc.prems] by blast
  show ?case
  proof (cases "i < n \<and> j + 10 \<le> n \<and> j + 10 + unat (ReadUint16 d (j + 8)) \<le> n")
    case True
    then show ?thesis
      using Suc.prems j Suc.IH [OF Suc.prems]
        log_record_inside [of "j + 10" "ReadUint16 d (j + 8)" d]
      by (simp add: packet_reads)
  next
    case False
    then show ?thesis using Suc.prems j by (auto simp: packet_reads)
  qed
qed simp

section \<open>Lemmas: the log agrees with the packet parser\<close>

lemma log_skip_name_at: "name_at d n i ls j k \<Longrightarrow> n \<le> length d \<Longrightarrow> log_skip_name d n i = Some j"
proof (induction rule: name_at.induct)
  case (root i)
  then show ?case by (subst log_skip_name.simps) (simp add: packet_reads(1))
next
  case (label i len ls j k)
  then have "d ! i \<noteq> 0" "d ! i AND 0xC0 \<noteq> 0xC0" using short_not_pointer [of "d ! i"] by auto
  with label show ?case by (subst log_skip_name.simps) (simp add: packet_reads(1))
next
  case (pointer i ls j k)
  then show ?case by (subst log_skip_name.simps) (simp add: packet_reads(1))
qed

lemma log_skip_parsed:
  "ParseDomainName d n off [] = (True, off', ls) \<Longrightarrow> n \<le> length d \<Longrightarrow> off < n \<and> log_skip_name d n off = Some off'"
  using log_skip_name_at name_at_bounds by (fastforce simp: ParseDomainName_iff)

lemma log_questions_parsed:
  "parse_section DnsQuestion_FromWire q0 (Some d) n k off acc = (True, off', qs) \<Longrightarrow> n \<le> length d \<Longrightarrow>
   log_questions d n k off = Some off'"
proof (induction k arbitrary: off acc)
  case (Suc k)
  obtain o1 q where q: "DnsQuestion_FromWire (Some d) n off q0 = (True, o1, q)"
    "parse_section DnsQuestion_FromWire q0 (Some d) n k o1 (acc @ [q]) = (True, off', qs)"
    using Suc.prems(1) by (auto split: prod.splits if_splits)
  then obtain o0 ls where "ParseDomainName d n off [] = (True, o0, ls)" "o1 = o0 + 4"
    by (auto simp: DnsQuestion_FromWire_def split: prod.splits if_splits)
  then show ?case using log_skip_parsed Suc.IH [OF q(2) Suc.prems(2)] Suc.prems(2) by simp
qed simp

definition log_matches :: "nat \<Rightarrow> DnsAnswer \<Rightarrow> log_line \<Rightarrow> bool" where
  "log_matches i a line =
     (case line of
        Log_response _ _ \<Rightarrow> False
      | Log_A j c t text \<Rightarrow> j = i \<and> DnsAnswer_Type a False = 1 \<and> length (m_Rdata a) = 4 \<and> c = DnsAnswer_Rclass a False \<and>
          t = DnsAnswer_Ttl a False \<and> text = ipv4_text (m_Rdata a)
      | Log_AAAA j c t text \<Rightarrow> j = i \<and> DnsAnswer_Type a False = 28 \<and> length (m_Rdata a) = 16 \<and>
          c = DnsAnswer_Rclass a False \<and> t = DnsAnswer_Ttl a False \<and> text = ipv6_text (m_Rdata a)
      | Log_answer j name ty c t len \<Rightarrow> j = i \<and> ty = DnsAnswer_Type a False \<and> name = type_text ty \<and>
          c = DnsAnswer_Rclass a False \<and> t = DnsAnswer_Ttl a False)"

lemma log_answer_step:
  assumes "DnsAnswer_FromWire (Some d) n off a0 = (True, off', a)" and "n \<le> length d"
  shows "\<exists>line. log_matches i a line \<and>
    log_answers d n (Suc k) i off = map_option ((#) line) (log_answers d n k (i + 1) off')"
proof -
  obtain o1 ls where p: "ParseDomainName d n off [] = (True, o1, ls)" and o1: "o1 + 10 \<le> n"
    and fits: "o1 + 10 + unat (NetworkToHost (load16 d (o1 + 8))) \<le> n"
    and off': "off' = o1 + 10 + unat (NetworkToHost (load16 d (o1 + 8)))"
    and ty: "m_Type a = load16 d o1" and cl: "m_Class a = load16 d (o1 + 2)" and ttl: "m_Ttl a = load32 d (o1 + 4)"
    and rd: "NetworkToHost (load16 d o1) \<in> {1, 28} \<Longrightarrow>
      m_Rdata a = subrange d (o1 + 10) (unat (NetworkToHost (load16 d (o1 + 8))))"
    using assms(1) by (auto simp: DnsAnswer_FromWire_def DnsAnswer_UpdateRDLENGTH_def Let_def split: prod.splits if_splits)
  let ?l = "ReadUint16 d (o1 + 8)" and ?t = "ReadUint16 d o1"
  have len: "length (subrange d (o1 + 10) (unat ?l)) = unat ?l"
    using fits assms(2) by (simp add: subrange_def ReadUint16_load)
  have data: "o1 + 10 + unat ?l \<le> length d" using fits assms(2) by (simp add: ReadUint16_load)
  define line where "line =
    (if ?t = 1 \<and> ?l = 4 then Log_A i (ReadUint16 d (o1 + 2)) (ReadUint32 d (o1 + 4)) (ipv4_text (subrange d (o1 + 10) (unat ?l)))
     else if ?t = 28 \<and> ?l = 16
     then Log_AAAA i (ReadUint16 d (o1 + 2)) (ReadUint32 d (o1 + 4)) (ipv6_text (subrange d (o1 + 10) (unat ?l)))
     else Log_answer i (type_text ?t) ?t (ReadUint16 d (o1 + 2)) (ReadUint32 d (o1 + 4)) ?l)"
  have "log_matches i a line"
    using ty cl ttl rd len
    by (auto simp: line_def log_matches_def DnsAnswer_Type_def DnsAnswer_Rclass_def DnsAnswer_Ttl_def ReadUint16_load
        ReadUint32_load)
  moreover have "log_answers d n (Suc k) i off = map_option ((#) line) (log_answers d n k (i + 1) off')"
    using log_skip_parsed [OF p assms(2)] o1 fits assms(2) log_record_inside [OF data]
    by (simp add: line_def off' packet_reads flip: ReadUint16_load)
  ultimately show ?thesis by blast
qed

lemma log_answers_parsed:
  "parse_section DnsAnswer_FromWire a0 (Some d) n k off acc = (True, off', acc @ as) \<Longrightarrow> n \<le> length d \<Longrightarrow>
   \<exists>lines. log_answers d n k i off = Some lines \<and> list_all2 (\<lambda>(j, a). log_matches j a) (enumerate i as) lines"
proof (induction k arbitrary: off acc as i)
  case (Suc k)
  obtain o1 a where a: "DnsAnswer_FromWire (Some d) n off a0 = (True, o1, a)"
    "parse_section DnsAnswer_FromWire a0 (Some d) n k o1 (acc @ [a]) = (True, off', acc @ as)"
    using Suc.prems(1) by (auto split: prod.splits if_splits)
  have "take (length (acc @ [a])) (acc @ as) = acc @ [a]"
    using a(2) answer_codec.parse_section_bounds answer_FromWire_bounds [OF a(1)] by blast
  then obtain as' where as: "as = a # as'" by (cases as) simp_all
  obtain line where line: "log_matches i a line"
    "log_answers d n (Suc k) i off = map_option ((#) line) (log_answers d n k (i + 1) o1)"
    using log_answer_step [OF a(1) Suc.prems(2)] by blast
  obtain lines where "log_answers d n k (i + 1) o1 = Some lines" "list_all2 (\<lambda>(j, a). log_matches j a) (enumerate (i + 1) as') lines"
    using Suc.IH [of o1 "acc @ [a]" as' "i + 1"] a(2) as Suc.prems(2) by auto
  then show ?case using line as by simp
qed simp

section \<open>Lemmas: platform probes\<close>

lemma getlines_line: "CHR ''\<newline>'' \<notin> set l \<Longrightarrow> getlines (l @ CHR ''\<newline>'' # s) = l # getlines s"
  by (subst getlines.simps) (simp add: takeWhile_append dropWhile_append)

text \<open>The first line that starts with the key counts, and its quotes are removed.\<close>

lemma GetLinuxVersion_line:
  assumes "\<forall>l\<in>set ls. CHR ''\<newline>'' \<notin> set l \<and> take 8 l \<noteq> ''VERSION=''" and "CHR ''\<newline>'' \<notin> set v"
  shows "GetLinuxVersion (concat (map (\<lambda>l. l @ ''\<newline>'') ls) @ ''VERSION='' @ v @ CHR ''\<newline>'' # rest) = strip_quotes v"
  using assms(1)
proof (induction ls)
  case Nil
  then show ?case
    using getlines_line [of "''VERSION='' @ v" rest] assms(2) by (simp add: GetLinuxVersion_def)
next
  case (Cons l ls)
  then show ?case
    using getlines_line [of l "concat (map (\<lambda>l. l @ ''\<newline>'') ls) @ ''VERSION='' @ v @ CHR ''\<newline>'' # rest"]
    by (simp add: GetLinuxVersion_def)
qed

lemma to_digits_short: "n < 10 \<Longrightarrow> to_digits 10 n = [digit_char n]" "n < 100 \<Longrightarrow> length (to_digits 10 n) \<le> 2"
  by (auto simp: to_digits.simps)

lemma hundredths_text_characters: "CHR 0x00 \<notin> set (hundredths_text h)"
proof -
  have "CHR 0x00 \<notin> set (to_digits 10 n)" for n
  proof
    assume "CHR 0x00 \<in> set (to_digits 10 n)"
    then obtain d where "d < 10" and "CHR 0x00 = digit_char d" using to_digits_digits [of 10 "CHR 0x00" n] by auto
    then have "(of_char (CHR 0x00) :: nat) = of_char (digit_char d)" by simp
    with \<open>d < 10\<close> show False by (simp add: digit_char_def)
  qed
  then show ?thesis by (simp add: hundredths_text_def)
qed

text \<open>The version of a console: the digits of a version below 100, and the fallback for one that does not fit.\<close>

lemma GetOrbisVersion_text:
  assumes "0 < v" and "v < 2 ^ 31"
  shows "GetOrbisVersion (Some v) =
    (let h = ConvertVersionToDouble (of_int v) in if h < 10000 then hundredths_text h else ''UNK'')"
proof -
  let ?h = "ConvertVersionToDouble (of_int v)" and ?t = "hundredths_text (ConvertVersionToDouble (of_int v))"
  have v: "GetFirmware (Some v) = of_int v" "(of_int v :: u32) \<noteq> 0"
    using assms by (auto simp: GetFirmware_def GetIntSysctlByName_def word_of_int_eq_0_iff dest: zdvd_imp_le)
  have len: "length ?t = length (to_digits 10 (?h div 100)) + 3"
    by (simp add: hundredths_text_def to_digits_short)
  have big: "length (to_digits 10 n) > 2" if "n \<ge> 100" for n
    using that by (simp add: to_digits.simps [of 10 n] to_digits.simps [of 10 "n div 10"] to_digits.simps [of 10 "n div 100"])
  show ?thesis
  proof (cases "?h < 10000")
    case True
    then have l: "length ?t + 1 \<le> 6" using len to_digits_short(2) [of "?h div 100"] by simp
    have "c_str (string_of_bytes (overwrite (replicate 6 0) 0 (bytes_of_string ?t @ [0]))) = ?t"
    proof -
      have "char_of_byte 0 = CHR 0x00" by (simp add: char_of_byte_def char_of_def)
      moreover have "takeWhile (\<lambda>c. c \<noteq> CHR 0x00) (?t @ CHR 0x00 # s) = ?t" for s
        using hundredths_text_characters [of ?h] by (subst takeWhile_append2) auto
      ultimately show ?thesis using l
        by (simp add: overwrite_def string_of_bytes_def bytes_of_string_def c_str_def comp_def)
    qed
    then show ?thesis using True l v by (simp add: GetOrbisVersion_def GetFirmwareString_def Let_def)
  next
    case False
    then have "length ?t + 1 > 6" using len big [of "?h div 100"] by simp
    then show ?thesis using False v by (simp add: GetOrbisVersion_def GetFirmwareString_def Let_def)
  qed
qed

section \<open>Properties\<close>

text \<open>C38: logging a response is safe and true. Whatever octets a resolver sent, the walk reads none beyond the announced
  length; and for a message that the packet parser accepts it writes the number of answers and then, in order, one
  line for each with its index, type, class and TTL, and with the address of an A or AAAA record.\<close>

theorem response_log_correct:
  assumes "n \<le> length d"
  shows "LogDnsResponseRecords (Some d) n \<noteq> None \<and>
    (DnsResponsePacket_FromWire (Some d) n p0 = (True, p) \<longrightarrow>
      (\<exists>lines rc. LogDnsResponseRecords (Some d) n = Some (Log_response (of_nat (length (resp_Answers p))) rc # lines) \<and>
        list_all2 (\<lambda>(i, a). log_matches i a) (enumerate 0 (resp_Answers p)) lines))"
proof (intro conjI impI)
  show "LogDnsResponseRecords (Some d) n \<noteq> None"
    using assms log_questions_total [OF assms, of "unat (ReadUint16 d 4)" 12] log_answers_total [OF assms]
    by (auto simp: LogDnsResponseRecords_def packet_reads Let_def)
next
  assume "DnsResponsePacket_FromWire (Some d) n p0 = (True, p)"
  note h = response_FromWire_header [OF this]
  from \<open>DnsResponsePacket_FromWire (Some d) n p0 = (True, p)\<close> obtain o1 o2 where n: "12 \<le> n"
    and q: "parse_section DnsQuestion_FromWire DnsQuestion_default (Some d) n (unat (ReadUint16 d 4)) 12 [] =
      (True, o1, resp_Questions p)"
    and a: "parse_section DnsAnswer_FromWire DnsAnswer_default (Some d) n (unat (ReadUint16 d 6)) o1 [] =
      (True, o2, resp_Answers p)"
    by (rule response_FromWire_steps) (simp add: h copied_counts)
  have "o1 \<le> n" using question_codec.parse_section_bounds [OF q n] by simp
  with answer_codec.parse_section_bounds [OF a] have len: "length (resp_Answers p) = unat (ReadUint16 d 6)" by simp
  obtain lines where lines: "log_answers d n (unat (ReadUint16 d 6)) 0 o1 = Some lines"
    "list_all2 (\<lambda>(i, a). log_matches i a) (enumerate 0 (resp_Answers p)) lines"
    using log_answers_parsed [of DnsAnswer_default d n _ o1 "[]" o2 "resp_Answers p" 0] a assms by auto
  have "lines = []" if "ReadUint16 d 6 = 0" using lines len that by simp
  then show "\<exists>lines rc. LogDnsResponseRecords (Some d) n = Some (Log_response (of_nat (length (resp_Answers p))) rc # lines) \<and>
      list_all2 (\<lambda>(i, a). log_matches i a) (enumerate 0 (resp_Answers p)) lines"
    using n assms log_questions_parsed [OF q assms] lines
    by (cases "ReadUint16 d 6 = 0") (auto simp: LogDnsResponseRecords_def packet_reads len Let_def)
qed

theorem response_log_correct_witness:
  "\<exists>rc line. LogDnsResponseRecords (Some (response_image sample_response)) (length (response_image sample_response)) =
     Some [Log_response 1 rc, line] \<and> log_matches 0 (hd (resp_Answers sample_response)) line"
proof -
  have a: "length (resp_Answers sample_response) = 1"
    by (simp add: sample_response_def DnsResponsePacket_AddAnswer_def DnsResponsePacket_MakeResponse_def
        DnsResponsePacket_ctor_def DnsResponsePacket_UpdateHeaderCounts_def)
  then obtain x where x: "resp_Answers sample_response = [x]" by (auto simp: length_Suc_conv)
  from response_log_correct [OF order.refl, of "response_image sample_response" DnsResponsePacket_default sample_response]
    response_wf_parses [OF sample_response_wf, of DnsResponsePacket_default]
  show ?thesis by (auto simp: x list_all2_Cons1)
qed

end
