(* ===== verification/Listener.thy ===== *)
theory Listener
  imports Chukei_Prelude
begin

text \<open>
  The life of the two listening sockets (\<^verbatim>\<open>src/udp_server.cc\<close>, \<^verbatim>\<open>src/tcp_server.cc\<close>): how a completed operation starts
  the next one, when a broken socket is opened again, the timer that tries again, and \<^verbatim>\<open>Stop\<close>. What a message is
  answered with is the subject of \<open>Server\<close>; here only the result of the send counts.

  The state is whether the server runs, whether its socket is open, how many receive or accept operations are pending,
  and whether the timer is armed (arming it again replaces the wait). The event loop of asio delivers the events: an
  operation completes only if one is pending, the timer fires only if it is armed. A \<open>bool\<close> of an event tells whether
  the error says that the socket is broken, the next one whether the socket can be opened again at that moment.
\<close>

record listener =
  m_IsRunning :: bool
  m_SocketOpen :: bool
  m_Pending :: nat
  m_ReopenTimer :: bool

section \<open>TCP\<close>

definition TcpServer_Accept :: "listener \<Rightarrow> listener" where
  "TcpServer_Accept s = (if \<not> m_IsRunning s then s else s\<lparr>m_Pending := m_Pending s + 1\<rparr>)"

definition TcpServer_ReopenAcceptor :: "bool \<Rightarrow> listener \<Rightarrow> listener" where
  "TcpServer_ReopenAcceptor opened s =
     (if \<not> m_IsRunning s then s
      else let s = s\<lparr>m_SocketOpen := False\<rparr>
           in if opened then TcpServer_Accept (s\<lparr>m_SocketOpen := True\<rparr>) else s\<lparr>m_ReopenTimer := True\<rparr>)"

definition TcpServer_Stop :: "listener \<Rightarrow> listener" where
  "TcpServer_Stop s = s\<lparr>m_IsRunning := False, m_ReopenTimer := False, m_SocketOpen := False\<rparr>"

definition TcpServer_ctor :: listener where
  "TcpServer_ctor =
     TcpServer_Accept \<lparr>m_IsRunning = True, m_SocketOpen = True, m_Pending = 0, m_ReopenTimer = False\<rparr>"

datatype tcp_event = Accepted | Accept_failed bool bool | Tcp_timer bool | Tcp_stop

definition tcp_enabled :: "tcp_event \<Rightarrow> listener \<Rightarrow> bool" where
  "tcp_enabled e s = (case e of
     Accepted \<Rightarrow> m_Pending s > 0 | Accept_failed _ _ \<Rightarrow> m_Pending s > 0 | Tcp_timer _ \<Rightarrow> m_ReopenTimer s | Tcp_stop \<Rightarrow> True)"

text \<open>The handler of \<^verbatim>\<open>async_accept\<close>, and of the timer.\<close>

definition TcpServer_accepted :: "(bool \<times> bool) option \<Rightarrow> listener \<Rightarrow> listener" where
  "TcpServer_accepted p_ErrorCode s =
     (let s = s\<lparr>m_Pending := m_Pending s - 1\<rparr>
      in case p_ErrorCode of
           Some (True, opened) \<Rightarrow> TcpServer_ReopenAcceptor opened s
         | _ \<Rightarrow> if m_IsRunning s then TcpServer_Accept s else s)"

definition tcp_handle :: "tcp_event \<Rightarrow> listener \<Rightarrow> listener" where
  "tcp_handle e s = (case e of
     Accepted \<Rightarrow> TcpServer_accepted None s
   | Accept_failed broken opened \<Rightarrow> TcpServer_accepted (Some (broken, opened)) s
   | Tcp_timer opened \<Rightarrow>
       (let s = s\<lparr>m_ReopenTimer := False\<rparr> in if m_IsRunning s then TcpServer_ReopenAcceptor opened s else s)
   | Tcp_stop \<Rightarrow> TcpServer_Stop s)"

section \<open>UDP\<close>

definition UdpServer_Receive_next :: "listener \<Rightarrow> listener" where
  "UdpServer_Receive_next s = (if \<not> m_IsRunning s then s else s\<lparr>m_Pending := m_Pending s + 1\<rparr>)"

definition UdpServer_ReopenSocket :: "bool \<Rightarrow> listener \<Rightarrow> listener" where
  "UdpServer_ReopenSocket opened s =
     (if \<not> m_IsRunning s then s
      else let s = s\<lparr>m_SocketOpen := False\<rparr>
           in if opened then UdpServer_Receive_next (s\<lparr>m_SocketOpen := True\<rparr>) else s\<lparr>m_ReopenTimer := True\<rparr>)"

definition UdpServer_Stop :: "listener \<Rightarrow> listener" where
  "UdpServer_Stop s = s\<lparr>m_IsRunning := False, m_ReopenTimer := False, m_SocketOpen := False\<rparr>"

definition UdpServer_ctor :: listener where
  "UdpServer_ctor =
     UdpServer_Receive_next \<lparr>m_IsRunning = True, m_SocketOpen = True, m_Pending = 0, m_ReopenTimer = False\<rparr>"

text \<open>The result of the send: nothing to send, sent, failed, or failed because the socket is broken.\<close>

datatype send_result = Not_sent | Sent | Send_failed | Send_broken bool

definition UdpServer_Send_result :: "send_result \<Rightarrow> listener \<Rightarrow> listener" where
  "UdpServer_Send_result ec s = (case ec of Send_broken opened \<Rightarrow> UdpServer_ReopenSocket opened s | _ \<Rightarrow> s)"

datatype udp_event = Datagram send_result | Receive_failed bool bool | Udp_timer bool | Udp_stop

definition udp_enabled :: "udp_event \<Rightarrow> listener \<Rightarrow> bool" where
  "udp_enabled e s = (case e of
     Datagram _ \<Rightarrow> m_Pending s > 0 | Receive_failed _ _ \<Rightarrow> m_Pending s > 0 | Udp_timer _ \<Rightarrow> m_ReopenTimer s | Udp_stop \<Rightarrow> True)"

text \<open>The handler of \<^verbatim>\<open>async_receive_from\<close>: every way through it but the broken socket ends with the next receive.\<close>

definition UdpServer_received :: "send_result + bool \<times> bool \<Rightarrow> listener \<Rightarrow> listener" where
  "UdpServer_received r s =
     (let s = s\<lparr>m_Pending := m_Pending s - 1\<rparr>
      in case r of
           Inr (True, opened) \<Rightarrow> UdpServer_ReopenSocket opened s
         | Inr (False, _) \<Rightarrow> if m_IsRunning s then UdpServer_Receive_next s else s
         | Inl ec \<Rightarrow>
             (let s = UdpServer_Send_result ec s in if m_IsRunning s then UdpServer_Receive_next s else s))"

definition udp_handle :: "udp_event \<Rightarrow> listener \<Rightarrow> listener" where
  "udp_handle e s = (case e of
     Datagram ec \<Rightarrow> UdpServer_received (Inl ec) s
   | Receive_failed broken opened \<Rightarrow> UdpServer_received (Inr (broken, opened)) s
   | Udp_timer opened \<Rightarrow>
       (let s = s\<lparr>m_ReopenTimer := False\<rparr> in if m_IsRunning s then UdpServer_ReopenSocket opened s else s)
   | Udp_stop \<Rightarrow> UdpServer_Stop s)"

section \<open>Runs\<close>

inductive runs :: "('e \<Rightarrow> 's \<Rightarrow> bool) \<Rightarrow> ('e \<Rightarrow> 's \<Rightarrow> 's) \<Rightarrow> 's \<Rightarrow> 'e list \<Rightarrow> 's \<Rightarrow> bool"
  for enabled handle init where
  none: "runs enabled handle init [] init"
| more: "runs enabled handle init es s \<Longrightarrow> enabled e s \<Longrightarrow> runs enabled handle init (es @ [e]) (handle e s)"

text \<open>The contract of a listener: an invariant that every event of a kind keeps.\<close>

locale event_loop =
  fixes enabled :: "'e \<Rightarrow> 's \<Rightarrow> bool" and handle :: "'e \<Rightarrow> 's \<Rightarrow> 's" and init :: 's
    and kind :: "'e \<Rightarrow> bool" and inv :: "'s \<Rightarrow> bool"
  assumes init_inv: "inv init"
    and handle_inv: "inv s \<Longrightarrow> enabled e s \<Longrightarrow> kind e \<Longrightarrow> inv (handle e s)"
begin

lemma runs_inv: "runs enabled handle init es s \<Longrightarrow> (\<forall>e\<in>set es. kind e) \<Longrightarrow> inv s"
  by (induction rule: runs.induct) (auto intro: init_inv handle_inv)

end

text \<open>One operation is under way, or the timer is armed; and at least one of them.\<close>

definition under_way :: "listener \<Rightarrow> nat" where
  "under_way s = m_Pending s + (if m_ReopenTimer s then 1 else 0)"

definition one_under_way :: "listener \<Rightarrow> bool" where
  "one_under_way s \<longleftrightarrow> (m_IsRunning s \<longrightarrow> under_way s = 1) \<and> (\<not> m_IsRunning s \<longrightarrow> under_way s \<le> 1 \<and> \<not> m_ReopenTimer s) \<and>
     (m_ReopenTimer s \<longrightarrow> \<not> m_SocketOpen s)"

definition some_under_way :: "listener \<Rightarrow> bool" where
  "some_under_way s \<longleftrightarrow> (m_IsRunning s \<longrightarrow> under_way s > 0) \<and> (\<not> m_IsRunning s \<longrightarrow> \<not> m_ReopenTimer s)"

definition send_intact :: "udp_event \<Rightarrow> bool" where
  "send_intact e = (case e of Datagram (Send_broken _) \<Rightarrow> False | _ \<Rightarrow> True)"

lemmas tcp_defs = tcp_enabled_def tcp_handle_def TcpServer_accepted_def TcpServer_ReopenAcceptor_def TcpServer_Accept_def
  TcpServer_Stop_def TcpServer_ctor_def under_way_def

lemmas udp_defs = udp_enabled_def udp_handle_def UdpServer_received_def UdpServer_Send_result_def
  UdpServer_ReopenSocket_def UdpServer_Receive_next_def UdpServer_Stop_def UdpServer_ctor_def under_way_def

interpretation tcp_listener: event_loop tcp_enabled tcp_handle TcpServer_ctor "\<lambda>_. True" one_under_way
  by unfold_locales
    (auto simp: tcp_defs one_under_way_def Let_def split: tcp_event.splits bool.splits if_splits)

interpretation udp_listener: event_loop udp_enabled udp_handle UdpServer_ctor "\<lambda>_. True" some_under_way
  by unfold_locales
    (auto simp: udp_defs some_under_way_def Let_def split: udp_event.splits send_result.splits bool.splits if_splits)

interpretation udp_intact: event_loop udp_enabled udp_handle UdpServer_ctor send_intact one_under_way
  by unfold_locales
    (auto simp: udp_defs one_under_way_def send_intact_def Let_def
      split: udp_event.splits send_result.splits bool.splits if_splits)

section \<open>Properties\<close>

text \<open>C17: the TCP server goes on listening. After any events, as long as it has not been stopped, exactly one accept is
  pending or the timer is armed to open the acceptor again, and in the latter case the acceptor is closed: the server
  never becomes deaf and never accepts twice. Once stopped, it starts nothing any more.\<close>

theorem tcp_listens:
  assumes "runs tcp_enabled tcp_handle TcpServer_ctor es s"
  shows "(m_IsRunning s \<longrightarrow> (if m_ReopenTimer s then m_Pending s = 0 \<and> \<not> m_SocketOpen s else m_Pending s = 1)) \<and>
    (\<not> m_IsRunning s \<longrightarrow> (\<forall>e. tcp_enabled e s \<longrightarrow> \<not> m_IsRunning (tcp_handle e s) \<and>
       m_Pending (tcp_handle e s) \<le> m_Pending s \<and> \<not> m_ReopenTimer (tcp_handle e s)))"
proof -
  have "one_under_way s" using tcp_listener.runs_inv [OF assms] by simp
  then show ?thesis
    by (auto simp: tcp_defs one_under_way_def Let_def split: tcp_event.splits bool.splits if_splits)
qed

text \<open>C16: the UDP server never becomes deaf: after any events, as long as it has not been stopped, a receive is pending
  or the timer is armed. Exactly one of them is under way if no send has failed because of a broken socket. A send
  that fails that way opens the socket again, which starts a receive, and then the handler starts another: two receives
  into the same buffer are pending.\<close>

theorem udp_listens:
  assumes "runs udp_enabled udp_handle UdpServer_ctor es s"
  shows "(m_IsRunning s \<longrightarrow> m_Pending s > 0 \<or> m_ReopenTimer s) \<and>
    (m_IsRunning s \<longrightarrow> (\<forall>e\<in>set es. send_intact e) \<longrightarrow> m_Pending s = (if m_ReopenTimer s then 0 else 1)) \<and>
    (m_IsRunning s \<longrightarrow> m_Pending s > 0 \<longrightarrow> m_Pending (udp_handle (Datagram (Send_broken True)) s) = m_Pending s + 1)"
proof -
  have "some_under_way s" using udp_listener.runs_inv [OF assms] by simp
  moreover have "one_under_way s" if "\<forall>e\<in>set es. send_intact e" using udp_intact.runs_inv [OF assms that] .
  ultimately show ?thesis
    by (auto simp: udp_defs one_under_way_def some_under_way_def Let_def split: if_splits)
qed

theorem tcp_listens_witness:
  "\<exists>s. runs tcp_enabled tcp_handle TcpServer_ctor [Accepted, Accept_failed True False] s \<and> m_ReopenTimer s \<and> m_Pending s = 0"
proof -
  let ?s = "tcp_handle (Accept_failed True False) (tcp_handle Accepted TcpServer_ctor)"
  have "runs tcp_enabled tcp_handle TcpServer_ctor (([] @ [Accepted]) @ [Accept_failed True False]) ?s"
    by (intro runs.intros) (simp_all add: tcp_defs)
  then have r: "runs tcp_enabled tcp_handle TcpServer_ctor [Accepted, Accept_failed True False] ?s" by simp
  have "m_IsRunning ?s" "m_ReopenTimer ?s" by (simp_all add: tcp_defs)
  then show ?thesis using tcp_listens [OF r] r by auto
qed

theorem udp_listens_witness:
  "\<exists>s. runs udp_enabled udp_handle UdpServer_ctor [Datagram Sent, Datagram (Send_broken True)] s \<and> m_Pending s = 2"
proof -
  let ?s = "udp_handle (Datagram Sent) UdpServer_ctor"
  have "runs udp_enabled udp_handle UdpServer_ctor ([] @ [Datagram Sent]) ?s"
    by (intro runs.intros) (simp_all add: udp_defs)
  then have r: "runs udp_enabled udp_handle UdpServer_ctor [Datagram Sent] ?s" by simp
  have s: "m_IsRunning ?s" "m_Pending ?s = 1" by (simp_all add: udp_defs)
  have "udp_enabled (Datagram (Send_broken True)) ?s" by (simp add: s(2) udp_enabled_def)
  from runs.more [OF r this] udp_listens [OF r] s show ?thesis by auto
qed

end
