(* ===== verification/Curl_Handles.thy ===== *)
theory Curl_Handles
  imports Doh "HOL-Library.Monad_Syntax"
begin

text \<open>
  What a \<^verbatim>\<open>DnsOverHttps\<close> object owns (\<^verbatim>\<open>src/dns_over_https.cc\<close>): the multi handle and the two header lists, through
  construction, moves and destruction, and the global initialisation of libcurl. Handles are numbers from an allocator;
  releasing a handle that is not live, or appending to a list that is not, is undefined behaviour, the outer \<open>None\<close>.
  Whether a call of libcurl succeeds is an argument of the operation that makes it.
\<close>

section \<open>libcurl\<close>

datatype curl_handle = Multi nat | Slist nat

record curl_world =
  cw_next :: nat
  cw_live :: "curl_handle set"
  g_CurlInitialized :: bool
  cw_global :: int

definition handle_number :: "curl_handle \<Rightarrow> nat" where
  "handle_number h = (case h of Multi n \<Rightarrow> n | Slist n \<Rightarrow> n)"

definition curl_alloc :: "curl_handle \<Rightarrow> curl_world \<Rightarrow> curl_world" where
  "curl_alloc h w = w\<lparr>cw_next := cw_next w + 1, cw_live := insert h (cw_live w)\<rparr>"

text \<open>\<^verbatim>\<open>curl_multi_cleanup\<close> and \<^verbatim>\<open>curl_slist_free_all\<close>, behind the test for a null pointer in \<open>curl_free\<close>.\<close>

definition curl_release :: "curl_handle \<Rightarrow> curl_world \<Rightarrow> curl_world option" where
  "curl_release h w = (if h \<in> cw_live w then Some (w\<lparr>cw_live := cw_live w - {h}\<rparr>) else None)"

definition curl_free :: "curl_handle option \<Rightarrow> curl_world \<Rightarrow> curl_world option" where
  "curl_free h w = (case h of None \<Rightarrow> Some w | Some h \<Rightarrow> curl_release h w)"

definition curl_multi_init :: "bool \<Rightarrow> curl_world \<Rightarrow> curl_handle option \<times> curl_world" where
  "curl_multi_init ok w =
     (if ok then (Some (Multi (cw_next w)), curl_alloc (Multi (cw_next w)) w) else (None, w))"

text \<open>Appending to the null pointer makes a list, appending to a list returns it; a failure leaves it alone.\<close>

definition curl_slist_append :: "bool \<Rightarrow> curl_handle option \<Rightarrow> curl_world \<Rightarrow> (curl_handle option \<times> curl_world) option" where
  "curl_slist_append ok s_List w =
     (case s_List of
        None \<Rightarrow> if ok then Some (Some (Slist (cw_next w)), curl_alloc (Slist (cw_next w)) w) else Some (None, w)
      | Some l \<Rightarrow> if l \<in> cw_live w then Some (if ok then Some l else None, w) else None)"

text \<open>\<open>cw_global\<close> counts the calls of \<^verbatim>\<open>curl_global_init\<close> that no \<^verbatim>\<open>curl_global_cleanup\<close> has undone.\<close>

definition CurlGlobalManager_Initialize :: "bool \<Rightarrow> curl_world \<Rightarrow> bool \<times> curl_world" where
  "CurlGlobalManager_Initialize ok w =
     (if \<not> g_CurlInitialized w then
        if \<not> ok then (False, w) else (True, w\<lparr>g_CurlInitialized := True, cw_global := cw_global w + 1\<rparr>)
      else (True, w))"

definition CurlGlobalManager_dtor :: "curl_world \<Rightarrow> curl_world" where
  "CurlGlobalManager_dtor w =
     (if g_CurlInitialized w then w\<lparr>g_CurlInitialized := False, cw_global := cw_global w - 1\<rparr> else w)"

section \<open>The object and its operations\<close>

record doh_client =
  client :: DnsOverHttps
  m_MultiHandle :: "curl_handle option"
  m_PostHeaders :: "curl_handle option"
  m_GetHeaders :: "curl_handle option"

definition multi_error :: cpp_error where "multi_error = Runtime_error ''Failed to create CURL multi handle''"
definition headers_error :: cpp_error where "headers_error = Runtime_error ''Failed to build CURL headers''"

definition InitMultiHandle ::
  "bool \<times> bool \<times> bool \<times> bool \<Rightarrow> doh_client \<Rightarrow> curl_world \<Rightarrow> (cpp_error option \<times> doh_client \<times> curl_world) option" where
  "InitMultiHandle oks c w =
     (let (multi_ok, tmp_ok, post_ok, get_ok) = oks;
          (h, w) = curl_multi_init multi_ok w;
          c = c\<lparr>m_MultiHandle := h\<rparr>
      in case h of
           None \<Rightarrow> Some (Some multi_error, c, w)
         | Some _ \<Rightarrow> do {
             (s_Tmp, w) \<leftarrow> curl_slist_append tmp_ok None w;
             if s_Tmp = None then do {
               w \<leftarrow> curl_free (m_MultiHandle c) w;
               Some (Some headers_error, c\<lparr>m_MultiHandle := None\<rparr>, w)
             } else do {
               (h, w) \<leftarrow> curl_slist_append post_ok s_Tmp w;
               let c = c\<lparr>m_PostHeaders := h\<rparr>;
               if h = None then do {
                 w \<leftarrow> curl_free s_Tmp w;
                 w \<leftarrow> curl_free (m_MultiHandle c) w;
                 Some (Some headers_error, c\<lparr>m_MultiHandle := None\<rparr>, w)
               } else do {
                 (h, w) \<leftarrow> curl_slist_append get_ok None w;
                 let c = c\<lparr>m_GetHeaders := h\<rparr>;
                 if h = None then do {
                   w \<leftarrow> curl_free (m_PostHeaders c) w;
                   w \<leftarrow> curl_free (m_MultiHandle c) w;
                   Some (Some headers_error, c\<lparr>m_PostHeaders := None, m_MultiHandle := None\<rparr>, w)
                 } else Some (None, c, w)
               }
             }
           })"

definition CleanupMultiHandle :: "doh_client \<Rightarrow> curl_world \<Rightarrow> (doh_client \<times> curl_world) option" where
  "CleanupMultiHandle c w = do {
     w \<leftarrow> curl_free (m_PostHeaders c) w;
     w \<leftarrow> curl_free (m_GetHeaders c) w;
     w \<leftarrow> curl_free (m_MultiHandle c) w;
     Some (c\<lparr>m_PostHeaders := None, m_GetHeaders := None, m_MultiHandle := None\<rparr>, w)
   }"

text \<open>
  The constructor. The settings are those of \<open>DnsOverHttps_ctor\<close>, whose last step is \<open>InitMultiHandle\<close>; an exception
  in the constructor means that there is no object and that the destructor is not run.
\<close>

record client_arguments =
  arg_Readable :: "string \<Rightarrow> bool"
  arg_Useragent :: string
  arg_Resolvers :: "string list"
  arg_CacertPath :: string
  arg_DohTimeoutMs :: int

definition doh_client_ctor ::
  "bool \<Rightarrow> bool \<times> bool \<times> bool \<times> bool \<Rightarrow> client_arguments \<Rightarrow> curl_world \<Rightarrow> ((cpp_error + doh_client) \<times> curl_world) option" where
  "doh_client_ctor global_ok oks args w =
     (let (ok, w) = CurlGlobalManager_Initialize global_ok w
      in case DnsOverHttps_ctor (ok, True) (arg_Readable args) (arg_Useragent args) (arg_Resolvers args)
                (arg_CacertPath args) (arg_DohTimeoutMs args) of
           Inl e \<Rightarrow> Some (Inl e, w)
         | Inr d \<Rightarrow> do {
             (e, c, w) \<leftarrow> InitMultiHandle oks \<lparr>client = d, m_MultiHandle = None, m_PostHeaders = None, m_GetHeaders = None\<rparr> w;
             Some (case e of None \<Rightarrow> Inr c | Some e \<Rightarrow> Inl e, w)
           })"

text \<open>What a move leaves behind: null handles, and the strings and the vector empty, as the usual libraries leave them.\<close>

definition moved_from :: "doh_client \<Rightarrow> doh_client" where
  "moved_from other =
     other\<lparr>client := (client other)\<lparr>doh_Resolvers := [], doh_Useragent := [], doh_CacertPath := [], doh_MultiHandle := False\<rparr>,
           m_MultiHandle := None, m_PostHeaders := None, m_GetHeaders := None\<rparr>"

definition move_ctor :: "doh_client \<Rightarrow> doh_client \<times> doh_client" where
  "move_ctor other = (other, moved_from other)"

text \<open>The assignment, between different objects or (\<open>same\<close>) of an object to itself; the fields are those of \<open>other\<close>.\<close>

definition move_assign ::
  "bool \<Rightarrow> doh_client \<Rightarrow> doh_client \<Rightarrow> curl_world \<Rightarrow> (doh_client \<times> doh_client \<times> curl_world) option" where
  "move_assign same this other w =
     (if \<not> same then do {
        (this, w) \<leftarrow> CleanupMultiHandle this w;
        Some (this\<lparr>client := client other, m_MultiHandle := m_MultiHandle other, m_PostHeaders := m_PostHeaders other,
                   m_GetHeaders := m_GetHeaders other\<rparr>, moved_from other, w)
      } else Some (this, other, w))"

section \<open>Certificates of the console builds\<close>

text \<open>
  There \<^verbatim>\<open>CacertPath\<close> also reads the file into \<^verbatim>\<open>m_CacertContent_\<close>; the state is the pair of path and content, and
  \<open>file\<close> what the path can be read as. A handle gets the content or the bundle that is compiled in.
\<close>

definition CacertPath_console :: "(string \<Rightarrow> bytes option) \<Rightarrow> string \<Rightarrow> string \<times> bytes \<Rightarrow> string \<times> bytes" where
  "CacertPath_console file p_Path s =
     (let (m_CacertPath, m_CacertContent) = s
      in if p_Path = [] then ([], [])
         else if p_Path = m_CacertPath then s
         else case file p_Path of
                None \<Rightarrow> ([], [])
              | Some content \<Rightarrow> if content = [] then ([], content) else (p_Path, content))"

definition cert_blob :: "bytes \<Rightarrow> string \<times> bytes \<Rightarrow> bytes" where
  "cert_blob g_CacertBundle s = (if snd s \<noteq> [] then snd s else g_CacertBundle)"

text \<open>A path is stored exactly with a content, so that a handle never gets an empty bundle, and the path tells which.\<close>

lemma cert_blob_matches_path:
  assumes "fst s = [] \<longleftrightarrow> snd s = []" and t: "t = foldl (\<lambda>s p. CacertPath_console file p s) s ps"
  shows "(fst t = [] \<longleftrightarrow> snd t = []) \<and> cert_blob bundle t = (if fst t = [] then bundle else snd t)"
proof -
  have "fst t = [] \<longleftrightarrow> snd t = []"
    unfolding t using assms(1)
    by (induction ps arbitrary: s) (auto simp: CacertPath_console_def split: prod.splits option.splits)
  then show ?thesis by (simp add: cert_blob_def)
qed

section \<open>Programs over objects\<close>

text \<open>The objects of a program by name. An operation that names no such object cannot be written; it is left out.\<close>

datatype client_op =
    Construct nat bool "bool \<times> bool \<times> bool \<times> bool" client_arguments
  | Move_construct nat nat
  | Move_assign nat nat
  | Destroy nat

type_synonym client_state = "(nat \<rightharpoonup> doh_client) \<times> curl_world"

definition client_step :: "client_op \<Rightarrow> client_state \<Rightarrow> client_state option" where
  "client_step op s =
     (let (os, w) = s
      in case op of
           Construct i global_ok oks args \<Rightarrow>
             if os i \<noteq> None then Some s
             else do {
               (r, w) \<leftarrow> doh_client_ctor global_ok oks args w;
               Some (case r of Inl _ \<Rightarrow> os | Inr c \<Rightarrow> os(i \<mapsto> c), w)
             }
         | Move_construct i j \<Rightarrow>
             (case (os i, os j) of
                (None, Some other) \<Rightarrow> (let (c, other) = move_ctor other in Some (os(j \<mapsto> other, i \<mapsto> c), w))
              | _ \<Rightarrow> Some s)
         | Move_assign i j \<Rightarrow>
             (case (os i, os j) of
                (Some this, Some other) \<Rightarrow> do {
                  (this, other, w) \<leftarrow> move_assign (i = j) this other w;
                  Some (os(j \<mapsto> other, i \<mapsto> this), w)
                }
              | _ \<Rightarrow> Some s)
         | Destroy i \<Rightarrow>
             (case os i of
                Some c \<Rightarrow> do { (c, w) \<leftarrow> CleanupMultiHandle c w; Some (os(i := None), w) }
              | None \<Rightarrow> Some s))"

primrec run_clients :: "client_op list \<Rightarrow> client_state \<Rightarrow> client_state option" where
  "run_clients [] s = Some s"
| "run_clients (op # ops) s = do { s \<leftarrow> client_step op s; run_clients ops s }"

definition curl_start :: client_state where
  "curl_start = (Map.empty, \<lparr>cw_next = 0, cw_live = {}, g_CurlInitialized = False, cw_global = 0\<rparr>)"

section \<open>The ownership invariant\<close>

definition owned :: "doh_client \<Rightarrow> curl_handle set" where
  "owned c = set_option (m_MultiHandle c) \<union> set_option (m_PostHeaders c) \<union> set_option (m_GetHeaders c)"

text \<open>An object holds all three handles, which differ, or none.\<close>

definition intact :: "doh_client \<Rightarrow> bool" where
  "intact c \<longleftrightarrow>
     (case (m_MultiHandle c, m_PostHeaders c, m_GetHeaders c) of
        (Some m, Some p, Some g) \<Rightarrow> doh_MultiHandle (client c) \<and> distinct [m, p, g]
      | (None, None, None) \<Rightarrow> \<not> doh_MultiHandle (client c)
      | _ \<Rightarrow> False)"

definition live_ok :: "curl_world \<Rightarrow> bool" where
  "live_ok w \<longleftrightarrow> (\<forall>h\<in>cw_live w. handle_number h < cw_next w) \<and> cw_global w = (if g_CurlInitialized w then 1 else 0)"

definition owns :: "(nat \<rightharpoonup> doh_client) \<Rightarrow> nat \<Rightarrow> curl_handle \<Rightarrow> bool" where
  "owns os i h \<longleftrightarrow> (case os i of None \<Rightarrow> False | Some c \<Rightarrow> h \<in> owned c)"

definition owners :: "client_state \<Rightarrow> bool" where
  "owners s \<longleftrightarrow>
     (\<forall>i c. fst s i = Some c \<longrightarrow> intact c) \<and>
     (\<forall>h. h \<in> cw_live (snd s) \<longleftrightarrow> (\<exists>i. owns (fst s) i h)) \<and>
     (\<forall>i j h. owns (fst s) i h \<longrightarrow> owns (fst s) j h \<longrightarrow> i = j) \<and>
     live_ok (snd s) \<and> (fst s \<noteq> Map.empty \<longrightarrow> g_CurlInitialized (snd s))"

lemma ownersI:
  assumes "\<And>i c. os i = Some c \<Longrightarrow> intact c" and "\<And>h. h \<in> cw_live w \<longleftrightarrow> (\<exists>i. owns os i h)"
    and "\<And>i j h. owns os i h \<Longrightarrow> owns os j h \<Longrightarrow> i = j" and "live_ok w" and "os \<noteq> Map.empty \<Longrightarrow> g_CurlInitialized w"
  shows "owners (os, w)"
  using assms unfolding owners_def fst_conv snd_conv by blast

lemma ownersD:
  assumes "owners (os, w)"
  shows "\<And>i c. os i = Some c \<Longrightarrow> intact c" and "\<And>h. h \<in> cw_live w \<longleftrightarrow> (\<exists>i. owns os i h)"
    and "\<And>i j h. owns os i h \<Longrightarrow> owns os j h \<Longrightarrow> i = j" and "live_ok w" and "os \<noteq> Map.empty \<Longrightarrow> g_CurlInitialized w"
  using assms unfolding owners_def fst_conv snd_conv by blast+

lemma owns_update [simp]:
  "owns (os(i \<mapsto> c)) k h = (if k = i then h \<in> owned c else owns os k h)"
  "owns (os(i := None)) k h = (k \<noteq> i \<and> owns os k h)"
  by (simp_all add: owns_def)

lemma owns_object: "os i = Some c \<Longrightarrow> owns os i h \<longleftrightarrow> h \<in> owned c"
  by (simp add: owns_def)

lemma intact_cases:
  assumes "intact c"
  obtains m p g where "m_MultiHandle c = Some m" "m_PostHeaders c = Some p" "m_GetHeaders c = Some g"
      "distinct [m, p, g]" "doh_MultiHandle (client c)" "owned c = {m, p, g}"
    | "m_MultiHandle c = None" "m_PostHeaders c = None" "m_GetHeaders c = None" "\<not> doh_MultiHandle (client c)" "owned c = {}"
  using assms by (auto simp: intact_def owned_def split: option.splits)

text \<open>Cleaning up an object whose handles are live releases exactly those.\<close>

lemma CleanupMultiHandle_releases:
  assumes "intact c" and "owned c \<subseteq> cw_live w"
  shows "CleanupMultiHandle c w =
    Some (c\<lparr>m_PostHeaders := None, m_GetHeaders := None, m_MultiHandle := None\<rparr>, w\<lparr>cw_live := cw_live w - owned c\<rparr>)"
  using assms(1)
proof (cases rule: intact_cases)
  case (1 m p g)
  moreover have "cw_live w - {p} - {g} - {m} = cw_live w - {m, p, g}" by auto
  ultimately show ?thesis
    using assms(2) by (auto simp: CleanupMultiHandle_def curl_free_def curl_release_def)
qed (simp add: CleanupMultiHandle_def curl_free_def)

text \<open>Initialisation either gives three new handles or fails and leaves the live handles as they were.\<close>

lemma InitMultiHandle_cases:
  assumes "live_ok w" and "m_PostHeaders c = None" and "m_GetHeaders c = None" and "doh_MultiHandle (client c)"
  obtains e c' w' where "InitMultiHandle oks c w = Some (Some e, c', w')" "cw_live w' = cw_live w" "live_ok w'"
      "g_CurlInitialized w' = g_CurlInitialized w"
    | c' w' where "InitMultiHandle oks c w = Some (None, c', w')" "intact c'" "owned c' \<inter> cw_live w = {}"
      "cw_live w' = cw_live w \<union> owned c'" "live_ok w'" "g_CurlInitialized w' = g_CurlInitialized w"
proof -
  obtain a b p g where oks: "oks = (a, b, p, g)" by (cases oks)
  let ?n = "cw_next w"
  have fresh: "Multi k \<notin> cw_live w" "Slist k \<notin> cw_live w" if "?n \<le> k" for k
    using assms(1) that by (auto simp: live_ok_def handle_number_def)
  have lower: "\<And>h k. h \<in> cw_live w \<Longrightarrow> ?n \<le> k \<Longrightarrow> handle_number h < k"
    using assms(1) by (auto simp: live_ok_def intro: less_le_trans)
  note defs = oks InitMultiHandle_def curl_multi_init_def curl_slist_append_def curl_free_def curl_release_def
    curl_alloc_def
  show thesis
  proof (cases "a \<and> b \<and> p \<and> g")
    case True
    let ?c = "c\<lparr>m_MultiHandle := Some (Multi ?n), m_PostHeaders := Some (Slist (?n + 1)), m_GetHeaders := Some (Slist (?n + 2))\<rparr>"
    let ?w = "w\<lparr>cw_next := ?n + 3, cw_live := cw_live w \<union> owned ?c\<rparr>"
    have "InitMultiHandle oks c w = Some (None, ?c, ?w)"
      using True by (auto simp: defs owned_def numeral_3_eq_3 intro: arg_cong [where f = "\<lambda>x. cw_live_update (\<lambda>_. x) _"])
    moreover have "live_ok ?w"
      using assms(1) lower by (auto simp: live_ok_def owned_def handle_number_def)
    ultimately show thesis
      using that(2) [of ?c ?w] assms(4) fresh by (auto simp: intact_def owned_def)
  next
    case False
    have "\<exists>e c' k. InitMultiHandle oks c w = Some (Some e, c', w\<lparr>cw_next := ?n + k\<rparr>)"
      using False fresh
      by (cases a; cases b; cases p; cases g)
        (auto simp: defs insert_Diff_if intro: exI [where x = 0] exI [where x = 1] exI [where x = 2])
    then obtain e c' k where i: "InitMultiHandle oks c w = Some (Some e, c', w\<lparr>cw_next := ?n + k\<rparr>)" by blast
    have "live_ok (w\<lparr>cw_next := ?n + k\<rparr>)" using assms(1) by (auto simp: live_ok_def)
    with i show thesis using that(1) by simp
  qed
qed

lemma doh_client_ctor_cases:
  assumes "live_ok w"
  obtains r w' where "doh_client_ctor ok oks args w = Some (Inl r, w')" "cw_live w' = cw_live w" "live_ok w'"
      "g_CurlInitialized w \<longrightarrow> g_CurlInitialized w'"
    | c w' where "doh_client_ctor ok oks args w = Some (Inr c, w')" "intact c" "owned c \<inter> cw_live w = {}"
      "cw_live w' = cw_live w \<union> owned c" "live_ok w'" "g_CurlInitialized w'"
proof -
  obtain k w1 where g: "CurlGlobalManager_Initialize ok w = (k, w1)" by (cases "CurlGlobalManager_Initialize ok w")
  then have w1: "cw_live w1 = cw_live w" "live_ok w1" "k \<longrightarrow> g_CurlInitialized w1" "g_CurlInitialized w \<longrightarrow> g_CurlInitialized w1"
    using assms by (auto simp: CurlGlobalManager_Initialize_def live_ok_def split: if_splits)
  show thesis
  proof (cases "DnsOverHttps_ctor (k, True) (arg_Readable args) (arg_Useragent args) (arg_Resolvers args)
      (arg_CacertPath args) (arg_DohTimeoutMs args)")
    case (Inl e)
    then show thesis using that(1) w1 by (simp add: doh_client_ctor_def g)
  next
    case (Inr d)
    then have d: "doh_MultiHandle d" "k"
      by (auto simp: DnsOverHttps_ctor_def Let_def split: sum.splits if_splits)
    let ?c = "\<lparr>client = d, m_MultiHandle = None, m_PostHeaders = None, m_GetHeaders = None\<rparr>"
    show thesis
    proof (rule InitMultiHandle_cases [of w1 ?c oks])
      show "live_ok w1" by (rule w1)
      show "doh_MultiHandle (client ?c)" using d by simp
    qed (use that w1 d Inr in \<open>auto simp: doh_client_ctor_def g\<close>)
  qed
qed

text \<open>The invariant for a map whose live handles are given, and its changes.\<close>

lemma owners_construct:
  assumes "owners (os, w)" and "os i = None" and "intact c" and "owned c \<inter> cw_live w = {}"
    and "cw_live w' = cw_live w \<union> owned c" and "live_ok w'" and "g_CurlInitialized w'"
  shows "owners (os(i \<mapsto> c), w')"
proof -
  have "\<not> owns os i h" for h using assms(2) by (simp add: owns_def)
  then show ?thesis using assms unfolding owners_def by (simp add: disjoint_iff) metis
qed

lemma owners_live:
  assumes "owners (os, w)" and "os i = Some c"
  shows "intact c \<and> owned c \<subseteq> cw_live w"
proof -
  have "h \<in> cw_live w" if "h \<in> owned c" for h
    using assms(1) that owns_object [of os i c h, OF assms(2)] by (auto simp: owners_def)
  then show ?thesis using assms by (auto simp: owners_def)
qed

lemma owners_cleaned:
  assumes "owners (os, w)" and "os i = Some c" and "\<forall>d. x = Some d \<longrightarrow> intact d \<and> owned d = {}"
  shows "owners (os(i := x), w\<lparr>cw_live := cw_live w - owned c\<rparr>)"
proof -
  have "owns (os(i := x)) k h \<longleftrightarrow> k \<noteq> i \<and> owns os k h" for k h
    using assms(3) by (cases x) auto
  moreover have "os \<noteq> Map.empty" using assms(2) by auto
  moreover have "live_ok (w\<lparr>cw_live := cw_live w - owned c\<rparr>)" using assms(1) by (auto simp: owners_def live_ok_def)
  ultimately show ?thesis
    using assms(1,3) owns_object [of os i c, OF assms(2)] unfolding owners_def by auto metis
qed

lemma owned_moved_from [simp]: "owned (moved_from c) = {}" "intact (moved_from c)"
  by (simp_all add: owned_def moved_from_def intact_def)

lemma owners_move:
  assumes "owners (os, w)" and "os j = Some c" and "i \<noteq> j" and "\<forall>d. os i = Some d \<longrightarrow> owned d = {}"
  shows "owners (os(j \<mapsto> moved_from c, i \<mapsto> c), w)"
proof -
  let ?os = "os(j \<mapsto> moved_from c, i \<mapsto> c)"
  have none: "\<not> owns os i h" for h using assms(4) by (auto simp: owns_def split: option.split)
  have own: "owns ?os k h \<longleftrightarrow> (if k = i then owns os j h else k \<noteq> j \<and> owns os k h)" for k h
    using owns_object [of os j c, OF assms(2)] by simp
  have ex: "(\<exists>k. owns ?os k h) \<longleftrightarrow> (\<exists>k. owns os k h)" for h
    unfolding own using none assms(3) by metis
  have unique: "k = l" if "owns ?os k h" "owns ?os l h" for k l h
    using that ownersD(3) [OF assms(1), of k h l] ownersD(3) [OF assms(1), of j h l] ownersD(3) [OF assms(1), of k h j]
    unfolding own by (simp split: if_splits)
  show ?thesis
  proof (rule ownersI)
    show "intact d" if "?os k = Some d" for k d
      using that ownersD(1) [OF assms(1)] assms(2) by (auto split: if_splits)
    show "h \<in> cw_live w \<longleftrightarrow> (\<exists>k. owns ?os k h)" for h
      by (simp only: ex ownersD(2) [OF assms(1)])
    show "k = l" if "owns ?os k h" "owns ?os l h" for k l h using that by (rule unique)
    show "live_ok w" by (rule ownersD(4) [OF assms(1)])
    show "g_CurlInitialized w" by (rule ownersD(5) [OF assms(1)]) (use assms(2) in auto)
  qed
qed

lemma client_step_owners:
  assumes "owners s"
  shows "\<exists>t. client_step op s = Some t \<and> owners t"
proof -
  obtain os w where s: "s = (os, w)" by (cases s)
  have live: "live_ok w" using assms by (simp add: s owners_def)
  show ?thesis
  proof (cases op)
    case (Construct i ok oks args)
    show ?thesis
    proof (cases "os i")
      case None
      show ?thesis
      proof (rule doh_client_ctor_cases [OF live, of ok oks args])
        fix r w'
        assume "doh_client_ctor ok oks args w = Some (Inl r, w')" "cw_live w' = cw_live w" "live_ok w'"
          "g_CurlInitialized w \<longrightarrow> g_CurlInitialized w'"
        then show ?thesis using assms by (auto simp: client_step_def s Construct None owners_def)
      next
        fix c w'
        assume "doh_client_ctor ok oks args w = Some (Inr c, w')" "intact c" "owned c \<inter> cw_live w = {}"
          "cw_live w' = cw_live w \<union> owned c" "live_ok w'" "g_CurlInitialized w'"
        then show ?thesis
          using owners_construct [of os w i c w'] assms by (simp add: client_step_def s Construct None)
      qed
    qed (use assms in \<open>simp add: client_step_def s Construct\<close>)
  next
    case (Move_construct i j)
    then show ?thesis
      using assms owners_move [of os w j _ i] by (cases "i = j") (auto simp: client_step_def s move_ctor_def split: option.split)
  next
    case (Move_assign i j)
    show ?thesis
    proof (cases "\<exists>c d. os i = Some c \<and> os j = Some d \<and> i \<noteq> j")
      case True
      then obtain c d where os: "os i = Some c" "os j = Some d" and ij: "i \<noteq> j" by blast
      let ?w = "w\<lparr>cw_live := cw_live w - owned c\<rparr>"
      have clean: "CleanupMultiHandle c w =
          Some (c\<lparr>m_PostHeaders := None, m_GetHeaders := None, m_MultiHandle := None\<rparr>, ?w)"
        using CleanupMultiHandle_releases owners_live [OF assms [unfolded s] os(1)] by blast
      have "owners (os(i \<mapsto> moved_from c), ?w)"
        using owners_cleaned [OF assms [unfolded s] os(1), of "Some (moved_from c)"] by simp
      from owners_move [OF this, of j d i] os ij have "owners (os(j \<mapsto> moved_from d, i \<mapsto> d), ?w)"
        by (simp add: fun_upd_twist [of i j])
      moreover have eq: "c\<lparr>client := client d, m_MultiHandle := m_MultiHandle d, m_PostHeaders := m_PostHeaders d,
          m_GetHeaders := m_GetHeaders d\<rparr> = d"
        by simp
      ultimately show ?thesis using os ij clean by (simp add: client_step_def s Move_assign move_assign_def eq)
    next
      case False
      then show ?thesis
        using assms by (auto simp: client_step_def s Move_assign move_assign_def fun_upd_idem split: option.split)
    qed
  next
    case (Destroy i)
    show ?thesis
    proof (cases "os i")
      case (Some c)
      then have "CleanupMultiHandle c w =
          Some (c\<lparr>m_PostHeaders := None, m_GetHeaders := None, m_MultiHandle := None\<rparr>, w\<lparr>cw_live := cw_live w - owned c\<rparr>)"
        using CleanupMultiHandle_releases owners_live [OF assms [unfolded s] Some] by blast
      then show ?thesis using owners_cleaned [OF assms [unfolded s] Some, of None] by (simp add: client_step_def s Destroy Some)
    qed (use assms in \<open>simp add: client_step_def s Destroy\<close>)
  qed
qed

lemma run_clients_owners: "owners s \<Longrightarrow> \<exists>t. run_clients ops s = Some t \<and> owners t"
proof (induction ops arbitrary: s)
  case (Cons op ops)
  then show ?case using client_step_owners [OF Cons.prems, of op] by fastforce
qed simp

lemma owners_start: "owners curl_start"
  by (simp add: curl_start_def owners_def owns_def live_ok_def)

section \<open>Properties\<close>

text \<open>C24: the resources of libcurl are managed correctly. Whatever objects a program constructs, moves, assigns and
  destroys, and whichever calls of libcurl fail, no handle is released twice and no list is used after its release;
  the live handles are exactly those of the objects, each object's its own, so that none are left when all objects are
  gone; libcurl is initialised once, and while an object exists; and a query through a moved-from object fails without
  touching the output.\<close>

theorem curl_handles_owned:
  "\<exists>os w. run_clients ops curl_start = Some (os, w) \<and>
     cw_live w = (\<Union>c\<in>ran os. owned c) \<and>
     (\<forall>i j c d. os i = Some c \<longrightarrow> os j = Some d \<longrightarrow> i \<noteq> j \<longrightarrow> owned c \<inter> owned d = {}) \<and>
     cw_global w = (if g_CurlInitialized w then 1 else 0) \<and> (os \<noteq> Map.empty \<longrightarrow> g_CurlInitialized w) \<and>
     (\<forall>c\<in>ran os. card (owned c) = (if m_MultiHandle c = None then 0 else 3)) \<and>
     (\<forall>c\<in>ran os. m_MultiHandle c = None \<longrightarrow> n > 0 \<longrightarrow>
        DnsOverHttps_Resolve env (client c) (Some data) n out net = (CurlError, out, net))"
proof -
  obtain os w where r: "run_clients ops curl_start = Some (os, w)" and o: "owners (os, w)"
    using run_clients_owners [OF owners_start, of ops] by fastforce
  have intact: "intact c" if "c \<in> ran os" for c using o that by (auto simp: owners_def ran_def)
  have "card (owned c) = (if m_MultiHandle c = None then 0 else 3)" if "c \<in> ran os" for c
    using intact [OF that] by (cases rule: intact_cases) auto
  moreover have "DnsOverHttps_Resolve env (client c) (Some data) n out net = (CurlError, out, net)"
    if "c \<in> ran os" "m_MultiHandle c = None" "n > 0" for c
    using intact [OF that(1)] that(2,3) by (cases rule: intact_cases) (auto simp: DnsOverHttps_Resolve_def)
  moreover have "cw_live w = (\<Union>c\<in>ran os. owned c)"
  proof -
    have "(\<exists>i. owns os i h) \<longleftrightarrow> (\<exists>c\<in>ran os. h \<in> owned c)" for h
      by (auto simp: owns_def ran_def split: option.splits)
    then show ?thesis using o by (auto simp: owners_def)
  qed
  moreover have "owned c \<inter> owned d = {}" if "os i = Some c" "os j = Some d" "i \<noteq> j" for i j c d
    using o that owns_object [of os i c, OF that(1)] owns_object [of os j d, OF that(2)] by (auto simp: owners_def)
  ultimately show ?thesis using r o by (auto simp: owners_def live_ok_def)
qed

definition sample_arguments :: client_arguments where
  "sample_arguments = \<lparr>arg_Readable = (\<lambda>_. True), arg_Useragent = ''agent'', arg_Resolvers = [''https://resolver''],
     arg_CacertPath = [], arg_DohTimeoutMs = 5000\<rparr>"

theorem curl_handles_owned_witness:
  "\<exists>os w c. run_clients [Construct 0 True (True, True, True, True) sample_arguments, Move_construct 1 0] curl_start = Some (os, w) \<and>
     os 0 = Some c \<and> cw_live w = {Multi 0, Slist 1, Slist 2} \<and>
     DnsOverHttps_Resolve sample_env (client c) (Some [1]) 1 [] 0 = (CurlError, [], 0)"
proof -
  let ?ops = "[Construct 0 True (True, True, True, True) sample_arguments, Move_construct 1 0]"
  obtain os w where r: "run_clients ?ops curl_start = Some (os, w)"
    and q: "\<forall>c\<in>ran os. m_MultiHandle c = None \<longrightarrow> (1::nat) > 0 \<longrightarrow>
      DnsOverHttps_Resolve sample_env (client c) (Some [1]) 1 [] 0 = (CurlError, [], 0)"
    using curl_handles_owned [of ?ops 1 sample_env "[1]" "[]" 0] by blast
  from r obtain c where "os 0 = Some c" "m_MultiHandle c = None" "cw_live w = {Multi 0, Slist 1, Slist 2}"
    by (auto simp: insert_commute numeral_2_eq_2 curl_start_def client_step_def doh_client_ctor_def CurlGlobalManager_Initialize_def DnsOverHttps_ctor_def
        DnsOverHttps_Useragent_def DnsOverHttps_Resolvers_def DnsOverHttps_DohTimeoutMs_def sample_arguments_def
        InitMultiHandle_def curl_multi_init_def curl_slist_append_def curl_alloc_def move_ctor_def moved_from_def)
  moreover from this q have "DnsOverHttps_Resolve sample_env (client c) (Some [1]) 1 [] 0 = (CurlError, [], 0)"
    by (auto intro: ranI)
  ultimately show ?thesis using r by blast
qed

end
