(* ===== verification/Ps_Process.thy ===== *)
theory Ps_Process
  imports Dns_Cache
begin

text \<open>
  Process control of the console build (\<^verbatim>\<open>src/main-ps.cc\<close>): before it starts, the program kills every other process of
  its name. \<^verbatim>\<open>sysctl\<close>, \<^verbatim>\<open>malloc\<close>, \<^verbatim>\<open>kqueue\<close>, \<^verbatim>\<open>kill\<close> and \<^verbatim>\<open>kevent\<close> are the fields of \<open>kernel\<close>, functions over an
  arbitrary world \<open>'w\<close>. The list of processes is read from a raw buffer; a read outside of it is undefined behaviour,
  an inner \<open>None\<close>. Both loops go on for as long as the kernel makes them, so that they are partial functions, whose
  \<open>None\<close> means that they do not return.
\<close>

section \<open>Finding a process\<close>

record 'w kernel =
  k_getpid :: int
  k_size :: "'w \<Rightarrow> nat option \<times> 'w"
  k_malloc :: "nat \<Rightarrow> 'w \<Rightarrow> bool \<times> 'w"
  k_list :: "nat \<Rightarrow> 'w \<Rightarrow> (bool + bytes) \<times> 'w"
  k_kqueue :: "'w \<Rightarrow> bool \<times> 'w"
  k_kill :: "int \<Rightarrow> 'w \<Rightarrow> bool \<times> 'w"
  k_kevent :: "int \<Rightarrow> 'w \<Rightarrow> int \<times> 'w"

text \<open>The attempts to read the list; a failure of the second \<^verbatim>\<open>sysctl\<close> tells whether it is \<^verbatim>\<open>ENOMEM\<close>.\<close>

primrec query_processes :: "nat \<Rightarrow> 'w kernel \<Rightarrow> 'w \<Rightarrow> bytes option \<times> 'w" where
  "query_processes 0 k w = (None, w)"
| "query_processes (Suc n) k w =
     (let (s_Len, w) = k_size k w
      in case s_Len of
           None \<Rightarrow> (None, w)
         | Some s_Len \<Rightarrow>
             if s_Len = 0 then (None, w)
             else
               let (s_Buffer, w) = k_malloc k s_Len w in
               if \<not> s_Buffer then (None, w)
               else
                 let (r, w) = k_list k s_Len w in
                 (case r of
                    Inr s_Buffer \<Rightarrow> (Some s_Buffer, w)
                  | Inl enomem \<Rightarrow> if \<not> enomem \<or> n = 0 then (None, w) else query_processes n k w))"

definition s_MaxRetries :: nat where "s_MaxRetries = 3"

definition read_int :: "bytes \<Rightarrow> int \<Rightarrow> int option" where
  "read_int s_Buffer p =
     (if 0 \<le> p \<and> p + 4 \<le> int (length s_Buffer) then Some (sint (load32 s_Buffer (nat p))) else None)"

text \<open>Whether \<^verbatim>\<open>strcmp\<close> finds the texts equal; it reads up to the first difference.\<close>

primrec strcmp_equal :: "string \<Rightarrow> bytes \<Rightarrow> bool option" where
  "strcmp_equal [] bs = (case bs of [] \<Rightarrow> None | b # _ \<Rightarrow> Some (b = 0))"
| "strcmp_equal (c # cs) bs =
     (case bs of [] \<Rightarrow> None | b # bs \<Rightarrow> if b = byte_of_char c then strcmp_equal cs bs else Some False)"

definition process_entry :: "string \<Rightarrow> bytes \<Rightarrow> int \<Rightarrow> (int \<times> int \<times> bool) option" where
  "process_entry p_ProcName s_Buffer l_Ptr =
     (case (read_int s_Buffer l_Ptr, read_int s_Buffer (l_Ptr + 72), strcmp_equal p_ProcName (drop (nat (l_Ptr + 447)) s_Buffer)) of
        (Some s_StructSize, Some s_KiPid, Some same) \<Rightarrow> Some (s_StructSize, s_KiPid, same)
      | _ \<Rightarrow> None)"

partial_function (option) find_process :: "string \<Rightarrow> int \<Rightarrow> bytes \<Rightarrow> int \<Rightarrow> int option option" where
  "find_process p_ProcName s_MyPid s_Buffer l_Ptr =
     (if l_Ptr < int (length s_Buffer) then
        (case process_entry p_ProcName s_Buffer l_Ptr of
           None \<Rightarrow> Some None
         | Some (s_StructSize, s_KiPid, same) \<Rightarrow>
             if same \<and> s_KiPid \<noteq> s_MyPid then Some (Some s_KiPid)
             else find_process p_ProcName s_MyPid s_Buffer (l_Ptr + s_StructSize))
      else Some (Some (-1)))"

definition GetPidFromProcName :: "'w kernel \<Rightarrow> string option \<Rightarrow> 'w \<Rightarrow> (int option \<times> 'w) option" where
  "GetPidFromProcName k p_ProcName w =
     (case p_ProcName of
        None \<Rightarrow> Some (Some (-1), w)
      | Some p_ProcName \<Rightarrow>
          (let (s_Buffer, w) = query_processes s_MaxRetries k w
           in case s_Buffer of
                None \<Rightarrow> Some (Some (-1), w)
              | Some s_Buffer \<Rightarrow> map_option (\<lambda>r. (r, w)) (find_process p_ProcName (k_getpid k) s_Buffer 0)))"

section \<open>Killing the processes of a name\<close>

partial_function (option) kill_loop :: "'w kernel \<Rightarrow> string \<Rightarrow> 'w \<Rightarrow> 'w option option" where
  "kill_loop k p_ProcName w =
     (case GetPidFromProcName k (Some p_ProcName) w of
        None \<Rightarrow> None
      | Some (None, w) \<Rightarrow> Some None
      | Some (Some s_ProcPid, w) \<Rightarrow>
          if s_ProcPid \<le> 0 then Some (Some w)
          else
            let (s_Kq, w) = k_kqueue k w in
            if \<not> s_Kq then Some (Some w)
            else
              let (s_Ret, w) = k_kill k s_ProcPid w in
              if \<not> s_Ret then Some (Some w)
              else let (s_Nev, w) = k_kevent k s_ProcPid w in kill_loop k p_ProcName w)"

definition KillProcByName :: "'w kernel \<Rightarrow> string option \<Rightarrow> 'w \<Rightarrow> 'w option option" where
  "KillProcByName k p_ProcName w = (case p_ProcName of None \<Rightarrow> Some (Some w) | Some p_ProcName \<Rightarrow> kill_loop k p_ProcName w)"

section \<open>What the kernel is relied on for\<close>

text \<open>
  A record of the list starts with its own length, has the process identifier at 72 and a terminated name at 447; these
  are the offsets that the code assumes.
\<close>

definition proc_pid :: "bytes \<Rightarrow> int" where
  "proc_pid r = sint (load32 r 72)"

definition proc_name :: "bytes \<Rightarrow> string" where
  "proc_name r = map char_of_byte (takeWhile (\<lambda>b. b \<noteq> 0) (drop 447 r))"

definition proc_wf :: "bytes \<Rightarrow> bool" where
  "proc_wf r \<longleftrightarrow> sint (load32 r 0) = int (length r) \<and> length r > 447 \<and> 0 \<in> set (drop 447 r)"

definition target :: "'w kernel \<Rightarrow> string \<Rightarrow> bytes \<Rightarrow> bool" where
  "target k name r \<longleftrightarrow> proc_name r = name \<and> proc_pid r \<noteq> k_getpid k"

text \<open>
  \<open>procs w\<close> are the records of the processes in \<open>w\<close>. Only a kill whose end is awaited changes them, and that process
  is gone then. Any call may fail.
\<close>

definition table_ok :: "string \<Rightarrow> bytes list \<Rightarrow> bool" where
  "table_ok name rs \<longleftrightarrow> list_all proc_wf rs \<and> (\<forall>r\<in>set rs. proc_name r = name \<longrightarrow> proc_pid r > 0)"

definition kernel_ok :: "'w kernel \<Rightarrow> ('w \<Rightarrow> bytes list) \<Rightarrow> bool" where
  "kernel_ok k procs \<longleftrightarrow>
     (\<forall>w. procs (snd (k_size k w)) = procs w) \<and> (\<forall>n w. procs (snd (k_malloc k n w)) = procs w) \<and>
     (\<forall>n w. procs (snd (k_list k n w)) = procs w) \<and> (\<forall>n w b. fst (k_list k n w) = Inr b \<longrightarrow> b = concat (procs w)) \<and>
     (\<forall>w. procs (snd (k_kqueue k w)) = procs w) \<and> (\<forall>p w. procs (snd (k_kill k p w)) = procs w) \<and>
     (\<forall>p w. procs (snd (k_kevent k p w)) = filter (\<lambda>r. proc_pid r \<noteq> p) (procs w))"

definition kernel_reliable :: "'w kernel \<Rightarrow> bool" where
  "kernel_reliable k \<longleftrightarrow>
     (\<forall>w. \<exists>n. fst (k_size k w) = Some (Suc n)) \<and> (\<forall>n w. fst (k_malloc k n w)) \<and>
     (\<forall>n w. \<exists>b. fst (k_list k n w) = Inr b) \<and> (\<forall>w. fst (k_kqueue k w)) \<and> (\<forall>p w. fst (k_kill k p w))"

section \<open>Lemmas\<close>

lemma byte_of_char_0: "byte_of_char c = 0 \<longleftrightarrow> c = CHR 0x00"
proof -
  have "char_of_byte 0 = CHR 0x00" by (simp add: char_of_byte_def char_of_def)
  then show ?thesis by (metis byte_of_char_of_byte char_of_byte_of_char)
qed

lemma strcmp_equal_name:
  "0 \<in> set bs \<Longrightarrow> CHR 0x00 \<notin> set cs \<Longrightarrow>
   strcmp_equal cs (bs @ rest) = Some (map char_of_byte (takeWhile (\<lambda>b. b \<noteq> 0) bs) = cs)"
proof (induction cs arbitrary: bs)
  case Nil
  then show ?case by (cases bs) auto
next
  case (Cons c cs)
  then obtain b bs' where bs: "bs = b # bs'" by (cases bs) auto
  have c: "byte_of_char c \<noteq> 0" using Cons.prems(2) by (auto simp: byte_of_char_0)
  show ?case
  proof (cases "b = byte_of_char c")
    case True
    then show ?thesis using Cons c bs by simp
  next
    case False
    then have "char_of_byte b \<noteq> c" by (metis byte_of_char_of_byte)
    then show ?thesis using False by (auto simp: bs)
  qed
qed

lemma process_entry_record:
  assumes "proc_wf r" and "CHR 0x00 \<notin> set name"
  shows "process_entry name (pre @ r @ post) (int (length pre)) = Some (int (length r), proc_pid r, proc_name r = name)"
proof -
  have len: "length r > 447" using assms(1) by (simp add: proc_wf_def)
  have i: "i + 4 \<le> length r \<Longrightarrow> load32 (pre @ r @ post) (length pre + i) = load32 r i" for i
    by (simp add: load32_def nth_append)
  have "strcmp_equal name (drop (nat (int (length pre) + 447)) (pre @ r @ post)) = Some (proc_name r = name)"
    using strcmp_equal_name [of "drop 447 r" name post] assms len by (simp add: nat_add_distrib proc_wf_def proc_name_def)
  then show ?thesis
    using i [of 0] i [of 72] len assms(1) by (simp add: process_entry_def read_int_def nat_add_distrib proc_wf_def proc_pid_def)
qed

text \<open>The walk finds the first other process of the name.\<close>

lemma find_process_records:
  assumes "list_all proc_wf rs" and "CHR 0x00 \<notin> set name"
  shows "find_process name me (pre @ concat rs) (int (length pre)) =
    Some (Some (case find (\<lambda>r. proc_name r = name \<and> proc_pid r \<noteq> me) rs of None \<Rightarrow> -1 | Some r \<Rightarrow> proc_pid r))"
  using assms(1)
proof (induction rs arbitrary: pre)
  case Nil
  then show ?case by (subst find_process.simps) simp
next
  case (Cons r rs)
  then have r: "proc_wf r" and len: "length r > 447" by (simp_all add: proc_wf_def)
  have "find_process name me ((pre @ r) @ concat rs) (int (length (pre @ r))) =
    Some (Some (case find (\<lambda>r. proc_name r = name \<and> proc_pid r \<noteq> me) rs of None \<Rightarrow> -1 | Some r \<Rightarrow> proc_pid r))"
    using Cons.IH [of "pre @ r"] Cons.prems by simp
  then show ?case
    using process_entry_record [OF r assms(2), of pre "concat rs"] len by (subst find_process.simps) (auto simp del: append_assoc simp: append_assoc [symmetric])
qed

lemma query_processes_kept:
  assumes "kernel_ok k procs"
  shows "query_processes n k w = (b, w') \<Longrightarrow>
    procs w' = procs w \<and> (b = None \<or> b = Some (concat (procs w))) \<and> (kernel_reliable k \<longrightarrow> n > 0 \<longrightarrow> b \<noteq> None)"
proof (induction n arbitrary: w)
  case (Suc n)
  obtain l w1 where 1: "k_size k w = (l, w1)" by fastforce
  have p1: "procs w1 = procs w" using assms 1 unfolding kernel_ok_def by (metis snd_conv)
  show ?case
  proof (cases "l = None \<or> l = Some 0")
    case True
    moreover have "kernel_reliable k \<Longrightarrow> False" using True 1 unfolding kernel_reliable_def by (metis fst_conv nat.distinct(1) option.distinct(1) option.inject)
    ultimately show ?thesis using Suc.prems 1 p1 by auto
  next
    case False
    then obtain n' where l: "l = Some n'" "n' \<noteq> 0" by auto
    obtain m w2 where 2: "k_malloc k n' w1 = (m, w2)" by fastforce
    have p2: "procs w2 = procs w" using assms 2 p1 unfolding kernel_ok_def by (metis snd_conv)
    show ?thesis
    proof (cases m)
      case False
      moreover have "kernel_reliable k \<Longrightarrow> False" using False 2 unfolding kernel_reliable_def by (metis fst_conv)
      ultimately show ?thesis using Suc.prems 1 l 2 p2 by auto
    next
      case True
      obtain r w3 where 3: "k_list k n' w2 = (r, w3)" by fastforce
      have p3: "procs w3 = procs w" using assms 3 p2 unfolding kernel_ok_def by (metis snd_conv)
      show ?thesis
      proof (cases r)
        case (Inl enomem)
        moreover have "kernel_reliable k \<Longrightarrow> False" using Inl 3 unfolding kernel_reliable_def by (metis fst_conv sum.distinct(1))
        ultimately show ?thesis using Suc.prems Suc.IH [of w3] 1 l 2 True 3 p3 by (auto split: if_splits)
      next
        case (Inr b')
        moreover have "b' = concat (procs w)" using assms 3 Inr p2 unfolding kernel_ok_def by (metis fst_conv)
        ultimately show ?thesis using Suc.prems 1 l 2 True 3 p3 by auto
      qed
    qed
  qed
qed simp

lemma GetPid_kept:
  assumes "kernel_ok k procs" and "table_ok name (procs w)" and "CHR 0x00 \<notin> set name"
  obtains w' where "procs w' = procs w"
    and "GetPidFromProcName k (Some name) w = Some (Some (-1), w')"
      "kernel_reliable k \<longrightarrow> filter (target k name) (procs w) = []"
  | w' r where "procs w' = procs w" and "GetPidFromProcName k (Some name) w = Some (Some (proc_pid r), w')"
      "r \<in> set (procs w)" "target k name r" "proc_pid r > 0"
proof -
  obtain b w' where q: "query_processes s_MaxRetries k w = (b, w')" by fastforce
  note kept = query_processes_kept [OF assms(1) q]
  show thesis
  proof (cases b)
    case None
    then show thesis using kept q by (intro that(1) [of w']) (simp_all add: GetPidFromProcName_def s_MaxRetries_def)
  next
    case (Some _)
    let ?f = "find (\<lambda>r. proc_name r = name \<and> proc_pid r \<noteq> k_getpid k) (procs w)"
    have g: "GetPidFromProcName k (Some name) w = Some (Some (case ?f of None \<Rightarrow> -1 | Some r \<Rightarrow> proc_pid r), w')"
      using Some kept find_process_records [of "procs w" name "k_getpid k" "[]"] assms(2,3)
      by (simp add: GetPidFromProcName_def q table_ok_def)
    show thesis
    proof (cases ?f)
      case None
      then have "filter (target k name) (procs w) = []" by (auto simp: find_None_iff target_def filter_empty_conv)
      with None g kept show thesis by (intro that(1)) simp_all
    next
      case (Some r)
      then have "r \<in> set (procs w)" "target k name r" by (auto simp: find_Some_iff target_def)
      moreover from this have "proc_pid r > 0" using assms(2) by (auto simp: table_ok_def target_def)
      ultimately show thesis using that(2) [of w' r] kept g Some by simp
    qed
  qed
qed

text \<open>One round of the loop: a call fails, or the process that was found is gone.\<close>

lemma kill_loop_round:
  assumes "kernel_ok k procs" and "GetPidFromProcName k (Some name) w = Some (Some p, w1)" and "procs w1 = procs w" and "p > 0"
  obtains w' where "kill_loop k name w = Some (Some w')" "procs w' = procs w" "\<not> kernel_reliable k"
  | w' where "kill_loop k name w = kill_loop k name w'" "procs w' = filter (\<lambda>r. proc_pid r \<noteq> p) (procs w)"
proof -
  obtain kq w2 where 2: "k_kqueue k w1 = (kq, w2)" by fastforce
  obtain ret w3 where 3: "k_kill k p w2 = (ret, w3)" by fastforce
  obtain nev w4 where 4: "k_kevent k p w3 = (nev, w4)" by fastforce
  have procs: "procs w2 = procs w" "procs w3 = procs w" "procs w4 = filter (\<lambda>r. proc_pid r \<noteq> p) (procs w)"
    using assms(1,3) 2 3 4 unfolding kernel_ok_def by (metis snd_conv)+
  note loop = kill_loop.simps [of k name w] assms(2) assms(4) [folded not_le] 2 3 4
  show thesis
  proof (cases "kq \<and> ret")
    case True
    then show thesis using that(2) [of w4] procs(3) by (simp add: loop)
  next
    case False
    then have "\<not> kernel_reliable k" using 2 3 unfolding kernel_reliable_def by (metis fst_conv)
    then show thesis using False that(1) [of "if kq then w3 else w2"] procs by (simp add: loop split: if_splits)
  qed
qed

text \<open>Without that assumption the loops need not end: a process that never goes away is killed for ever, and a record
  of length 0 is read for ever.\<close>

lemma kill_loop_forever:
  assumes "\<And>w. I w \<Longrightarrow> \<exists>p w1. p > 0 \<and> GetPidFromProcName k (Some name) w = Some (Some p, w1) \<and> fst (k_kqueue k w1) \<and>
      fst (k_kill k p (snd (k_kqueue k w1))) \<and> I (snd (k_kevent k p (snd (k_kill k p (snd (k_kqueue k w1))))))"
    and "I w"
  shows "kill_loop k name w = None"
proof -
  have "\<not> I w'" if "kill_loop k name w' = Some y" for w' y
  proof -
    let ?P = "\<lambda>k' n w' (_ :: 'w option). k' = k \<longrightarrow> n = name \<longrightarrow> \<not> I w'"
    have "?P k name w' y"
      by (rule kill_loop.raw_induct [of ?P, OF _ that]) (use assms(1) in \<open>fastforce split: prod.splits\<close>)
    then show ?thesis by simp
  qed
  then show ?thesis using assms(2) by (cases "kill_loop k name w") auto
qed

lemma find_process_forever:
  assumes "p < int (length b)" and "process_entry name b p = Some (0, i, False)"
  shows "find_process name me b p = None"
proof -
  have False if "find_process name me b p = Some y" for y
  proof -
    let ?P = "\<lambda>n (m :: int) b' p' (_ :: int option). \<not> (n = name \<and> b' = b \<and> p' = p)"
    have "?P name me b p y"
      by (rule find_process.raw_induct [of ?P, OF _ that]) (use assms in fastforce)
    then show ?thesis by simp
  qed
  then show ?thesis by (cases "find_process name me b p") auto
qed

section \<open>Properties\<close>


definition sample_process :: "u32 \<Rightarrow> string \<Rightarrow> bytes" where
  "sample_process pid name =
     mem32 (of_nat (448 + length name)) @ replicate 68 0 @ mem32 pid @ replicate 371 0 @ map byte_of_char name @ [0]"

text \<open>A kernel whose world is the table itself.\<close>

definition sample_kernel :: "bytes list kernel" where
  "sample_kernel = \<lparr>k_getpid = 7, k_size = (\<lambda>w. (Some 4096, w)), k_malloc = (\<lambda>_ w. (True, w)),
     k_list = (\<lambda>_ w. (Inr (concat w), w)), k_kqueue = (\<lambda>w. (True, w)), k_kill = (\<lambda>_ w. (True, w)),
     k_kevent = (\<lambda>p w. (1, filter (\<lambda>r. proc_pid r \<noteq> p) w))\<rparr>"

lemma sample_process_reads:
  assumes "length name < 100" and "CHR 0x00 \<notin> set name"
  shows "proc_wf (sample_process pid name)" "proc_pid (sample_process pid name) = sint pid"
    "proc_name (sample_process pid name) = name"
proof -
  let ?n = "map byte_of_char name"
  have len: "length (sample_process pid name) = 448 + length name" by (simp add: sample_process_def)
  have "load32 (sample_process pid name) 0 = of_nat (448 + length name)" by (simp add: sample_process_def load32_hit)
  moreover have "sint (of_nat (448 + length name) :: u32) = int (448 + length name)"
    by (simp only: signed_of_nat) (use assms(1) in \<open>simp add: signed_take_bit_int_eq_self\<close>)
  moreover have d: "drop 447 (sample_process pid name) = ?n @ [0]" by (simp add: sample_process_def)
  ultimately show "proc_wf (sample_process pid name)" using len by (simp add: proc_wf_def)
  have "sample_process pid name = (mem32 (of_nat (448 + length name)) @ replicate 68 0) @ mem32 pid @ replicate 371 0 @ ?n @ [0]"
    by (simp add: sample_process_def)
  then have "load32 (sample_process pid name) 72 = pid" by (simp only:) (rule load32_mem32, simp)
  then show "proc_pid (sample_process pid name) = sint pid" by (simp add: proc_pid_def)
  have "takeWhile (\<lambda>b. b \<noteq> 0) (?n @ [0]) = ?n"
    using assms(2) by (subst takeWhile_append2) (auto simp: byte_of_char_0)
  then show "proc_name (sample_process pid name) = name" by (simp add: proc_name_def d comp_def)
qed


end
