(* ===== verification/Spec2Isabelle.thy ===== *)
theory Spec2Isabelle
  imports Dns_Cache Response_Parse Server Main_Entry Utils_System Listener Curl_Handles Ps_Process
begin

text \<open>
  A verification development for chukei-dns, a DNS server in C++ that answers queries from local zones and relays the
  others to DNS-over-HTTPS resolvers. Paths are relative to the repository's \<^verbatim>\<open>src\<close> directory.

  \<^bold>\<open>The program.\<close> An entry point (\<^verbatim>\<open>src/main-pc.cc\<close>, \<^verbatim>\<open>src/main-ps.cc\<close>) reads settings, fills the global configuration
  (\<^verbatim>\<open>src/config.cc\<close>), which reads the zones file (\<^verbatim>\<open>src/config_parser.cc\<close>), and starts a UDP and a TCP server
  (\<^verbatim>\<open>src/udp_server.cc\<close>, \<^verbatim>\<open>src/tcp_server.cc\<close>). A server parses a message (\<^verbatim>\<open>src/dns_parser.cc\<close> over
  \<^verbatim>\<open>src/dns_packet.cc\<close>, \<^verbatim>\<open>src/dns_packet_header.cc\<close>, \<^verbatim>\<open>src/dns_packet_question.cc\<close>, \<^verbatim>\<open>src/dns_packet_answer.cc\<close>), looks
  the name up in the zones (\<^verbatim>\<open>src/local_dns.cc\<close>), then in the response cache (\<^verbatim>\<open>src/dns_cache.cc\<close>), then upstream
  (\<^verbatim>\<open>src/dns_over_https.cc\<close>), and finishes the reply with the builders of \<^verbatim>\<open>src/dns_response.cc\<close>.

  \<^bold>\<open>Theories.\<close> Each holds the types and operations of one part, named as in the source, then its lemmas, then its
  properties; the properties of the manifest carry their number in the text before them.
  \<^item> \<open>Chukei_Prelude\<close>: bytes, characters, integers in memory (little-endian host), buffers, splitting at dots.
    \<open>Cpp_Strings\<close>: \<^verbatim>\<open>std::stoi\<close> and number output. \<open>Json_Ops\<close>: the operations of \<^verbatim>\<open>nlohmann::json\<close> as a record.
  \<^item> \<open>Chukei_Utils\<close> (\<^verbatim>\<open>include/utils.h\<close>, \<^verbatim>\<open>src/utils.cc\<close>): byte order, bit reversal, address texts, BCD.
    \<open>Utils_System\<close> (the rest of the file): the walk that logs a response, which is shown to stay inside the message and
    to agree with the packet parser, and what is made of the answers of the platform probes.
  \<^item> \<open>Dns_Header\<close>, \<open>Dns_Question\<close>, \<open>Dns_Answer\<close>, \<open>Dns_Packet\<close>: the classes of the message format. A \<^verbatim>\<open>FromWire\<close> takes
    a pointer (\<open>bytes option\<close>) and a size and returns the result, the offset and the object as it is then; a \<^verbatim>\<open>ToWire\<close>
    works on a buffer. Header setters refine updates of an abstract RFC 1035 header (\<open>header_view\<close>); the name parser
    decides the inductive specification \<open>name_at\<close> of compressed names; what is written is read back, and nothing
    beyond the announced size is read. \<open>Wire_Codec\<close> holds the section loops and the codec contract (a locale),
    interpreted by questions and answers.
  \<^item> \<open>Dns_Response\<close>, \<open>Response_Parse\<close>: the response builders; every reply that a builder completes is \<open>built\<close>, and
    what is built parses back as the intended message. Single and multiple answers agree.
  \<^item> \<open>Dns_Cache\<close>: the cache as an association list, its invariant over all sequences of operations (the locale
    \<open>keyed_store\<close>), and what a hit serves: the inserted response with its identifier and TTLs rewritten.
  \<^item> \<open>Dns_Parser\<close>: query parsing and the splitting of names by two fixed regular expressions, which are run by a
    backtracking matcher (\<open>matches\<close>) and shown to split at the second last dot.
  \<^item> \<open>Local_Dns\<close>: \<^verbatim>\<open>CheckLocalMatch\<close> with CNAME chains, ANY, PTR, wildcards and the cache of compiled patterns, which is
    shown to be transparent; reverse names of both address families.
  \<^item> \<open>Doh\<close>: settings, URL, one transfer, failover, result codes and the collection of the body.
    \<open>Curl_Handles\<close>: the libcurl handles that a client object owns, through construction, moves and destruction, with an
    ownership invariant over all programs of such operations (\<open>owners\<close>).
  \<^item> \<open>Server\<close>: what happens to a datagram and to the bytes of a TCP connection, as functions from the server's
    configuration and state to what is sent and the state after; undefined behaviour is the outer \<open>None\<close>. Both
    servers interpret the locale \<open>message_handler\<close>.
  \<^item> \<open>Listener\<close>: when the servers receive, accept, reopen their socket, wait and stop, as a state machine over the events
    of the event loop; the invariant that something is always under way is the contract \<open>event_loop\<close>.
  \<^item> \<open>Config_Parser\<close>: the zones file, from its text to zones with validated addresses, against a reading of the file as
    a finite map (\<open>file_zones\<close>, \<open>record_update\<close>, \<open>converted\<close>); with \<open>Local_Dns\<close> this goes from a record of the file to
    the reply.
  \<^item> \<open>Config\<close>: the configuration object, an invariant over all sequences of setter calls (\<open>config_reachable\<close>), the
    user agent template (the positional loop equals \<open>expand_token\<close>), and when \<^verbatim>\<open>Initialize\<close> succeeds.
  \<^item> \<open>Main_Entry\<close>: the command line (accepted texts are those of a grammar), the JSON settings, their application, and
    the start of the servers; with the other theories, properties of the running program. \<open>Ps_Process\<close>: how the console
    build finds and kills other processes of its name; its two loops need not end (partial functions), and are shown to
    end if killed processes go away.

  \<^bold>\<open>Conventions.\<close> Machine integers are words of their width where they wrap or are masked; \<^verbatim>\<open>std::size_t\<close> is \<open>nat\<close>, except
  in \<^verbatim>\<open>WriteCallback\<close>, where the product is taken modulo \<open>size_t_range\<close>. Exceptions are the left side of a sum, out-of-range
  access and null dereferences are \<open>None\<close>. Assertions are those of a release build. The clock is an \<open>int\<close> of nanoseconds.

  \<^bold>\<open>Bounds.\<close> No fuel is used: every loop is a structural recursion or has a termination proof, except
  for the two of \<open>Ps_Process\<close>. The bounds are those of the source: 16 pointer hops, 8 CNAME steps, 1024 compiled patterns, a cache capacity (1024 in the servers), names of 255
  octets, messages of 12 to 65535 octets (512 for UDP), bodies of 65535 octets.

  \<^bold>\<open>Parameters.\<close> Code outside of the repository is an argument: \<^verbatim>\<open>nlohmann::json\<close> (\<open>json\<close>, whose documented laws are
  \<open>json_laws\<close>), \<^verbatim>\<open>std::regex\<close> for the patterns of the zones (\<open>regex_engine\<close>), libcurl, the clock and the random engine
  (\<open>doh_env\<close>), \<^verbatim>\<open>inet_pton\<close> (\<open>address_ok\<close>, \<open>defaults_ok\<close>), the file system (\<open>file_state\<close>), what the build generates
  (\<open>config_env\<close>), the opening of sockets (\<open>system\<close>), and the kernel of the consoles (\<open>kernel\<close>). Each hypothesis has a
  concrete instance in a witness.

  \<^bold>\<open>Not modelled.\<close> The event loop of asio, which delivers the events of \<open>Listener\<close>, and signals; each server handles one
  message at a time, so that no interleaving is lost, but the pattern cache that both servers share is one per server
  here, and a session's life ends with its bytes. The formatting and printing of log lines other than their arguments in
  \<open>Utils_System\<close>, stream output operators, raw data pointers and vector iterators, which only expose what the accessors
  give. The system calls behind \<^verbatim>\<open>Console()\<close> and \<^verbatim>\<open>FirmwareVersion()\<close>, whose results are arguments. The set-up of libcurl
  handles beyond the options that the requests depend on.
\<close>

end
